(* ===== verification/Prelude.thy ===== *)
theory Prelude
  imports Main "HOL-Library.Word" "HOL-Library.Sublist" "HOL-Library.Code_Target_Nat"
begin

text \<open>
  The vocabulary every component shares.

  A Rust \<open>Result<T, E>\<close> is the sum \<open>'e + 'a\<close> with \<open>Err\<close> for \<open>Inl\<close> and \<open>Ok\<close> for \<open>Inr\<close>;
  the \<open>?\<close> operator is \<open>and_then\<close>.  A \<open>u8\<close> is an 8-bit word.  A \<open>char\<close> of Rust is a
  Unicode scalar value, here its code point (a \<open>nat\<close>); a \<open>str\<close> is the list of its chars, and its
  bytes are \<open>utf8_encode\<close> of that list (theory \<open>Utf8\<close>).  An \<open>i64\<close> is an \<open>int\<close> whose range is part
  of the invariants of the values that carry it, a \<open>usize\<close> that counts elements of a list is a \<open>nat\<close>.

  The functions below translate the operations of the Rust standard library the program
  calls on slices and strings: \<open>split\<close>, \<open>split_once\<close>, \<open>strip_prefix\<close>, \<open>trim_matches\<close> and so on.
\<close>

named_theorems result_simps \<open>how a failing or succeeding composition decomposes\<close>

subsection \<open>Results\<close>

abbreviation Ok :: "'a \<Rightarrow> 'e + 'a" where "Ok \<equiv> Inr"
abbreviation Err :: "'e \<Rightarrow> 'e + 'a" where "Err \<equiv> Inl"

fun and_then :: "'e + 'a \<Rightarrow> ('a \<Rightarrow> 'e + 'b) \<Rightarrow> 'e + 'b" where
  "and_then (Inl e) f = Inl e"
| "and_then (Inr v) f = f v"

fun map_err :: "('e \<Rightarrow> 'f) \<Rightarrow> 'e + 'a \<Rightarrow> 'f + 'a" where
  "map_err g (Inl e) = Inl (g e)"
| "map_err g (Inr v) = Inr v"

fun map_ok :: "('a \<Rightarrow> 'b) \<Rightarrow> 'e + 'a \<Rightarrow> 'e + 'b" where
  "map_ok g (Inl e) = Inl e"
| "map_ok g (Inr v) = Inr (g v)"

fun ok_or :: "'e \<Rightarrow> 'a option \<Rightarrow> 'e + 'a" where
  "ok_or e None = Inl e"
| "ok_or e (Some v) = Inr v"

definition guard :: "bool \<Rightarrow> 'e \<Rightarrow> 'e + unit" where
  "guard b e = (if b then Inr () else Inl e)"

fun to_option :: "'e + 'a \<Rightarrow> 'a option" where
  "to_option (Inl e) = None"
| "to_option (Inr v) = Some v"

lemma and_then_Inr_iff [result_simps]:
  "and_then r f = Inr v \<longleftrightarrow> (\<exists>a. r = Inr a \<and> f a = Inr v)"
  by (cases r) auto

lemma and_then_Inl_iff [result_simps]:
  "and_then r f = Inl e \<longleftrightarrow> r = Inl e \<or> (\<exists>a. r = Inr a \<and> f a = Inl e)"
  by (cases r) auto

lemma map_err_Inr_iff [result_simps]: "map_err g r = Inr v \<longleftrightarrow> r = Inr v"
  by (cases r) auto

lemma map_err_Inl_iff [result_simps]: "map_err g r = Inl e \<longleftrightarrow> (\<exists>d. r = Inl d \<and> g d = e)"
  by (cases r) auto

lemma map_ok_Inr_iff [result_simps]: "map_ok g r = Inr v \<longleftrightarrow> (\<exists>a. r = Inr a \<and> g a = v)"
  by (cases r) auto

lemma map_ok_Inl_iff [result_simps]: "map_ok g r = Inl e \<longleftrightarrow> r = Inl e"
  by (cases r) auto

lemma ok_or_Inr_iff [result_simps]: "ok_or e x = Inr v \<longleftrightarrow> x = Some v"
  by (cases x) auto

lemma ok_or_Inl_iff [result_simps]: "ok_or e x = Inl d \<longleftrightarrow> x = None \<and> d = e"
  by (cases x) auto

lemma guard_Inr_iff [result_simps]: "guard b e = Inr u \<longleftrightarrow> b"
  by (simp add: guard_def)

lemma guard_Inl_iff [result_simps]: "guard b e = Inl d \<longleftrightarrow> \<not> b \<and> d = e"
  by (auto simp: guard_def)

lemma to_option_Some_iff [result_simps]: "to_option r = Some v \<longleftrightarrow> r = Inr v"
  by (cases r) auto

lemma to_option_None_iff [result_simps]: "to_option r = None \<longleftrightarrow> (\<exists>e. r = Inl e)"
  by (cases r) auto

lemma and_then_cong [fundef_cong]:
  "r = r' \<Longrightarrow> (\<And>v. r' = Inr v \<Longrightarrow> f v = g v) \<Longrightarrow> and_then r f = and_then r' g"
  by (cases r') auto

text \<open>\<open>iter().map(f).collect::<Result<Vec<_>, _>>()\<close>: the first error, or all the values.\<close>

fun try_map :: "('a \<Rightarrow> 'e + 'b) \<Rightarrow> 'a list \<Rightarrow> 'e + 'b list" where
  "try_map f [] = Inr []"
| "try_map f (x # xs) = and_then (f x) (\<lambda>y. and_then (try_map f xs) (\<lambda>ys. Inr (y # ys)))"

lemma try_map_Inr_iff [result_simps]:
  "try_map f xs = Inr ys \<longleftrightarrow> list_all2 (\<lambda>x y. f x = Inr y) xs ys"
  by (induction xs arbitrary: ys) (auto simp: result_simps list_all2_Cons1)

lemma try_map_length: "try_map f xs = Inr ys \<Longrightarrow> length ys = length xs"
  by (auto simp: result_simps dest: list_all2_lengthD)

subsection \<open>Bytes, chars and literals\<close>

type_synonym u8 = "8 word"
type_synonym rchar = nat
type_synonym rstr = "rchar list"

definition lit :: "string \<Rightarrow> rstr" where
  "lit s = map of_char s"

definition blit :: "string \<Rightarrow> u8 list" where
  "blit s = map of_char s"

abbreviation CR :: rchar where "CR \<equiv> 13"
abbreviation LF :: rchar where "LF \<equiv> 10"
abbreviation CRLF :: "u8 list" where "CRLF \<equiv> [13, 10]"

definition i64_max :: int where "i64_max = 9223372036854775807"
definition i64_min :: int where "i64_min = - 9223372036854775808"

definition in_i64 :: "int \<Rightarrow> bool" where
  "in_i64 i \<longleftrightarrow> i64_min \<le> i \<and> i \<le> i64_max"

text \<open>\<open>i64::saturating_add\<close>.\<close>

definition saturating_add :: "int \<Rightarrow> int \<Rightarrow> int" where
  "saturating_add a b = max i64_min (min i64_max (a + b))"

lemma in_i64_saturating_add: "in_i64 (saturating_add a b)"
  by (simp add: in_i64_def saturating_add_def i64_min_def i64_max_def)

subsection \<open>ASCII classes of \<open>char\<close>\<close>

definition is_ascii_char :: "rchar \<Rightarrow> bool" where "is_ascii_char c \<longleftrightarrow> c < 128"
definition is_ascii :: "rstr \<Rightarrow> bool" where "is_ascii s \<longleftrightarrow> list_all is_ascii_char s"
definition is_ascii_upper :: "rchar \<Rightarrow> bool" where "is_ascii_upper c \<longleftrightarrow> 65 \<le> c \<and> c \<le> 90"
definition is_ascii_lower :: "rchar \<Rightarrow> bool" where "is_ascii_lower c \<longleftrightarrow> 97 \<le> c \<and> c \<le> 122"
definition is_ascii_digit :: "rchar \<Rightarrow> bool" where "is_ascii_digit c \<longleftrightarrow> 48 \<le> c \<and> c \<le> 57"
definition is_ascii_alphabetic :: "rchar \<Rightarrow> bool" where
  "is_ascii_alphabetic c \<longleftrightarrow> is_ascii_upper c \<or> is_ascii_lower c"
definition is_ascii_alphanumeric :: "rchar \<Rightarrow> bool" where
  "is_ascii_alphanumeric c \<longleftrightarrow> is_ascii_alphabetic c \<or> is_ascii_digit c"
definition is_ascii_control :: "rchar \<Rightarrow> bool" where "is_ascii_control c \<longleftrightarrow> c < 32 \<or> c = 127"

lemmas ascii_defs = is_ascii_char_def is_ascii_upper_def is_ascii_lower_def is_ascii_digit_def
  is_ascii_alphabetic_def is_ascii_alphanumeric_def is_ascii_control_def

definition to_ascii_lower_char :: "rchar \<Rightarrow> rchar" where
  "to_ascii_lower_char c = (if is_ascii_upper c then c + 32 else c)"

definition to_ascii_lowercase :: "rstr \<Rightarrow> rstr" where
  "to_ascii_lowercase s = map to_ascii_lower_char s"

definition eq_ignore_ascii_case :: "rstr \<Rightarrow> rstr \<Rightarrow> bool" where
  "eq_ignore_ascii_case a b \<longleftrightarrow> to_ascii_lowercase a = to_ascii_lowercase b"

text \<open>\<open>char::to_digit(16)\<close>.\<close>

definition hex_digit :: "rchar \<Rightarrow> nat option" where
  "hex_digit c = (if is_ascii_digit c then Some (c - 48)
     else if 97 \<le> c \<and> c \<le> 102 then Some (c - 87)
     else if 65 \<le> c \<and> c \<le> 70 then Some (c - 55) else None)"

lemma hex_digit_less: "hex_digit c = Some d \<Longrightarrow> d < 16"
  by (auto simp: hex_digit_def is_ascii_digit_def split: if_splits)

lemma is_ascii_alphabeticD: "is_ascii_alphabetic c \<Longrightarrow> c < 128"
  by (auto simp: ascii_defs)

lemma is_ascii_alphanumericD: "is_ascii_alphanumeric c \<Longrightarrow> c < 128"
  by (auto simp: ascii_defs)

lemma to_ascii_lower_char_idem [simp]:
  "to_ascii_lower_char (to_ascii_lower_char c) = to_ascii_lower_char c"
  by (auto simp: to_ascii_lower_char_def is_ascii_upper_def)

lemma to_ascii_lowercase_idem [simp]:
  "to_ascii_lowercase (to_ascii_lowercase s) = to_ascii_lowercase s"
  by (simp add: to_ascii_lowercase_def)

lemma to_ascii_lowercase_Nil [simp]: "to_ascii_lowercase [] = []"
  by (simp add: to_ascii_lowercase_def)

lemma to_ascii_lowercase_eq_Nil [simp]: "to_ascii_lowercase s = [] \<longleftrightarrow> s = []"
  by (simp add: to_ascii_lowercase_def)

lemma length_to_ascii_lowercase [simp]: "length (to_ascii_lowercase s) = length s"
  by (simp add: to_ascii_lowercase_def)

lemma to_ascii_lowercase_append [simp]:
  "to_ascii_lowercase (a @ b) = to_ascii_lowercase a @ to_ascii_lowercase b"
  by (simp add: to_ascii_lowercase_def)

lemma is_ascii_append [simp]: "is_ascii (a @ b) \<longleftrightarrow> is_ascii a \<and> is_ascii b"
  by (simp add: is_ascii_def)

lemma is_ascii_to_ascii_lowercase [simp]: "is_ascii (to_ascii_lowercase s) = is_ascii s"
  by (auto simp: is_ascii_def to_ascii_lowercase_def list_all_iff to_ascii_lower_char_def ascii_defs)

lemma no_upper_to_ascii_lowercase: "\<not> list_ex is_ascii_upper (to_ascii_lowercase s)"
  by (auto simp: list_ex_iff to_ascii_lowercase_def to_ascii_lower_char_def is_ascii_upper_def)

lemma to_ascii_lowercase_id: "\<not> list_ex is_ascii_upper s \<Longrightarrow> to_ascii_lowercase s = s"
  by (induction s) (auto simp: to_ascii_lowercase_def to_ascii_lower_char_def)

subsection \<open>Operations of the standard library on slices and strings\<close>

definition strip_prefix :: "'a list \<Rightarrow> 'a list \<Rightarrow> 'a list option" where
  "strip_prefix p s = (if take (length p) s = p then Some (drop (length p) s) else None)"

definition strip_suffix :: "'a list \<Rightarrow> 'a list \<Rightarrow> 'a list option" where
  "strip_suffix p s =
     (if length p \<le> length s \<and> drop (length s - length p) s = p
      then Some (take (length s - length p) s) else None)"

definition starts_with :: "'a list \<Rightarrow> 'a list \<Rightarrow> bool" where
  "starts_with p s \<longleftrightarrow> take (length p) s = p"

definition ends_with :: "'a list \<Rightarrow> 'a list \<Rightarrow> bool" where
  "ends_with p s \<longleftrightarrow> length p \<le> length s \<and> drop (length s - length p) s = p"

definition trim_start_matches :: "('a \<Rightarrow> bool) \<Rightarrow> 'a list \<Rightarrow> 'a list" where
  "trim_start_matches p s = dropWhile p s"

definition trim_end_matches :: "('a \<Rightarrow> bool) \<Rightarrow> 'a list \<Rightarrow> 'a list" where
  "trim_end_matches p s = rev (dropWhile p (rev s))"

definition trim_matches :: "('a \<Rightarrow> bool) \<Rightarrow> 'a list \<Rightarrow> 'a list" where
  "trim_matches p s = trim_end_matches p (trim_start_matches p s)"

text \<open>\<open>split(p)\<close>: the pieces between the elements that satisfy \<open>p\<close>; never empty.\<close>

fun split_by :: "('a \<Rightarrow> bool) \<Rightarrow> 'a list \<Rightarrow> 'a list list" where
  "split_by p [] = [[]]"
| "split_by p (x # xs) =
     (if p x then [] # split_by p xs
      else (case split_by p xs of [] \<Rightarrow> [[x]] | y # ys \<Rightarrow> (x # y) # ys))"

abbreviation split_at_char :: "'a \<Rightarrow> 'a list \<Rightarrow> 'a list list" where
  "split_at_char c \<equiv> split_by (\<lambda>x. x = c)"

fun split_once :: "'a \<Rightarrow> 'a list \<Rightarrow> ('a list \<times> 'a list) option" where
  "split_once c [] = None"
| "split_once c (x # xs) =
     (if x = c then Some ([], xs)
      else map_option (\<lambda>(a, b). (x # a, b)) (split_once c xs))"

definition rsplit_once :: "'a \<Rightarrow> 'a list \<Rightarrow> ('a list \<times> 'a list) option" where
  "rsplit_once c s = map_option (\<lambda>(a, b). (rev b, rev a)) (split_once c (rev s))"

fun position :: "('a \<Rightarrow> bool) \<Rightarrow> 'a list \<Rightarrow> nat option" where
  "position p [] = None"
| "position p (x # xs) = (if p x then Some 0 else map_option Suc (position p xs))"

fun join :: "'a list \<Rightarrow> 'a list list \<Rightarrow> 'a list" where
  "join sep [] = []"
| "join sep [x] = x"
| "join sep (x # y # ys) = x @ sep @ join sep (y # ys)"

text \<open>\<open>str::replace\<close> of a non-empty pattern: left to right, without overlap.\<close>

function replace_all :: "'a list \<Rightarrow> 'a list \<Rightarrow> 'a list \<Rightarrow> 'a list" where
  "replace_all pat rep s =
     (if pat = [] \<or> s = [] then s
      else if starts_with pat s then rep @ replace_all pat rep (drop (length pat) s)
      else hd s # replace_all pat rep (tl s))"
  by pat_completeness auto
termination
  by (relation "measure (\<lambda>(pat, rep, s). length s)") auto

declare replace_all.simps [simp del]

text \<open>\<open>slice::get(i)\<close>.\<close>

definition get_at :: "'a list \<Rightarrow> nat \<Rightarrow> 'a option" where
  "get_at s i = (if i < length s then Some (s ! i) else None)"

text \<open>\<open>&s[a..b]\<close> with \<open>a \<le> b \<le> len\<close>.\<close>

definition slice :: "'a list \<Rightarrow> nat \<Rightarrow> nat \<Rightarrow> 'a list" where
  "slice s a b = take (b - a) (drop a s)"

subsection \<open>Facts about these operations\<close>

lemma split_by_neq_Nil [simp]: "split_by p s \<noteq> []"
  by (induction s) (auto split: list.splits)

lemma split_by_pieces: "piece \<in> set (split_by p s) \<Longrightarrow> x \<in> set piece \<Longrightarrow> x \<in> set s \<and> \<not> p x"
proof (induction s arbitrary: piece)
  case (Cons y s)
  obtain z zs where "split_by p s = z # zs"
    by (cases "split_by p s") auto
  with Cons show ?case
    by (fastforce split: if_splits)
qed simp

lemma split_by_covers: "x \<in> set s \<Longrightarrow> \<not> p x \<Longrightarrow> \<exists>piece\<in>set (split_by p s). x \<in> set piece"
proof (induction s)
  case (Cons y s)
  obtain z zs where "split_by p s = z # zs"
    by (cases "split_by p s") auto
  with Cons show ?case by auto
qed simp

lemma split_by_map:
  "(\<And>x. x \<in> set s \<Longrightarrow> p (f x) = q x) \<Longrightarrow> split_by p (map f s) = map (map f) (split_by q s)"
  by (induction s) (auto split: list.splits)

lemma split_by_none: "(\<And>x. x \<in> set s \<Longrightarrow> \<not> p x) \<Longrightarrow> split_by p s = [s]"
  by (induction s) auto

lemma join_Cons: "xs \<noteq> [] \<Longrightarrow> join sep (x # xs) = x @ sep @ join sep xs"
  by (cases xs) auto

lemma join_split_at_char [simp]: "join [c] (split_at_char c s) = s"
proof (induction s)
  case Nil
  then show ?case by simp
next
  case (Cons x s)
  obtain y ys where "split_at_char c s = y # ys"
    by (cases "split_at_char c s") auto
  with Cons show ?case by (cases ys) (auto simp: join_Cons)
qed

lemma split_at_char_append:
  "c \<notin> set a \<Longrightarrow> split_at_char c (a @ c # b) = a # split_at_char c b"
  by (induction a) auto

lemma split_once_Some_iff: "split_once c s = Some (a, b) \<longleftrightarrow> s = a @ c # b \<and> c \<notin> set a"
proof (induction s arbitrary: a)
  case (Cons x s)
  show ?case
  proof (cases a)
    case Nil
    then show ?thesis by (auto split: prod.splits)
  next
    case (Cons y ys)
    then have "split_once c (x # s) = Some (a, b) \<longleftrightarrow> x \<noteq> c \<and> y = x \<and> split_once c s = Some (ys, b)"
      by (auto split: prod.splits)
    with Cons.IH Cons show ?thesis by auto
  qed
qed simp

lemma split_once_None_iff: "split_once c s = None \<longleftrightarrow> c \<notin> set s"
  by (induction s) auto

lemma rsplit_once_Some_iff: "rsplit_once c s = Some (a, b) \<longleftrightarrow> s = a @ c # b \<and> c \<notin> set b"
proof -
  have "rsplit_once c s = Some (a, b) \<longleftrightarrow> split_once c (rev s) = Some (rev b, rev a)"
    by (auto simp: rsplit_once_def)
  also have "\<dots> \<longleftrightarrow> rev s = rev (a @ c # b) \<and> c \<notin> set b"
    by (simp add: split_once_Some_iff)
  finally show ?thesis by (simp only: rev_is_rev_conv)
qed

lemma split_once_absent: "c \<notin> set s \<Longrightarrow> split_once c s = None"
proof (cases "split_once c s")
  case (Some uv)
  then obtain u v where "s = u @ c # v" by (cases uv) (auto simp: split_once_Some_iff)
  then show "c \<notin> set s \<Longrightarrow> split_once c s = None" by simp
qed simp

lemma rsplit_once_absent: "c \<notin> set s \<Longrightarrow> rsplit_once c s = None"
proof (cases "rsplit_once c s")
  case (Some uv)
  then obtain u v where "s = u @ c # v" by (cases uv) (auto simp: rsplit_once_Some_iff)
  then show "c \<notin> set s \<Longrightarrow> rsplit_once c s = None" by simp
qed simp

lemma rsplit_once_None_iff: "rsplit_once c s = None \<longleftrightarrow> c \<notin> set s"
  by (simp add: rsplit_once_def split_once_None_iff)

lemma strip_prefix_Some_iff: "strip_prefix p s = Some r \<longleftrightarrow> s = p @ r"
proof
  assume "strip_prefix p s = Some r"
  then have "take (length p) s = p" and "drop (length p) s = r"
    by (auto simp: strip_prefix_def split: if_splits)
  then show "s = p @ r"
    by (metis append_take_drop_id)
qed (simp add: strip_prefix_def)

lemma starts_with_iff: "starts_with p s \<longleftrightarrow> (\<exists>r. s = p @ r)"
proof
  assume "starts_with p s"
  then have "s = p @ drop (length p) s"
    unfolding starts_with_def by (metis append_take_drop_id)
  then show "\<exists>r. s = p @ r" ..
qed (auto simp: starts_with_def)

lemma ends_with_iff: "ends_with p s \<longleftrightarrow> (\<exists>r. s = r @ p)"
proof
  assume "ends_with p s"
  then have "drop (length s - length p) s = p"
    by (simp add: ends_with_def)
  then show "\<exists>r. s = r @ p"
    by (metis append_take_drop_id)
qed (auto simp: ends_with_def)

lemma strip_suffix_Some_iff: "strip_suffix p s = Some r \<longleftrightarrow> s = r @ p"
proof
  assume "strip_suffix p s = Some r"
  then have "drop (length s - length p) s = p" and "take (length s - length p) s = r"
    by (auto simp: strip_suffix_def split: if_splits)
  then show "s = r @ p"
    by (metis append_take_drop_id)
qed (simp add: strip_suffix_def)

lemma starts_with_append [simp]: "starts_with p (p @ r)"
  by (simp add: starts_with_def)

lemma set_trim_matches: "set (trim_matches p s) \<subseteq> set s"
proof
  fix x
  assume "x \<in> set (trim_matches p s)"
  then have "x \<in> set (dropWhile p (rev (dropWhile p s)))"
    by (simp add: trim_matches_def trim_end_matches_def trim_start_matches_def)
  then have "x \<in> set (rev (dropWhile p s))"
    by (rule set_dropWhileD)
  then show "x \<in> set s"
    by (auto dest: set_dropWhileD)
qed

lemma trim_end_matches_append:
  "\<exists>r. s = trim_end_matches p s @ r \<and> (\<forall>x\<in>set r. p x)"
proof -
  have "s = rev (dropWhile p (rev s)) @ rev (takeWhile p (rev s))"
    by (metis rev_append rev_rev_ident takeWhile_dropWhile_id)
  then show ?thesis
    unfolding trim_end_matches_def by (metis set_rev set_takeWhileD)
qed

lemma trim_matches_id:
  assumes "s \<noteq> []" "\<not> p (hd s)" "\<not> p (last s)"
  shows "trim_matches p s = s"
proof -
  have "dropWhile p s = s" using assms(1,2) by (cases s) auto
  moreover have "dropWhile p (rev s) = rev s"
    using assms(1,3) by (cases "rev s") (auto simp: hd_rev [symmetric])
  ultimately show ?thesis
    by (simp add: trim_matches_def trim_end_matches_def trim_start_matches_def)
qed

lemma trim_matches_Nil_iff: "trim_matches p s = [] \<longleftrightarrow> (\<forall>x\<in>set s. p x)"
proof -
  have "trim_matches p s = [] \<longleftrightarrow> (\<forall>x\<in>set (dropWhile p s). p x)"
    by (simp add: trim_matches_def trim_end_matches_def trim_start_matches_def)
  also have "\<dots> \<longleftrightarrow> (\<forall>x\<in>set s. p x)"
    by (induction s) auto
  finally show ?thesis .
qed

lemma position_Some_iff:
  "position p s = Some i \<longleftrightarrow> i < length s \<and> p (s ! i) \<and> (\<forall>j < i. \<not> p (s ! j))"
proof (induction s arbitrary: i)
  case (Cons x s)
  then show ?case
    by (cases i) (auto simp: less_Suc_eq_0_disj)
qed simp

lemma position_None_iff: "position p s = None \<longleftrightarrow> (\<forall>x\<in>set s. \<not> p x)"
  by (induction s) auto

lemma get_at_Some_iff: "get_at s i = Some x \<longleftrightarrow> i < length s \<and> s ! i = x"
  by (auto simp: get_at_def)

lemma get_at_None_iff: "get_at s i = None \<longleftrightarrow> length s \<le> i"
  by (auto simp: get_at_def)

lemma length_slice [simp]: "b \<le> length s \<Longrightarrow> length (slice s a b) = b - a"
  by (simp add: slice_def)

lemma set_slice: "set (slice s a b) \<subseteq> set s"
  by (auto simp: slice_def dest: in_set_takeD in_set_dropD)

text \<open>\<open>find\<close>, from the left and from the right.\<close>

lemma find_append:
  "find P (xs @ ys) = (case find P xs of None \<Rightarrow> find P ys | Some x \<Rightarrow> Some x)"
  by (induction xs) auto

lemma find_Some_split:
  "find P xs = Some x \<longleftrightarrow> (\<exists>pre post. xs = pre @ x # post \<and> P x \<and> (\<forall>y\<in>set pre. \<not> P y))"
proof (induction xs)
  case (Cons y ys)
  show ?case
  proof (cases "P y")
    case True
    then show ?thesis
      by (auto simp: Cons_eq_append_conv)
  next
    case False
    show ?thesis
    proof
      assume "find P (y # ys) = Some x"
      with False Cons obtain pre post where "ys = pre @ x # post" "P x" "\<forall>y\<in>set pre. \<not> P y"
        by auto
      with False show "\<exists>pre post. y # ys = pre @ x # post \<and> P x \<and> (\<forall>y\<in>set pre. \<not> P y)"
        by (intro exI [of _ "y # pre"] exI [of _ post]) auto
    next
      assume "\<exists>pre post. y # ys = pre @ x # post \<and> P x \<and> (\<forall>y\<in>set pre. \<not> P y)"
      with False Cons show "find P (y # ys) = Some x"
        by (auto simp: Cons_eq_append_conv)
    qed
  qed
qed simp

lemma find_rev_Some_iff:
  "find P (rev xs) = Some x \<longleftrightarrow> (\<exists>pre post. xs = pre @ x # post \<and> P x \<and> (\<forall>y\<in>set post. \<not> P y))"
proof -
  have "rev xs = a @ x # b \<longleftrightarrow> xs = rev b @ x # rev a" for a b
    by (metis append.assoc append_Cons append_Nil rev.simps(2) rev_append rev_rev_ident)
  then show ?thesis
    unfolding find_Some_split by (metis rev_rev_ident set_rev)
qed

subsection \<open>Decimal numbers\<close>

text \<open>What \<open>{}\<close> prints for an integer.\<close>

function show_nat :: "nat \<Rightarrow> rstr" where
  "show_nat n = (if n < 10 then [48 + n] else show_nat (n div 10) @ [48 + n mod 10])"
  by pat_completeness auto
termination by (relation "measure id") auto

declare show_nat.simps [simp del]

definition show_int :: "int \<Rightarrow> rstr" where
  "show_int i = (if i < 0 then 45 # show_nat (nat (- i)) else show_nat (nat i))"

text \<open>The value of a run of ASCII digits.\<close>

definition digits_value :: "rstr \<Rightarrow> nat" where
  "digits_value s = foldl (\<lambda>v c. v * 10 + (c - 48)) 0 s"

lemma digits_value_snoc [simp]: "digits_value (s @ [c]) = digits_value s * 10 + (c - 48)"
  by (simp add: digits_value_def)

lemma digits_value_show_nat [simp]: "digits_value (show_nat n) = n"
proof (induction n rule: show_nat.induct)
  case (1 n)
  show ?case
  proof (cases "n < 10")
    case True
    then show ?thesis by (simp add: show_nat.simps [of n] digits_value_def)
  next
    case False
    then show ?thesis using 1 by (simp add: show_nat.simps [of n])
  qed
qed

lemma show_nat_digits: "show_nat n \<noteq> [] \<and> list_all is_ascii_digit (show_nat n)"
proof (induction n rule: show_nat.induct)
  case (1 n)
  have "n mod 10 \<le> 9" by simp
  with 1 show ?case by (cases "n < 10") (simp_all add: show_nat.simps [of n] is_ascii_digit_def)
qed

lemma show_nat_no_zero: "0 < n \<Longrightarrow> hd (show_nat n) \<noteq> 48"
proof (induction n rule: show_nat.induct)
  case (1 n)
  then show ?case
    using show_nat_digits [of "n div 10"]
    by (cases "n < 10") (simp_all add: show_nat.simps [of n])
qed

lemma length_show_nat: "0 < k \<Longrightarrow> n < 10 ^ k \<Longrightarrow> length (show_nat n) \<le> k"
proof (induction k arbitrary: n)
  case (Suc k)
  show ?case
  proof (cases "n < 10")
    case True
    then show ?thesis by (simp add: show_nat.simps [of n])
  next
    case False
    with Suc.prems have "0 < k" by (cases k) auto
    moreover have "n div 10 < 10 ^ k" using Suc.prems(2) by (simp add: less_mult_imp_div_less mult.commute)
    ultimately have "length (show_nat (n div 10)) \<le> k" by (rule Suc.IH)
    with False show ?thesis by (simp add: show_nat.simps [of n])
  qed
qed simp

end
