(* ===== verification/Utf8.thy ===== *)
theory Utf8
  imports Prelude
begin

text \<open>
  UTF-8 as the Rust standard library has it: the bytes of a \<open>str\<close> (\<open>utf8_encode\<close>),
  \<open>String::from_utf8\<close> (\<open>from_utf8\<close>), \<open>String::from_utf8_lossy\<close> (\<open>from_utf8_lossy\<close>, which
  replaces each maximal invalid part by U+FFFD), and latin-1 decoding, one char per byte.
  The main facts are the round trips \<open>from_utf8_encode\<close> and \<open>from_utf8_lossy_encode\<close>.
\<close>

text \<open>Unicode scalar values: what a Rust \<open>char\<close> can hold.\<close>

definition is_scalar :: "rchar \<Rightarrow> bool" where
  "is_scalar c \<longleftrightarrow> c < 0xD800 \<or> 0xE000 \<le> c \<and> c < 0x110000"

definition valid_str :: "rstr \<Rightarrow> bool" where
  "valid_str s \<longleftrightarrow> list_all is_scalar s"

definition utf8_char :: "rchar \<Rightarrow> u8 list" where
  "utf8_char c =
     (if c < 0x80 then [of_nat c]
      else if c < 0x800 then [of_nat (0xC0 + c div 64), of_nat (0x80 + c mod 64)]
      else if c < 0x10000 then
        [of_nat (0xE0 + c div 4096), of_nat (0x80 + c div 64 mod 64), of_nat (0x80 + c mod 64)]
      else
        [of_nat (0xF0 + c div 262144), of_nat (0x80 + c div 4096 mod 64),
         of_nat (0x80 + c div 64 mod 64), of_nat (0x80 + c mod 64)])"

definition utf8_encode :: "rstr \<Rightarrow> u8 list" where
  "utf8_encode s = concat (map utf8_char s)"

abbreviation byte_len :: "rstr \<Rightarrow> nat" where
  "byte_len s \<equiv> length (utf8_encode s)"

definition is_cont :: "nat \<Rightarrow> bool" where
  "is_cont b \<longleftrightarrow> 0x80 \<le> b \<and> b < 0xC0"

text \<open>The second byte of a three and of a four byte sequence.\<close>

definition second3 :: "nat \<Rightarrow> nat \<Rightarrow> bool" where
  "second3 b c \<longleftrightarrow> is_cont c \<and> (b = 0xE0 \<longrightarrow> 0xA0 \<le> c) \<and> (b = 0xED \<longrightarrow> c < 0xA0)"

definition second4 :: "nat \<Rightarrow> nat \<Rightarrow> bool" where
  "second4 b c \<longleftrightarrow> is_cont c \<and> (b = 0xF0 \<longrightarrow> 0x90 \<le> c) \<and> (b = 0xF4 \<longrightarrow> c < 0x90)"

text \<open>
  One decoding step at the lead byte \<open>b\<close>: the char, or \<open>None\<close> for a maximal invalid part,
  and the bytes after it.
\<close>

definition utf8_step :: "nat \<Rightarrow> nat list \<Rightarrow> rchar option \<times> nat list" where
  "utf8_step b bs =
     (if b < 0x80 then (Some b, bs)
      else if 0xC2 \<le> b \<and> b < 0xE0 then
        (case bs of
           c # r \<Rightarrow> if is_cont c then (Some ((b - 0xC0) * 64 + (c - 0x80)), r) else (None, bs)
         | [] \<Rightarrow> (None, []))
      else if 0xE0 \<le> b \<and> b < 0xF0 then
        (case bs of
           c # r \<Rightarrow> if second3 b c then
               (case r of
                  d # r' \<Rightarrow> if is_cont d
                    then (Some ((b - 0xE0) * 4096 + (c - 0x80) * 64 + (d - 0x80)), r')
                    else (None, r)
                | [] \<Rightarrow> (None, []))
             else (None, bs)
         | [] \<Rightarrow> (None, []))
      else if 0xF0 \<le> b \<and> b < 0xF5 then
        (case bs of
           c # r \<Rightarrow> if second4 b c then
               (case r of
                  d # r' \<Rightarrow> if is_cont d then
                      (case r' of
                         e # r'' \<Rightarrow> if is_cont e
                           then (Some ((b - 0xF0) * 262144 + (c - 0x80) * 4096
                                       + (d - 0x80) * 64 + (e - 0x80)), r'')
                           else (None, r')
                       | [] \<Rightarrow> (None, []))
                    else (None, r)
                | [] \<Rightarrow> (None, []))
             else (None, bs)
         | [] \<Rightarrow> (None, []))
      else (None, bs))"

lemma utf8_step_length: "length (snd (utf8_step b bs)) \<le> length bs"
  by (auto simp: utf8_step_def split: list.splits)

function utf8_scan :: "nat list \<Rightarrow> rchar option list" where
  "utf8_scan [] = []"
| "utf8_scan (b # bs) = fst (utf8_step b bs) # utf8_scan (snd (utf8_step b bs))"
  by pat_completeness auto
termination
  by (relation "measure length") (auto intro: le_imp_less_Suc utf8_step_length)

definition from_utf8 :: "u8 list \<Rightarrow> rstr option" where
  "from_utf8 bs = (let cs = utf8_scan (map unat bs)
     in if None \<in> set cs then None else Some (map the cs))"

definition from_utf8_lossy :: "u8 list \<Rightarrow> rstr" where
  "from_utf8_lossy bs =
     map (\<lambda>c. case c of None \<Rightarrow> 0xFFFD | Some c \<Rightarrow> c) (utf8_scan (map unat bs))"

text \<open>\<open>bytes.iter().map(|&b| char::from(b)).collect()\<close>.\<close>

definition latin1_chars :: "u8 list \<Rightarrow> rstr" where
  "latin1_chars bs = map unat bs"

subsection \<open>Round trips\<close>

lemma utf8_encode_Nil [simp]: "utf8_encode [] = []"
  by (simp add: utf8_encode_def)

lemma utf8_encode_Cons [simp]: "utf8_encode (c # s) = utf8_char c @ utf8_encode s"
  by (simp add: utf8_encode_def)

lemma utf8_encode_append [simp]: "utf8_encode (a @ b) = utf8_encode a @ utf8_encode b"
  by (simp add: utf8_encode_def)

lemma unat_byte: "n < 256 \<Longrightarrow> unat (of_nat n :: u8) = n"
  by (simp add: unat_of_nat)

lemma three_digits: "(c::nat) = c div 4096 * 4096 + c div 64 mod 64 * 64 + c mod 64"
proof -
  have "c = c div 64 * 64 + c mod 64" by simp
  moreover have "c div 64 = c div 4096 * 64 + c div 64 mod 64"
    using div_mult2_eq [of c 64 64] by simp
  ultimately show ?thesis by linarith
qed

lemma four_digits:
  "(c::nat) = c div 262144 * 262144 + c div 4096 mod 64 * 4096 + c div 64 mod 64 * 64 + c mod 64"
proof -
  have "c div 4096 = c div 262144 * 64 + c div 4096 mod 64"
    using div_mult2_eq [of c 4096 64] by simp
  then show ?thesis using three_digits [of c] by linarith
qed

lemma utf8_step_char:
  assumes "is_scalar c"
  obtains b bs where "map unat (utf8_char c) = b # bs" "utf8_step b (bs @ r) = (Some c, r)"
proof -
  consider (one) "c < 0x80" | (two) "0x80 \<le> c" "c < 0x800" | (three) "0x800 \<le> c" "c < 0x10000"
    | (four) "0x10000 \<le> c" "c < 0x110000"
    using assms unfolding is_scalar_def by linarith
  then show thesis
  proof cases
    case one
    then show ?thesis
      using that [of c "[]"] by (simp add: utf8_char_def utf8_step_def unat_byte del: of_nat_add)
  next
    case two
    have b: "0xC0 + c div 64 < 256" "0x80 + c mod 64 < 256" "0xC2 \<le> 0xC0 + c div 64"
      "0xC0 + c div 64 < 0xE0" "is_cont (0x80 + c mod 64)" "c div 64 * 64 + c mod 64 = c"
      using two by (auto simp: is_cont_def)
    show ?thesis
      using that [of "0xC0 + c div 64" "[0x80 + c mod 64]"] two b
      by (simp add: utf8_char_def utf8_step_def unat_byte del: of_nat_add)
  next
    case three
    have b: "0xE0 + c div 4096 < 0xF0" "0x80 + c div 64 mod 64 < 256" "0x80 + c mod 64 < 256"
      using three by (auto simp: less_mult_imp_div_less)
    moreover have "second3 (0xE0 + c div 4096) (0x80 + c div 64 mod 64)"
    proof -
      note t = three_digits [of c]
      have "c div 64 mod 64 < 32" if "c div 4096 = 13"
        using t that three assms unfolding is_scalar_def by linarith
      moreover have "32 \<le> c div 64 mod 64" if "c div 4096 = 0"
        using t that three mod_less_divisor [of 64 c] by linarith
      ultimately show ?thesis
        by (auto simp: second3_def is_cont_def)
    qed
    moreover have "is_cont (0x80 + c mod 64)"
      by (simp add: is_cont_def)
    moreover note three_digits [of c]
    ultimately show ?thesis
      using that [of "0xE0 + c div 4096" "[0x80 + c div 64 mod 64, 0x80 + c mod 64]"] three
      by (simp add: utf8_char_def utf8_step_def unat_byte del: of_nat_add)
  next
    case four
    have b: "0xF0 + c div 262144 < 0xF5" "0x80 + c div 4096 mod 64 < 256"
      "0x80 + c div 64 mod 64 < 256" "0x80 + c mod 64 < 256"
      using four by (auto simp: less_mult_imp_div_less)
    moreover have "second4 (0xF0 + c div 262144) (0x80 + c div 4096 mod 64)"
    proof -
      note t = four_digits [of c]
      have "c div 4096 mod 64 < 16" if "c div 262144 = 4"
        using t that four by linarith
      moreover have "16 \<le> c div 4096 mod 64" if "c div 262144 = 0"
        using t that four mod_less_divisor [of 64 c] mod_less_divisor [of 64 "c div 64"] by linarith
      ultimately show ?thesis
        by (auto simp: second4_def is_cont_def)
    qed
    moreover have "is_cont (0x80 + c div 64 mod 64)" "is_cont (0x80 + c mod 64)"
      by (simp_all add: is_cont_def)
    moreover note four_digits [of c]
    ultimately show ?thesis
      using that [of "0xF0 + c div 262144"
          "[0x80 + c div 4096 mod 64, 0x80 + c div 64 mod 64, 0x80 + c mod 64]"] four
      by (simp add: utf8_char_def utf8_step_def unat_byte del: of_nat_add)
  qed
qed

lemma utf8_scan_encode: "valid_str s \<Longrightarrow> utf8_scan (map unat (utf8_encode s)) = map Some s"
proof (induction s)
  case (Cons c s)
  then have "is_scalar c" by (simp add: valid_str_def)
  then obtain b bs where "map unat (utf8_char c) = b # bs"
    and "utf8_step b (bs @ map unat (utf8_encode s)) = (Some c, map unat (utf8_encode s))"
    by (rule utf8_step_char)
  with Cons show ?case by (simp add: valid_str_def)
qed simp

lemma from_utf8_encode: "valid_str s \<Longrightarrow> from_utf8 (utf8_encode s) = Some s"
  by (auto simp: from_utf8_def utf8_scan_encode comp_def)

lemma from_utf8_lossy_encode: "valid_str s \<Longrightarrow> from_utf8_lossy (utf8_encode s) = s"
  by (simp add: from_utf8_lossy_def utf8_scan_encode comp_def)

lemma utf8_step_scalar:
  assumes "utf8_step b bs = (Some c, r)"
  shows "is_scalar c"
proof -
  have three: "is_scalar ((b - 0xE0) * 4096 + (x - 0x80) * 64 + (y - 0x80))"
    if H: "0xE0 \<le> b" "b < 0xF0" "second3 b x" "is_cont y" for x y
  proof -
    obtain k where k: "b = 0xE0 + k" using H le_Suc_ex [where l = b and k = "0xE0"] by blast
    obtain l where l: "x = 0x80 + l" using H le_Suc_ex [where l = x and k = "0x80"]
      by (auto simp: second3_def is_cont_def)
    obtain m where m: "y = 0x80 + m" using H le_Suc_ex [where l = y and k = "0x80"]
      by (auto simp: is_cont_def)
    have "k < 16" "l < 64" "m < 64" "k = 13 \<longrightarrow> l < 32"
      using H k l m by (auto simp: second3_def is_cont_def)
    then have "k * 4096 + l * 64 + m < 0xD800 \<or> 0xE000 \<le> k * 4096 + l * 64 + m
        \<and> k * 4096 + l * 64 + m < 0x110000"
      by (cases "k = 13"; cases "k < 13"; linarith)
    then show ?thesis by (simp add: is_scalar_def k l m)
  qed
  have four: "is_scalar ((b - 0xF0) * 262144 + (x - 0x80) * 4096 + (y - 0x80) * 64 + (z - 0x80))"
    if H: "0xF0 \<le> b" "b < 0xF5" "second4 b x" "is_cont y" "is_cont z" for x y z
  proof -
    obtain k where k: "b = 0xF0 + k" using H le_Suc_ex [where l = b and k = "0xF0"] by blast
    obtain l where l: "x = 0x80 + l" using H le_Suc_ex [where l = x and k = "0x80"]
      by (auto simp: second4_def is_cont_def)
    obtain m where m: "y = 0x80 + m" using H le_Suc_ex [where l = y and k = "0x80"]
      by (auto simp: is_cont_def)
    obtain n where n: "z = 0x80 + n" using H le_Suc_ex [where l = z and k = "0x80"]
      by (auto simp: is_cont_def)
    have "k < 5" "l < 64" "m < 64" "n < 64" "k = 4 \<longrightarrow> l < 16" "k = 0 \<longrightarrow> 16 \<le> l"
      using H k l m n by (auto simp: second4_def is_cont_def)
    then have "0xE000 \<le> k * 262144 + l * 4096 + m * 64 + n
        \<and> k * 262144 + l * 4096 + m * 64 + n < 0x110000"
      by (cases "k = 4"; cases "k = 0"; linarith)
    then show ?thesis by (simp add: is_scalar_def k l m n)
  qed
  have two: "is_scalar ((b - 0xC0) * 64 + (x - 0x80))"
    if "0xC2 \<le> b" "b < 0xE0" "is_cont x" for x
    using that unfolding is_scalar_def is_cont_def by linarith
  have one: "b < 0x80 \<Longrightarrow> is_scalar b" by (simp add: is_scalar_def)
  from assms one show ?thesis
    by (auto simp: utf8_step_def intro: two three four split: if_splits list.splits)
qed

lemma utf8_scan_scalar: "Some c \<in> set (utf8_scan bs) \<Longrightarrow> is_scalar c"
proof (induction bs rule: utf8_scan.induct)
  case (2 b bs)
  then show ?case
    using utf8_step_scalar [of b bs c] by (cases "utf8_step b bs") auto
qed simp

lemma from_utf8_valid: "from_utf8 bs = Some s \<Longrightarrow> valid_str s"
  by (auto simp: from_utf8_def Let_def valid_str_def list_all_iff split: if_splits)
    (metis option.collapse utf8_scan_scalar)

lemma from_utf8_lossy_valid: "valid_str (from_utf8_lossy bs)"
  by (auto simp: from_utf8_lossy_def valid_str_def list_all_iff is_scalar_def split: option.splits)
    (metis is_scalar_def utf8_scan_scalar)+

lemma utf8_encode_inj: "valid_str a \<Longrightarrow> valid_str b \<Longrightarrow> utf8_encode a = utf8_encode b \<longleftrightarrow> a = b"
  by (metis from_utf8_encode option.inject)

lemma is_ascii_valid_str: "is_ascii s \<Longrightarrow> valid_str s"
  by (auto simp: is_ascii_def valid_str_def list_all_iff is_ascii_char_def is_scalar_def)

lemma utf8_encode_ascii: "is_ascii s \<Longrightarrow> utf8_encode s = map of_nat s"
  by (induction s) (auto simp: is_ascii_def is_ascii_char_def utf8_char_def)

lemma byte_len_ascii: "is_ascii s \<Longrightarrow> byte_len s = length s"
  by (simp add: utf8_encode_ascii)

lemma length_utf8_char: "1 \<le> length (utf8_char c) \<and> length (utf8_char c) \<le> 4"
  by (simp add: utf8_char_def)

lemma length_le_byte_len: "length s \<le> byte_len s"
proof (induction s)
  case (Cons c s)
  then show ?case using length_utf8_char [of c] by simp
qed simp

end
