(* ===== verification/Crates.thy ===== *)
theory Crates
  imports Utf8
begin

text \<open>
  What the relay calls and this repository does not contain: the crates \<open>idna\<close>, \<open>sha2\<close>,
  \<open>base64\<close> and \<open>subtle\<close>, and the Unicode tables behind \<open>str::to_lowercase\<close>.  They are fields of
  a record every definition that uses them takes as its argument, so nothing is assumed of
  them by a definition.  What a property relies on is one of the predicates below, each a
  documented behaviour of the crate; \<open>ascii_crates\<close> is a concrete instance that satisfies all
  of them (the ASCII fragment), which the witnesses use.
\<close>

text \<open>\<open>idna::uts46::DnsLength\<close>, the two values the program passes.\<close>

datatype dns_length = Verify | VerifyAllowRootDot

record crates =
  std_lower :: "rstr \<Rightarrow> rstr"  \<comment> \<open>\<open>str::to_lowercase\<close>\<close>
  uts46_to_ascii :: "dns_length \<Rightarrow> rstr \<Rightarrow> rstr option"
    \<comment> \<open>\<open>Uts46::to_ascii\<close> with \<open>AsciiDenyList::STD3\<close> and \<open>Hyphens::Check\<close>\<close>
  domain_to_unicode :: "rstr \<Rightarrow> rstr \<times> bool"  \<comment> \<open>\<open>idna::domain_to_unicode\<close>, \<open>True\<close> for \<open>Ok(())\<close>\<close>
  b64_decode_strict :: "rstr \<Rightarrow> u8 list option"
    \<comment> \<open>the \<open>base64\<close> engine of \<open>PY_STRICT_BASE64\<close>\<close>
  sha256 :: "u8 list \<Rightarrow> u8 list"  \<comment> \<open>\<open>Sha256::digest\<close>\<close>
  std_debug :: "rstr \<Rightarrow> rstr"  \<comment> \<open>\<open>{:?}\<close> of a string, by the Unicode tables\<close>
  ct_eq :: "u8 list \<Rightarrow> u8 list \<Rightarrow> bool"  \<comment> \<open>\<open>subtle::ConstantTimeEq::ct_eq\<close>\<close>

subsection \<open>Documented behaviour\<close>

text \<open>\<open>to_lowercase\<close> maps an ASCII string like \<open>to_ascii_lowercase\<close>.\<close>

definition lower_ascii :: "crates \<Rightarrow> bool" where
  "lower_ascii X \<longleftrightarrow> (\<forall>s. is_ascii s \<longrightarrow> std_lower X s = to_ascii_lowercase s)"

text \<open>\<open>ct_eq\<close> decides equality (the time it takes is outside the model).\<close>

definition ct_eq_decides :: "crates \<Rightarrow> bool" where
  "ct_eq_decides X \<longleftrightarrow> (\<forall>a b. ct_eq X a b \<longleftrightarrow> a = b)"

text \<open>
  The result of \<open>to_ascii\<close> with the STD3 deny list is made of lowercase ASCII letters, digits,
  hyphens and dots, and with a verified DNS length it is neither empty nor longer than
  253 octets (254 with a root dot).
\<close>

definition is_ldh :: "rchar \<Rightarrow> bool" where
  "is_ldh c \<longleftrightarrow> is_ascii_lower c \<or> is_ascii_digit c \<or> c = 45 \<or> c = 46"

definition to_ascii_ldh :: "crates \<Rightarrow> bool" where
  "to_ascii_ldh X \<longleftrightarrow> (\<forall>l d a. uts46_to_ascii X l d = Some a \<longrightarrow>
     a \<noteq> [] \<and> list_all is_ldh a \<and> length a \<le> 254)"

text \<open>A name \<open>to_ascii\<close> returned is a fixed point of it, and so of a second check.\<close>

definition to_ascii_idem :: "crates \<Rightarrow> bool" where
  "to_ascii_idem X \<longleftrightarrow> (\<forall>l d a. uts46_to_ascii X l d = Some a \<longrightarrow> uts46_to_ascii X l a = Some a)"

text \<open>A SHA-256 digest has 32 bytes.\<close>

definition sha256_len :: "crates \<Rightarrow> bool" where
  "sha256_len X \<longleftrightarrow> (\<forall>m. length (sha256 X m) = 32)"

lemma lower_asciiD: "lower_ascii X \<Longrightarrow> is_ascii s \<Longrightarrow> std_lower X s = to_ascii_lowercase s"
  by (simp add: lower_ascii_def)

lemma ct_eq_decidesD: "ct_eq_decides X \<Longrightarrow> ct_eq X a b \<longleftrightarrow> a = b"
  by (simp add: ct_eq_decides_def)

lemma to_ascii_ldhD:
  assumes "to_ascii_ldh X" "uts46_to_ascii X l d = Some a"
  shows "a \<noteq> []" "list_all is_ldh a" "length a \<le> 254" "is_ascii a"
  using assms
  by (auto simp: to_ascii_ldh_def is_ascii_def list_all_iff is_ldh_def ascii_defs) fastforce+

lemma to_ascii_idemD:
  "to_ascii_idem X \<Longrightarrow> uts46_to_ascii X l d = Some a \<Longrightarrow> uts46_to_ascii X l a = Some a"
  by (auto simp: to_ascii_idem_def)

subsection \<open>The ASCII instance\<close>

text \<open>
  A total instance for the witnesses.  \<open>to_ascii\<close> accepts the names made of letters, digits,
  hyphens and dots and lowercases them; the base64 engine is a table of one entry,
  \<open>YXBpOnQ=\<close> for \<open>api:t\<close>; the digest pads or cuts the message to 32 bytes.
\<close>

definition ascii_to_ascii :: "dns_length \<Rightarrow> rstr \<Rightarrow> rstr option" where
  "ascii_to_ascii l d =
     (let a = to_ascii_lowercase d
      in if a \<noteq> [] \<and> list_all is_ldh a \<and> length a \<le> 253 then Some a else None)"

definition ascii_crates :: crates where
  "ascii_crates = \<lparr>
     std_lower = to_ascii_lowercase,
     uts46_to_ascii = ascii_to_ascii,
     domain_to_unicode = (\<lambda>d. (d, True)),
     b64_decode_strict = (\<lambda>s. if s = lit ''YXBpOnQ='' then Some (blit ''api:t'') else None),
     sha256 = (\<lambda>m. take 32 (m @ replicate 32 0)),
     std_debug = (\<lambda>s. [34] @ s @ [34]),
     ct_eq = (\<lambda>a b. a = b)\<rparr>"

lemma lower_ascii_ascii_crates: "lower_ascii ascii_crates"
  by (simp add: lower_ascii_def ascii_crates_def)

lemma ct_eq_decides_ascii_crates: "ct_eq_decides ascii_crates"
  by (simp add: ct_eq_decides_def ascii_crates_def)

lemma to_ascii_ldh_ascii_crates: "to_ascii_ldh ascii_crates"
  by (auto simp: to_ascii_ldh_def ascii_crates_def ascii_to_ascii_def Let_def split: if_splits)

lemma to_ascii_idem_ascii_crates: "to_ascii_idem ascii_crates"
  by (auto simp: to_ascii_idem_def ascii_crates_def ascii_to_ascii_def Let_def split: if_splits)

lemma sha256_len_ascii_crates: "sha256_len ascii_crates"
  by (auto simp: sha256_len_def ascii_crates_def min_def)

lemmas ascii_crates_facts = lower_ascii_ascii_crates ct_eq_decides_ascii_crates
  to_ascii_ldh_ascii_crates to_ascii_idem_ascii_crates sha256_len_ascii_crates

end
