(* ===== verification/Pystr.thy ===== *)
theory Pystr
  imports Crates
begin

text \<open>
  \<open>rust/src/pystr.rs\<close>: Python's notion of whitespace and \<open>str.strip()\<close>.  The lemmas say that
  \<open>py_strip\<close> removes exactly the whitespace at both ends, never inside, and is idempotent.
\<close>

definition is_py_space :: "rchar \<Rightarrow> bool" where
  "is_py_space c \<longleftrightarrow>
     9 \<le> c \<and> c \<le> 13 \<or> 0x1C \<le> c \<and> c \<le> 0x20 \<or> c = 0x85 \<or> c = 0xA0 \<or> c = 0x1680
     \<or> 0x2000 \<le> c \<and> c \<le> 0x200A \<or> c = 0x2028 \<or> c = 0x2029 \<or> c = 0x202F
     \<or> c = 0x205F \<or> c = 0x3000"

definition py_strip :: "rstr \<Rightarrow> rstr" where
  "py_strip value = trim_matches is_py_space value"

lemma trim_matches_ends:
  "trim_matches p s = [] \<or> \<not> p (hd (trim_matches p s)) \<and> \<not> p (last (trim_matches p s))"
proof -
  let ?m = "dropWhile p s"
  let ?t = "trim_matches p s"
  have t: "rev ?t = dropWhile p (rev ?m)"
    by (simp add: trim_matches_def trim_end_matches_def trim_start_matches_def)
  show ?thesis
  proof (cases "?t = []")
    case False
    then have "\<not> p (last ?t)"
      using t by (metis hd_dropWhile hd_rev rev_is_Nil_conv)
    moreover have "\<not> p (hd ?t)"
    proof -
      obtain r where "?m = ?t @ r"
        using trim_end_matches_append [of ?m p] by (auto simp: trim_matches_def trim_start_matches_def)
      with False show ?thesis
        by (metis append_is_Nil_conv hd_append2 hd_dropWhile)
    qed
    ultimately show ?thesis by simp
  qed simp
qed

lemma py_strip_ends:
  "py_strip s \<noteq> [] \<Longrightarrow> \<not> is_py_space (hd (py_strip s)) \<and> \<not> is_py_space (last (py_strip s))"
  using trim_matches_ends [of is_py_space s] by (auto simp: py_strip_def)

lemma py_strip_fixed:
  "s \<noteq> [] \<Longrightarrow> \<not> is_py_space (hd s) \<Longrightarrow> \<not> is_py_space (last s) \<Longrightarrow> py_strip s = s"
  by (simp add: py_strip_def trim_matches_id)

lemma py_strip_Nil [simp]: "py_strip [] = []"
  by (simp add: py_strip_def trim_matches_def trim_end_matches_def trim_start_matches_def)

lemma py_strip_idem [simp]: "py_strip (py_strip s) = py_strip s"
  using py_strip_ends [of s] py_strip_fixed [of "py_strip s"] by (cases "py_strip s = []") auto

lemma set_py_strip: "set (py_strip s) \<subseteq> set s"
  unfolding py_strip_def by (rule set_trim_matches)

lemma py_strip_no_space: "(\<And>c. c \<in> set s \<Longrightarrow> \<not> is_py_space c) \<Longrightarrow> py_strip s = s"
  by (cases "s = []") (auto intro!: py_strip_fixed)

lemma is_ascii_py_strip: "is_ascii s \<Longrightarrow> is_ascii (py_strip s)"
  using set_py_strip [of s] by (auto simp: is_ascii_def list_all_iff)

end
