(* ===== verification/Domain.thy ===== *)
theory Domain
  imports Pystr
begin

text \<open>
  \<open>rust/src/domain.rs\<close>: the path domain of a request, the domain of an address and the domains
  and addresses of the configuration.  The locale \<open>canonical_names\<close> is what the callers rely
  on: a successful result is a lowercase A-label name that is a fixed point of the same
  function, so two names can be compared as strings.
\<close>

definition normalize_domain :: "crates \<Rightarrow> rstr \<Rightarrow> rstr + rstr" where
  "normalize_domain X value =
     (let lowered = std_lower X (py_strip value)
      in if lowered = [] then Err (lit ''empty domain'')
         else ok_or (lit ''invalid domain'') (uts46_to_ascii X VerifyAllowRootDot lowered))"

definition is_config_domain_char :: "rchar \<Rightarrow> bool" where
  "is_config_domain_char c \<longleftrightarrow>
     is_ascii_lower c \<or> is_ascii_digit c \<or> c = 45 \<or> c = 46
     \<or> 0xC0 \<le> c \<and> c \<le> 0xD6 \<or> 0xD8 \<le> c \<and> c \<le> 0xF6 \<or> 0xF8 \<le> c \<and> c \<le> 0x24F
     \<or> 0x250 \<le> c \<and> c \<le> 0x2AF \<or> 0x300 \<le> c \<and> c \<le> 0x36F \<or> 0x1E00 \<le> c \<and> c \<le> 0x1EFF"

definition is_combining_mark :: "rchar \<Rightarrow> bool" where
  "is_combining_mark c \<longleftrightarrow> 0x300 \<le> c \<and> c \<le> 0x36F"

definition outside_set :: rstr where
  "outside_set = lit ''domain contains characters outside the supported set (PLAN.md D-10)''"

definition normalize_config_domain :: "crates \<Rightarrow> rstr \<Rightarrow> rstr + rstr" where
  "normalize_config_domain X value =
     (if \<not> list_all is_config_domain_char (std_lower X (py_strip value)) then Err outside_set
      else and_then (normalize_domain X value) (\<lambda>ascii.
        (case domain_to_unicode X ascii of (unicode, ok) \<Rightarrow>
           if \<not> ok \<or> \<not> list_all is_config_domain_char unicode then Err outside_set
           else Ok ascii)))"

definition SPECIAL_USE :: "rstr list" where
  "SPECIAL_USE = map lit [''arpa'', ''invalid'', ''local'', ''localhost'', ''onion'']"

definition label_ok :: "rstr \<Rightarrow> bool" where
  "label_ok label \<longleftrightarrow> \<not> starts_with [45] label \<and> \<not> ends_with [45] label
     \<and> (if 4 \<le> length label then slice label 2 4 \<noteq> [45, 45] else True)"

definition is_special_use :: "rstr \<Rightarrow> bool" where
  "is_special_use ascii \<longleftrightarrow>
     list_ex (\<lambda>name. ascii = name \<or> ends_with (lit ''.'' @ name) ascii) SPECIAL_USE"

definition address_domain :: "crates \<Rightarrow> rstr \<Rightarrow> rstr option" where
  "address_domain X domain =
     (if domain = [] \<or> \<not> list_all is_config_domain_char (std_lower X domain) then None
      else if is_combining_mark (hd domain) then None
      else case uts46_to_ascii X Verify domain of
        None \<Rightarrow> None
      | Some ascii \<Rightarrow>
          if is_ascii domain \<and> ascii \<noteq> to_ascii_lowercase domain then None
          else (case domain_to_unicode X ascii of (unicode, ok) \<Rightarrow>
            if \<not> ok \<or> \<not> list_all is_config_domain_char unicode then None
            else
              (let labels_ok = list_all label_ok (split_at_char 46 unicode);
                   ends_with_letter = ascii \<noteq> [] \<and> is_ascii_alphabetic (last ascii);
                   special = is_special_use ascii;
                   dotted = 46 \<in> set ascii \<or> ascii = lit ''test''
               in if labels_ok \<and> ends_with_letter \<and> dotted \<and> \<not> special
                  then Some ascii else None)))"

definition normalize_config_address :: "crates \<Rightarrow> rstr \<Rightarrow> rstr + rstr" where
  "normalize_config_address X value =
     (case rsplit_once 64 (py_strip value) of
        None \<Rightarrow> Err (lit ''address missing '' @ [39, 64, 39])
      | Some (local, domain) \<Rightarrow>
          if local = [] then Err (lit ''address missing local part'')
          else if \<not> is_ascii local then
            Err (lit ''address has a non-ASCII local part, which never matches (PLAN.md D-17)'')
          else and_then (normalize_config_domain X domain)
            (\<lambda>d. Ok (to_ascii_lowercase local @ [64] @ d)))"

subsection \<open>Canonical names\<close>

locale canonical_names =
  fixes good :: "'x \<Rightarrow> bool" and canon :: "'x \<Rightarrow> rstr \<Rightarrow> rstr option"
  assumes canon_ldh: "good x \<Longrightarrow> canon x d = Some a \<Longrightarrow> a \<noteq> [] \<and> list_all is_ldh a"
    and canon_fixed: "good x \<Longrightarrow> canon x d = Some a \<Longrightarrow> canon x a = Some a"
begin

lemma canon_chars:
  "good x \<Longrightarrow> canon x d = Some a \<Longrightarrow> c \<in> set a \<Longrightarrow> 45 \<le> c \<and> c \<le> 122 \<and> c \<noteq> 64 \<and> \<not> is_ascii_upper c"
  by (drule (1) canon_ldh) (auto simp: list_all_iff is_ldh_def ascii_defs dest!: bspec)

lemma canon_ascii: "good x \<Longrightarrow> canon x d = Some a \<Longrightarrow> is_ascii a"
  using canon_chars by (fastforce simp: is_ascii_def list_all_iff is_ascii_char_def)

lemma canon_lower: "good x \<Longrightarrow> canon x d = Some a \<Longrightarrow> to_ascii_lowercase a = a"
  by (intro to_ascii_lowercase_id) (auto simp: list_ex_iff dest: canon_chars)

lemma canon_no_at: "good x \<Longrightarrow> canon x d = Some a \<Longrightarrow> 64 \<notin> set a"
  by (auto dest: canon_chars)

lemma canon_strip: "good x \<Longrightarrow> canon x d = Some a \<Longrightarrow> py_strip a = a"
  by (rule py_strip_no_space) (drule (2) canon_chars, auto simp: is_py_space_def)

text \<open>The results are exactly the fixed points.\<close>

lemma canon_image: "good x \<Longrightarrow> (\<exists>d. canon x d = Some a) \<longleftrightarrow> canon x a = Some a"
  using canon_fixed by blast

end

definition idna_ok :: "crates \<Rightarrow> bool" where
  "idna_ok X \<longleftrightarrow> lower_ascii X \<and> to_ascii_ldh X \<and> to_ascii_idem X"

lemma idna_ok_ascii_crates: "idna_ok ascii_crates"
  by (simp add: idna_ok_def ascii_crates_facts)

lemma ldh_config_char: "is_ldh c \<Longrightarrow> is_config_domain_char c"
  by (auto simp: is_ldh_def is_config_domain_char_def)

lemma ldh_not_upper: "list_all is_ldh a \<Longrightarrow> to_ascii_lowercase a = a"
  by (intro to_ascii_lowercase_id) (auto simp: list_ex_iff list_all_iff is_ldh_def ascii_defs)

lemma ldh_ascii: "list_all is_ldh a \<Longrightarrow> is_ascii a"
  by (auto simp: is_ascii_def list_all_iff is_ldh_def ascii_defs)

lemma ldh_strip: "list_all is_ldh a \<Longrightarrow> py_strip a = a"
  by (rule py_strip_no_space) (auto simp: list_all_iff is_ldh_def is_py_space_def ascii_defs)

lemma ldh_lower: "idna_ok X \<Longrightarrow> list_all is_ldh a \<Longrightarrow> std_lower X a = a"
  by (simp add: idna_ok_def lower_asciiD ldh_ascii ldh_not_upper)

lemma normalize_domain_Ok_iff:
  "normalize_domain X v = Ok a \<longleftrightarrow> std_lower X (py_strip v) \<noteq> []
     \<and> uts46_to_ascii X VerifyAllowRootDot (std_lower X (py_strip v)) = Some a"
  by (auto simp: normalize_domain_def Let_def result_simps)

lemma normalize_config_domain_Ok_iff:
  "normalize_config_domain X v = Ok a \<longleftrightarrow>
     list_all is_config_domain_char (std_lower X (py_strip v)) \<and> normalize_domain X v = Ok a
     \<and> snd (domain_to_unicode X a) \<and> list_all is_config_domain_char (fst (domain_to_unicode X a))"
  by (auto simp: normalize_config_domain_def result_simps case_prod_unfold split: if_splits)

lemma address_domain_Some_iff:
  "address_domain X d = Some a \<longleftrightarrow>
     d \<noteq> [] \<and> list_all is_config_domain_char (std_lower X d) \<and> \<not> is_combining_mark (hd d)
     \<and> uts46_to_ascii X Verify d = Some a \<and> (is_ascii d \<longrightarrow> a = to_ascii_lowercase d)
     \<and> snd (domain_to_unicode X a) \<and> list_all is_config_domain_char (fst (domain_to_unicode X a))
     \<and> list_all label_ok (split_at_char 46 (fst (domain_to_unicode X a)))
     \<and> a \<noteq> [] \<and> is_ascii_alphabetic (last a) \<and> (46 \<in> set a \<or> a = lit ''test'')
     \<and> \<not> is_special_use a"
  by (auto simp: address_domain_def Let_def case_prod_unfold split: option.splits if_splits)

lemma normalize_domain_ldh:
  "idna_ok X \<Longrightarrow> normalize_domain X v = Ok a \<Longrightarrow> a \<noteq> [] \<and> list_all is_ldh a"
  by (auto simp: normalize_domain_Ok_iff idna_ok_def dest: to_ascii_ldhD)

lemma normalize_domain_fixed:
  assumes "idna_ok X" "normalize_domain X v = Ok a"
  shows "normalize_domain X a = Ok a"
proof -
  have "std_lower X (py_strip a) = a" "a \<noteq> []"
    using normalize_domain_ldh [OF assms] assms(1) by (simp_all add: ldh_strip ldh_lower)
  moreover have "uts46_to_ascii X VerifyAllowRootDot a = Some a"
    using assms to_ascii_idemD by (auto simp: normalize_domain_Ok_iff idna_ok_def)
  ultimately show ?thesis by (simp add: normalize_domain_Ok_iff)
qed

lemma address_domain_ldh:
  "idna_ok X \<Longrightarrow> address_domain X d = Some a \<Longrightarrow> a \<noteq> [] \<and> list_all is_ldh a"
  by (auto simp: address_domain_Some_iff idna_ok_def dest: to_ascii_ldhD)

lemma ldh_not_combining: "list_all is_ldh a \<Longrightarrow> a \<noteq> [] \<Longrightarrow> \<not> is_combining_mark (hd a)"
  by (cases a) (auto simp: is_ldh_def is_combining_mark_def ascii_defs)

lemma address_domain_fixed:
  assumes "idna_ok X" "address_domain X d = Some a"
  shows "address_domain X a = Some a"
proof -
  have "list_all is_ldh a" "a \<noteq> []"
    using address_domain_ldh [OF assms] by simp_all
  moreover have "uts46_to_ascii X Verify a = Some a"
    using assms to_ascii_idemD by (auto simp: address_domain_Some_iff idna_ok_def)
  ultimately show ?thesis
    using assms unfolding address_domain_Some_iff
    by (auto simp: ldh_lower ldh_not_upper ldh_not_combining list_all_iff ldh_config_char)
qed

interpretation ad: canonical_names idna_ok address_domain
  by unfold_locales (auto dest: address_domain_ldh address_domain_fixed)

interpretation nd: canonical_names idna_ok "\<lambda>X d. to_option (normalize_domain X d)"
  by unfold_locales (auto simp: result_simps dest: normalize_domain_ldh normalize_domain_fixed)

lemma normalize_config_domain_fixed:
  assumes "idna_ok X" "normalize_config_domain X v = Ok a"
  shows "normalize_config_domain X a = Ok a"
proof -
  have n: "normalize_domain X v = Ok a"
    using assms by (simp add: normalize_config_domain_Ok_iff)
  then have "list_all is_ldh a" "normalize_domain X a = Ok a"
    using assms(1) normalize_domain_ldh normalize_domain_fixed by blast+
  with assms show ?thesis
    by (auto simp: normalize_config_domain_Ok_iff ldh_strip ldh_lower list_all_iff ldh_config_char)
qed

interpretation ncd: canonical_names idna_ok "\<lambda>X d. to_option (normalize_config_domain X d)"
  by unfold_locales
    (auto simp: result_simps normalize_config_domain_Ok_iff
      dest: normalize_domain_ldh normalize_config_domain_fixed)

subsection \<open>Properties of the domain checks\<close>

text \<open>The domain of an accepted address is a canonical host name: lowercase letters, digits,
  hyphens and dots, ending in a letter, with a dot (or the test name), outside the special-use
  names; checking it again returns the same name; an ASCII spelling is only changed in case.\<close>

lemma address_domain_canonical:
  assumes "idna_ok X" "address_domain X d = Some a"
  shows "list_all is_ldh a \<and> to_ascii_lowercase a = a \<and> is_ascii_lower (last a)
     \<and> (46 \<in> set a \<or> a = lit ''test'') \<and> \<not> is_special_use a \<and> address_domain X a = Some a
     \<and> (is_ascii d \<longrightarrow> a = to_ascii_lowercase d)"
proof -
  have a: "a \<noteq> []" "list_all is_ldh a" using ad.canon_ldh [OF assms] by simp_all
  then have "is_ldh (last a)" by (simp add: list_all_iff)
  moreover have "is_ascii_alphabetic (last a)" using assms(2) by (simp add: address_domain_Some_iff)
  ultimately have "is_ascii_lower (last a)" by (auto simp: is_ldh_def ascii_defs)
  with a assms show ?thesis
    using ad.canon_fixed [OF assms] ad.canon_lower [OF assms] by (simp add: address_domain_Some_iff)
qed

text \<open>The domains and addresses of the configuration are stored in a normal form that
  normalises to itself, so comparing stored strings compares names.\<close>

lemma config_names_canonical:
  assumes "idna_ok X" "normalize_config_domain X v = Ok a"
  shows "normalize_config_domain X a = Ok a \<and> normalize_domain X a = Ok a
     \<and> normalize_domain X v = Ok a \<and> list_all is_ldh a"
  using assms normalize_config_domain_fixed [OF assms]
  by (auto simp: normalize_config_domain_Ok_iff dest: normalize_domain_ldh)

end
