(* ===== verification/Headers.thy ===== *)
theory Headers
  imports Pystr
begin

text \<open>
  \<open>rust/src/headers.rs\<close>: the checks on the subject and on the \<open>h:*\<close> headers.  A value that passes
  holds no control character but TAB, so it cannot start a new header line; the locale
  \<open>control_free\<close> is that contract, shared with the address parsers.
\<close>

datatype header_error = Injection | TooLong | Dangerous

fun header_error_class :: "header_error \<Rightarrow> rstr" where
  "header_error_class Injection = lit ''HeaderInjectionError''"
| "header_error_class TooLong = lit ''HeaderTooLongError''"
| "header_error_class Dangerous = lit ''DangerousHeaderError''"

definition is_forbidden_control :: "rchar \<Rightarrow> bool" where
  "is_forbidden_control c \<longleftrightarrow>
     c \<le> 8 \<or> 10 \<le> c \<and> c \<le> 0x1F \<or> 0x7F \<le> c \<and> c \<le> 0x9F \<or> c = 0x2028 \<or> c = 0x2029"

definition contains_forbidden_control_chars :: "rstr \<Rightarrow> bool" where
  "contains_forbidden_control_chars value \<longleftrightarrow> list_ex is_forbidden_control value"

definition DANGEROUS :: "rstr list" where
  "DANGEROUS = map lit
    [''bcc'', ''received'', ''return-path'', ''message-id'', ''date'', ''from'', ''to'', ''cc'',
     ''subject'', ''sender'', ''mime-version'', ''content-type'', ''content-transfer-encoding'',
     ''content-disposition'', ''content-id'', ''disposition-notification-to'',
     ''return-receipt-to'']"

definition is_dangerous :: "crates \<Rightarrow> rstr \<Rightarrow> bool" where
  "is_dangerous X name =
     (let lowered = std_lower X name
      in lowered \<in> set DANGEROUS \<or> starts_with (lit ''resent-'') lowered)"

definition byte_is_ascii_alphabetic :: "u8 \<Rightarrow> bool" where
  "byte_is_ascii_alphabetic b = is_ascii_alphabetic (unat b)"

definition byte_is_ascii_alphanumeric :: "u8 \<Rightarrow> bool" where
  "byte_is_ascii_alphanumeric b = is_ascii_alphanumeric (unat b)"

definition is_header_name :: "rstr \<Rightarrow> bool" where
  "is_header_name name =
     (case utf8_encode name of
        [] \<Rightarrow> False
      | b # bs \<Rightarrow> byte_is_ascii_alphabetic b
          \<and> list_all (\<lambda>b. byte_is_ascii_alphanumeric b \<or> b = 45) bs)"

definition longer_than :: "rstr \<Rightarrow> int \<Rightarrow> bool" where
  "longer_than value limit =
     (if int (length value) \<le> i64_max then int (length value) > limit else True)"

definition validate_subject :: "rstr \<Rightarrow> int \<Rightarrow> header_error + rstr" where
  "validate_subject value max_length =
     (let stripped = py_strip value
      in if contains_forbidden_control_chars stripped then Err Injection
         else if longer_than stripped max_length then Err TooLong
         else Ok stripped)"

fun validate_custom_headers ::
  "crates \<Rightarrow> (rstr \<times> rstr) list \<Rightarrow> int \<Rightarrow> header_error + unit" where
  "validate_custom_headers X [] max_value_length = Ok ()"
| "validate_custom_headers X ((name, value) # headers) max_value_length =
     (if \<not> is_header_name name then Err Injection
      else if is_dangerous X name then Err Dangerous
      else if contains_forbidden_control_chars value then Err Injection
      else if longer_than value max_value_length then Err TooLong
      else validate_custom_headers X headers max_value_length)"

subsection \<open>The contract: no control characters\<close>

lemma contains_forbidden_append [simp]:
  "contains_forbidden_control_chars (a @ b) \<longleftrightarrow>
     contains_forbidden_control_chars a \<or> contains_forbidden_control_chars b"
  by (simp add: contains_forbidden_control_chars_def)

lemma contains_forbidden_Nil [simp]: "\<not> contains_forbidden_control_chars []"
  by (simp add: contains_forbidden_control_chars_def)

lemma contains_forbidden_Cons [simp]:
  "contains_forbidden_control_chars (c # s) \<longleftrightarrow>
     is_forbidden_control c \<or> contains_forbidden_control_chars s"
  by (simp add: contains_forbidden_control_chars_def)

locale control_free =
  fixes accepts :: "'p \<Rightarrow> rstr \<Rightarrow> bool"
  assumes accepts_clean: "accepts p v \<Longrightarrow> \<not> contains_forbidden_control_chars v"
begin

lemma no_line_break: "accepts p v \<Longrightarrow> CR \<notin> set v \<and> LF \<notin> set v \<and> 0 \<notin> set v"
  using accepts_clean [of p v]
  unfolding contains_forbidden_control_chars_def list_ex_iff
  by (force simp: is_forbidden_control_def)

lemma accepted_char: "accepts p v \<Longrightarrow> c \<in> set v \<Longrightarrow> c = 9 \<or> 32 \<le> c \<and> \<not> (0x7F \<le> c \<and> c \<le> 0x9F)"
proof -
  assume "accepts p v" and "c \<in> set v"
  then have "\<not> is_forbidden_control c"
    using accepts_clean [of p v] by (auto simp: contains_forbidden_control_chars_def list_ex_iff)
  then show ?thesis
    unfolding is_forbidden_control_def by linarith
qed

text \<open>A header line built from the value ends where its own CRLF is.\<close>

lemma one_line:
  "accepts p v \<Longrightarrow> CR \<notin> set name \<Longrightarrow> LF \<notin> set name \<Longrightarrow>
   split_once LF (name @ lit '': '' @ v @ [CR, LF]) = Some (name @ lit '': '' @ v @ [CR], [])"
  using no_line_break [of p v] by (simp add: split_once_Some_iff lit_def)

end

lemma set_dropWhile_forbidden:
  "\<not> contains_forbidden_control_chars v \<Longrightarrow> set w \<subseteq> set v \<Longrightarrow> \<not> contains_forbidden_control_chars w"
  by (auto simp: contains_forbidden_control_chars_def list_ex_iff)

lemma is_header_name_chars:
  "is_header_name name \<Longrightarrow> is_ascii name"
proof -
  have byte: "byte_is_ascii_alphabetic b \<or> byte_is_ascii_alphanumeric b \<or> b = 45 \<Longrightarrow> unat b < 128" for b
    by (auto simp: byte_is_ascii_alphabetic_def byte_is_ascii_alphanumeric_def ascii_defs)
  have big: "\<exists>b\<in>set (utf8_char c). 128 \<le> unat b" if "\<not> c < 128" for c
  proof -
    have "128 \<le> unat (of_nat (128 + c mod 64) :: u8)"
      by (simp add: unat_byte del: of_nat_add)
    moreover have "of_nat (128 + c mod 64) \<in> set (utf8_char c)"
      using that by (auto simp: utf8_char_def simp del: of_nat_add)
    ultimately show ?thesis by blast
  qed
  assume "is_header_name name"
  then have "\<forall>b\<in>set (utf8_encode name). unat b < 128"
    by (auto simp: is_header_name_def list_all_iff intro: byte split: list.splits)
  with big show "is_ascii name"
    by (fastforce simp: is_ascii_def list_all_iff is_ascii_char_def utf8_encode_def)
qed

lemma is_header_name_iff:
  "is_header_name name \<longleftrightarrow> (\<exists>c cs. name = c # cs \<and> is_ascii_alphabetic c
     \<and> (\<forall>x\<in>set cs. is_ascii_alphanumeric x \<or> x = 45))" (is "?L \<longleftrightarrow> ?R")
proof -
  have byte: "unat (of_nat c :: u8) = c" "(of_nat c :: u8) = 45 \<longleftrightarrow> c = 45" if "c < 128" for c
    using that by (simp_all add: unat_byte word_unat_eq_iff)
  have small: "is_ascii_alphanumeric x \<or> x = 45 \<Longrightarrow> x < 128" for x
    by (auto intro: is_ascii_alphanumericD)
  have ascii: "is_ascii name" if ?R
  proof -
    from that obtain c cs where "name = c # cs" "is_ascii_alphabetic c"
      "\<forall>x\<in>set cs. is_ascii_alphanumeric x \<or> x = 45" by blast
    then show ?thesis
      using small is_ascii_alphabeticD [of c] by (simp add: is_ascii_def list_all_iff is_ascii_char_def)
  qed
  show ?thesis
  proof (cases "is_ascii name")
    case True
    then have "utf8_encode name = map of_nat name" by (rule utf8_encode_ascii)
    with True byte show ?thesis
      by (cases name)
        (auto simp: is_header_name_def byte_is_ascii_alphabetic_def byte_is_ascii_alphanumeric_def
          list_all_iff is_ascii_def is_ascii_char_def)
  next
    case False
    then show ?thesis using ascii by (metis is_header_name_chars)
  qed
qed

subsection \<open>What an accepted header is\<close>

definition safe_header :: "crates \<Rightarrow> int \<Rightarrow> rstr \<times> rstr \<Rightarrow> bool" where
  "safe_header X limit h \<longleftrightarrow> is_header_name (fst h) \<and> \<not> is_dangerous X (fst h)
     \<and> \<not> contains_forbidden_control_chars (snd h) \<and> \<not> longer_than (snd h) limit"

lemma validate_custom_headers_Ok_iff:
  "validate_custom_headers X hs limit = Ok () \<longleftrightarrow> list_all (safe_header X limit) hs"
  by (induction X hs limit rule: validate_custom_headers.induct) (auto simp: safe_header_def)

lemma validate_custom_headers_first_error:
  "list_all (safe_header X limit) good \<Longrightarrow>
   validate_custom_headers X (good @ rest) limit = validate_custom_headers X rest limit"
  by (induction good) (auto simp: safe_header_def)

interpretation custom_value: control_free "\<lambda>p v. safe_header (fst p) (fst (snd p)) (snd (snd p), v)"
  by unfold_locales (simp add: safe_header_def)

interpretation subject_value: control_free "\<lambda>limit v. validate_subject w limit = Ok v"
  by unfold_locales (auto simp: validate_subject_def Let_def split: if_splits)

subsection \<open>Properties of the header checks\<close>

text \<open>An independent reader of a header block, as lenient as readers are: a line ends at whatever some
  reader takes for a line end (the ones of Python's \<open>str.splitlines\<close>), empty lines do not count, and
  a field is the text before the first colon and the text after it and a space.\<close>

definition is_line_end :: "rchar \<Rightarrow> bool" where
  "is_line_end c \<longleftrightarrow> c \<in> {10, 11, 12, 13, 28, 29, 30, 0x85, 0x2028, 0x2029}"

fun broken_lines :: "rstr \<Rightarrow> rstr list" where
  "broken_lines [] = []"
| "broken_lines (c # s) =
     (if is_line_end c then [] # broken_lines s
      else (case broken_lines s of [] \<Rightarrow> [[c]] | l # ls \<Rightarrow> (c # l) # ls))"

definition read_fields :: "rstr \<Rightarrow> (rstr \<times> rstr) option list" where
  "read_fields block =
     map (\<lambda>l. map_option (\<lambda>(name, rest). (name, drop 1 rest)) (split_once 58 l))
       (filter (\<lambda>l. l \<noteq> []) (broken_lines block))"

definition written_fields :: "(rstr \<times> rstr) list \<Rightarrow> rstr" where
  "written_fields hs = concat (map (\<lambda>(name, value). name @ lit '': '' @ value @ [CR, LF]) hs)"

text \<open>The fields the relay writes itself, and those that would change where a message goes.\<close>

definition RESERVED :: "string list" where
  "RESERVED = [''From'', ''To'', ''Cc'', ''Bcc'', ''Subject'', ''Date'', ''Message-ID'', ''Sender'',
     ''Received'', ''Return-Path'', ''MIME-Version'', ''Content-Type'', ''Content-Transfer-Encoding'',
     ''Content-Disposition'', ''Content-ID'', ''Disposition-Notification-To'', ''Return-Receipt-To'']"

lemma broken_lines_append:
  "\<forall>c \<in> set l. \<not> is_line_end c \<Longrightarrow> is_line_end e \<Longrightarrow> broken_lines (l @ e # rest) = l # broken_lines rest"
  by (induction l) auto

lemma read_written_field:
  assumes "\<forall>c \<in> set (name @ value). \<not> is_line_end c" "58 \<notin> set name"
  shows "read_fields (name @ lit '': '' @ value @ [CR, LF] @ rest) = Some (name, value) # read_fields rest"
proof -
  let ?l = "name @ lit '': '' @ value"
  have "\<forall>c \<in> set ?l. \<not> is_line_end c" using assms(1) by (auto simp: lit_def is_line_end_def)
  from broken_lines_append [OF this, of CR] broken_lines_append [of "[]" LF rest]
  have "broken_lines (?l @ CR # LF # rest) = ?l # [] # broken_lines rest" by (simp add: is_line_end_def)
  moreover have "split_once 58 ?l = Some (name, 32 # value)"
    using assms(2) by (simp add: split_once_Some_iff lit_def)
  moreover have "?l \<noteq> []" by (simp add: lit_def)
  ultimately show ?thesis by (simp add: read_fields_def)
qed

lemma line_end_forbidden: "is_line_end c \<Longrightarrow> is_forbidden_control c"
  by (auto simp: is_line_end_def is_forbidden_control_def)

lemma safe_header_reads_back:
  assumes "list_all (safe_header X limit) hs"
  shows "read_fields (written_fields hs) = map Some hs"
  using assms
proof (induction hs)
  case Nil
  then show ?case by (simp add: read_fields_def written_fields_def)
next
  case (Cons h hs)
  obtain name val where h: "h = (name, val)" by fastforce
  have safe: "safe_header X limit (name, val)" using Cons.prems h by simp
  then obtain c cs where n: "name = c # cs" "is_ascii_alphabetic c" "\<forall>x\<in>set cs. is_ascii_alphanumeric x \<or> x = 45"
    by (auto simp: safe_header_def is_header_name_iff)
  then have "\<not> is_line_end x \<and> x \<noteq> 58" if "x \<in> set name" for x
    using that by (auto simp: ascii_defs is_line_end_def)
  moreover have "\<not> is_line_end x" if "x \<in> set val" for x
    using safe that line_end_forbidden [of x]
    by (auto simp: safe_header_def contains_forbidden_control_chars_def list_ex_iff)
  ultimately have "read_fields (name @ lit '': '' @ val @ [CR, LF] @ written_fields hs) = Some (name, val) # read_fields (written_fields hs)"
    by (intro read_written_field) auto
  with Cons show ?case by (simp add: h written_fields_def)
qed

lemma dangerous_iff_reserved:
  assumes "lower_ascii X" "is_header_name name"
  shows "is_dangerous X name \<longleftrightarrow> (\<exists>r \<in> set RESERVED. eq_ignore_ascii_case name (lit r))
     \<or> eq_ignore_ascii_case (take 7 name) (lit ''Resent-'')"
proof -
  have "std_lower X name = to_ascii_lowercase name"
    using assms(1) is_header_name_chars [OF assms(2)] by (rule lower_asciiD)
  moreover have "set DANGEROUS = to_ascii_lowercase ` lit ` set RESERVED"
    by code_simp
  moreover have "to_ascii_lowercase (lit ''Resent-'') = lit ''resent-''" "length (lit ''resent-'') = 7"
    by code_simp+
  then have "starts_with (lit ''resent-'') (to_ascii_lowercase name)
      \<longleftrightarrow> to_ascii_lowercase (take 7 name) = to_ascii_lowercase (lit ''Resent-'')"
    by (simp add: starts_with_def to_ascii_lowercase_def take_map)
  ultimately show ?thesis
    by (auto simp: is_dangerous_def Let_def eq_ignore_ascii_case_def)
qed

text \<open>C31: header injection is impossible: custom headers are accepted exactly when each name is a letter
  followed by letters, digits and hyphens and, in any case, none of the fields the relay writes
  itself or that would redirect the message, and each value has no control character but TAB, no
  Unicode line end and at most the configured number of characters; and what is accepted and
  written as a header block is read back, even by the most lenient reader, as these very fields
  and no other.\<close>

theorem custom_headers_accepted_iff:
  assumes "in_i64 limit" "lower_ascii X"
  shows "(validate_custom_headers X hs limit = Ok () \<longleftrightarrow>
       list_all (\<lambda>(name, value).
         (\<exists>c cs. name = c # cs \<and> (65 \<le> c \<and> c \<le> 90 \<or> 97 \<le> c \<and> c \<le> 122)
            \<and> (\<forall>x \<in> set cs. 65 \<le> x \<and> x \<le> 90 \<or> 97 \<le> x \<and> x \<le> 122 \<or> 48 \<le> x \<and> x \<le> 57 \<or> x = 45))
         \<and> (\<forall>r \<in> set RESERVED. \<not> eq_ignore_ascii_case name (lit r))
         \<and> \<not> eq_ignore_ascii_case (take 7 name) (lit ''Resent-'')
         \<and> (\<forall>c \<in> set value. c = 9 \<or> 32 \<le> c \<and> c < 127 \<or> 160 \<le> c \<and> c \<noteq> 0x2028 \<and> c \<noteq> 0x2029)
         \<and> int (length value) \<le> limit) hs)
     \<and> (validate_custom_headers X hs limit = Ok () \<longrightarrow> read_fields (written_fields hs) = map Some hs)"
proof
  have name: "is_header_name name \<longleftrightarrow> (\<exists>c cs. name = c # cs \<and> (65 \<le> c \<and> c \<le> 90 \<or> 97 \<le> c \<and> c \<le> 122)
      \<and> (\<forall>x \<in> set cs. 65 \<le> x \<and> x \<le> 90 \<or> 97 \<le> x \<and> x \<le> 122 \<or> 48 \<le> x \<and> x \<le> 57 \<or> x = 45))" for name
    unfolding is_header_name_iff by (auto simp: ascii_defs)
  have control: "\<not> contains_forbidden_control_chars val \<longleftrightarrow>
      (\<forall>c \<in> set val. c = 9 \<or> 32 \<le> c \<and> c < 127 \<or> 160 \<le> c \<and> c \<noteq> 0x2028 \<and> c \<noteq> 0x2029)" for val
  proof -
    have "\<not> is_forbidden_control c \<longleftrightarrow> c = 9 \<or> 32 \<le> c \<and> c < 127 \<or> 160 \<le> c \<and> c \<noteq> 0x2028 \<and> c \<noteq> 0x2029" for c
      unfolding is_forbidden_control_def by linarith
    then show ?thesis by (auto simp: contains_forbidden_control_chars_def list_ex_iff)
  qed
  have long: "longer_than val limit \<longleftrightarrow> \<not> int (length val) \<le> limit" for val
    using assms(1) by (auto simp: longer_than_def in_i64_def)
  show "validate_custom_headers X hs limit = Ok () \<longleftrightarrow>
       list_all (\<lambda>(name, value).
         (\<exists>c cs. name = c # cs \<and> (65 \<le> c \<and> c \<le> 90 \<or> 97 \<le> c \<and> c \<le> 122)
            \<and> (\<forall>x \<in> set cs. 65 \<le> x \<and> x \<le> 90 \<or> 97 \<le> x \<and> x \<le> 122 \<or> 48 \<le> x \<and> x \<le> 57 \<or> x = 45))
         \<and> (\<forall>r \<in> set RESERVED. \<not> eq_ignore_ascii_case name (lit r))
         \<and> \<not> eq_ignore_ascii_case (take 7 name) (lit ''Resent-'')
         \<and> (\<forall>c \<in> set value. c = 9 \<or> 32 \<le> c \<and> c < 127 \<or> 160 \<le> c \<and> c \<noteq> 0x2028 \<and> c \<noteq> 0x2029)
         \<and> int (length value) \<le> limit) hs"
    unfolding validate_custom_headers_Ok_iff name [symmetric] control [symmetric]
    by (intro list.pred_cong refl) (auto simp: safe_header_def dangerous_iff_reserved [OF assms(2)] long)
  show "validate_custom_headers X hs limit = Ok () \<longrightarrow> read_fields (written_fields hs) = map Some hs"
    using safe_header_reads_back by (simp add: validate_custom_headers_Ok_iff)
qed

theorem custom_headers_accepted_iff_witness:
  "read_fields (written_fields [(lit ''X-Tag'', lit ''a'' @ [9] @ lit ''b: c'')]) = [Some (lit ''X-Tag'', lit ''a'' @ [9] @ lit ''b: c'')]"
proof -
  have "validate_custom_headers ascii_crates [(lit ''X-Tag'', lit ''a'' @ [9] @ lit ''b: c'')] 998 = Ok ()"
    by code_simp
  moreover have "in_i64 998" by (simp add: in_i64_def i64_min_def i64_max_def)
  ultimately show ?thesis
    using custom_headers_accepted_iff [OF _ lower_ascii_ascii_crates, of 998 "[(lit ''X-Tag'', lit ''a'' @ [9] @ lit ''b: c'')]"]
    by simp
qed

text \<open>Header injection is impossible: the line \<open>name: value\<close> written for an accepted header
  ends at its own line end, with no line break before it, and its name reads back.\<close>

lemma custom_header_one_line:
  assumes "validate_custom_headers X hs limit = Ok ()" "(name, value) \<in> set hs"
  shows "split_once LF (name @ lit '': '' @ value @ [CR, LF]) = Some (name @ lit '': '' @ value @ [CR], [])
     \<and> split_once 58 (name @ lit '': '' @ value) = Some (name, 32 # value)"
proof -
  have safe: "safe_header X limit (name, value)"
    using assms by (simp add: validate_custom_headers_Ok_iff list_all_iff)
  then obtain c cs where n: "name = c # cs" "is_ascii_alphabetic c"
    "\<forall>x\<in>set cs. is_ascii_alphanumeric x \<or> x = 45"
    by (auto simp: safe_header_def is_header_name_iff)
  then have no: "CR \<notin> set name" "LF \<notin> set name" "58 \<notin> set name"
    by (force simp: ascii_defs)+
  with safe have "split_once LF (name @ lit '': '' @ value @ [CR, LF])
      = Some (name @ lit '': '' @ value @ [CR], [])"
    using custom_value.one_line [of "(X, limit, name)" "value" name] by simp
  with no show ?thesis
    by (simp add: split_once_Some_iff lit_def)
qed

text \<open>An accepted subject is the stripped value: no whitespace at its ends, no control
  character but TAB, within the configured length, and checking it again changes nothing.\<close>

lemma subject_accepted:
  assumes "validate_subject v limit = Ok s"
  shows "s = py_strip v \<and> CR \<notin> set s \<and> LF \<notin> set s \<and> int (length s) \<le> limit
     \<and> validate_subject s limit = Ok s"
  using assms subject_value.no_line_break [of v limit s]
  by (auto simp: validate_subject_def Let_def longer_than_def not_less split: if_splits)

end
