(* ===== verification/Address.thy ===== *)
theory Address
  imports Domain Headers
begin

text \<open>
  \<open>rust/src/address.rs\<close>: one mailbox, a comma separated list of mailboxes, and a bare addr-spec.
  The parser's cursor \<open>chars[pos..]\<close> is modelled by the unread rest of the input, so every
  operation of \<open>Parser\<close> takes the rest and returns the rest after it.  The lemmas give the
  shape of an accepted address, the length bound, and the round trips with the forms the
  relay writes itself: the bare addr-spec and the quoted display name before \<open><addr>\<close>.
\<close>

record mailbox =
  display_name :: rstr
  mb_local :: rstr
  mb_domain :: rstr

datatype invalid_address = InvalidAddress

definition addr_spec :: "mailbox \<Rightarrow> rstr" where
  "addr_spec m = mb_local m @ [64] @ mb_domain m"

definition policy_address :: "mailbox \<Rightarrow> rstr" where
  "policy_address m = to_ascii_lowercase (mb_local m) @ [64] @ mb_domain m"

definition is_wsp :: "rchar \<Rightarrow> bool" where
  "is_wsp c \<longleftrightarrow> c = 32 \<or> c = 9"

definition is_word_char :: "rchar \<Rightarrow> bool" where
  "is_word_char c \<longleftrightarrow> \<not> is_wsp c \<and> c \<notin> set (lit ''()<>@,:;'' @ [34] @ lit ''[]'' @ [92])"

definition is_addr_char :: "rchar \<Rightarrow> bool" where
  "is_addr_char c \<longleftrightarrow> \<not> is_wsp c \<and> c \<notin> set (lit ''()<>,:;'' @ [34] @ lit ''[]'' @ [92])"

definition is_comment_char :: "rchar \<Rightarrow> bool" where
  "is_comment_char c \<longleftrightarrow> c \<notin> set (lit ''()'' @ [92, 34] @ lit '','')"

definition take_while :: "(rchar \<Rightarrow> bool) \<Rightarrow> rstr \<Rightarrow> rstr \<times> rstr" where
  "take_while accept rest = (takeWhile accept rest, dropWhile accept rest)"

subsection \<open>The cursor operations\<close>

function skip_cfws :: "rstr \<Rightarrow> rstr list \<Rightarrow> invalid_address + rstr \<times> rstr list" where
  "skip_cfws [] comments = Ok ([], comments)"
| "skip_cfws (c # rest) comments =
     (if is_wsp c then skip_cfws rest comments
      else if c = 40 then
        (case dropWhile is_comment_char rest of
           [] \<Rightarrow> Err InvalidAddress
         | d # rest' \<Rightarrow>
             if d = 41 then skip_cfws rest' (comments @ [takeWhile is_comment_char rest])
             else Err InvalidAddress)
      else Ok (c # rest, comments))"
  by pat_completeness auto
termination
proof (relation "measure (\<lambda>(s, _). length s)")
  fix c rest d rest' comments
  assume "dropWhile is_comment_char rest = (d :: nat) # rest'"
  then have "Suc (length rest') \<le> length rest"
    using length_dropWhile_le [of is_comment_char rest] by simp
  then show "((rest', comments @ [takeWhile is_comment_char rest]), c # rest, comments)
      \<in> measure (\<lambda>(s, _). length s)" by simp
qed auto

text \<open>The body of \<open>quoted\<close>, after the opening quote.\<close>

fun quoted_text :: "rstr \<Rightarrow> rstr \<Rightarrow> invalid_address + rstr \<times> rstr" where
  "quoted_text [] text = Err InvalidAddress"
| "quoted_text (c # rest) text =
     (if c = 34 then Ok (text, rest)
      else if c = 92 then
        (case rest of [] \<Rightarrow> Err InvalidAddress | d # rest' \<Rightarrow> quoted_text rest' (text @ [d]))
      else quoted_text rest (text @ [c]))"

definition quoted :: "rstr \<Rightarrow> invalid_address + rstr \<times> rstr" where
  "quoted s = quoted_text (tl s) []"

lemma skip_cfws_length: "skip_cfws s cs = Ok (r, cs') \<Longrightarrow> length r \<le> length s"
proof (induction s cs rule: skip_cfws.induct)
  case (2 c rest comments)
  show ?case
  proof (cases "is_wsp c \<or> c \<noteq> 40")
    case True
    with 2 show ?thesis by (auto split: if_splits)
  next
    case False
    with "2.prems" obtain d rest' where d: "dropWhile is_comment_char rest = d # rest'" "d = 41"
      and r: "skip_cfws rest' (comments @ [takeWhile is_comment_char rest]) = Ok (r, cs')"
      by (auto split: list.splits if_splits)
    have "length r \<le> length rest'" using "2.IH"(2) [of d rest'] False d r by auto
    moreover have "Suc (length rest') \<le> length rest"
      using d length_dropWhile_le [of is_comment_char rest] by simp
    ultimately show ?thesis by simp
  qed
qed simp

lemma quoted_text_length: "quoted_text s t = Ok (w, r) \<Longrightarrow> length r < length s"
proof (induction s t rule: quoted_text.induct)
  case (2 c rest t)
  then show ?case by (auto split: list.splits if_splits)
qed simp

lemma quoted_length: "s \<noteq> [] \<Longrightarrow> quoted s = Ok (w, r) \<Longrightarrow> length r < length s"
  by (cases s) (auto simp: quoted_def dest: quoted_text_length)

text \<open>The phrase before \<open><\<close>: quoted strings and words, with the comments between them.\<close>

function phrase ::
  "rstr \<Rightarrow> rstr list \<Rightarrow> rstr list \<Rightarrow> invalid_address + rstr \<times> rstr list \<times> rstr list" where
  "phrase s words comments =
     (case skip_cfws s comments of
        Inl e \<Rightarrow> Err e
      | Inr (r, comments') \<Rightarrow>
          (case r of
             [] \<Rightarrow> Err InvalidAddress
           | c # _ \<Rightarrow>
               if c = 34 then
                 (case quoted r of
                    Inl e \<Rightarrow> Err e
                  | Inr (w, r') \<Rightarrow> phrase r' (words @ [w]) comments')
               else if is_word_char c then
                 phrase (dropWhile is_word_char r) (words @ [takeWhile is_word_char r]) comments'
               else if c = 60 then Ok (r, words, comments')
               else Err InvalidAddress))"
  by pat_completeness auto
termination
proof (relation "measure (\<lambda>(s, _, _). length s)", goal_cases)
  case (2 s words comments b r comments' c t y w r')
  then show ?case
    using skip_cfws_length [of s comments r comments'] quoted_length [of r w r'] by simp
next
  case (3 s words comments b r comments' c t)
  then have "length (dropWhile is_word_char r) < length r"
    using length_dropWhile_le [of is_word_char t] by simp
  with 3 show ?case
    using skip_cfws_length [of s comments r comments'] by simp
qed auto

declare phrase.simps [simp del]

subsection \<open>Validation of an addr-spec\<close>

definition is_atext :: "rchar \<Rightarrow> bool" where
  "is_atext c \<longleftrightarrow> is_ascii_alphanumeric c
     \<or> c \<in> set (lit ''!#$%&'' @ [39] @ lit ''*+-/=?^_`{|}~'')"

definition CASE_INSENSITIVE_MAILBOX_NAMES :: "rstr list" where
  "CASE_INSENSITIVE_MAILBOX_NAMES = map lit
    [''info'', ''marketing'', ''sales'', ''support'', ''abuse'', ''noc'', ''security'',
     ''postmaster'', ''hostmaster'', ''usenet'', ''news'', ''webmaster'', ''www'', ''uucp'',
     ''ftp'']"

definition dot_atom :: "rstr \<Rightarrow> bool" where
  "dot_atom local \<longleftrightarrow> local \<noteq> []
     \<and> list_all (\<lambda>atom. atom \<noteq> [] \<and> list_all is_atext atom) (split_at_char 46 local)"

definition canonical_local :: "rstr \<Rightarrow> rstr" where
  "canonical_local local =
     (if to_ascii_lowercase local \<in> set CASE_INSENSITIVE_MAILBOX_NAMES
      then to_ascii_lowercase local else local)"

definition validate :: "crates \<Rightarrow> rstr \<Rightarrow> rstr \<Rightarrow> invalid_address + mailbox" where
  "validate X token name =
     (case split_once 64 token of
        None \<Rightarrow> Err InvalidAddress
      | Some (local, raw_domain) \<Rightarrow>
          if \<not> dot_atom local then Err InvalidAddress
          else (case address_domain X raw_domain of
            None \<Rightarrow> Err InvalidAddress
          | Some domain \<Rightarrow>
              (let unicode = fst (domain_to_unicode X domain);
                   longest = max (max (byte_len raw_domain) (byte_len unicode)) (byte_len domain)
               in if byte_len local + 1 + longest > 254 then Err InvalidAddress
                  else Ok \<lparr>display_name = name, mb_local = canonical_local local,
                            mb_domain = domain\<rparr>)))"

definition mailbox_of :: "crates \<Rightarrow> rstr \<Rightarrow> invalid_address + mailbox" where
  "mailbox_of X chars =
     and_then (skip_cfws chars []) (\<lambda>(start, comments).
       (case take_while is_addr_char start of (token, rest) \<Rightarrow>
          if 64 \<in> set token then
            and_then (skip_cfws rest comments) (\<lambda>(rest', comments').
              if rest' \<noteq> [] then Err InvalidAddress
              else validate X token (join [32] comments'))
          else
            and_then (phrase start [] comments) (\<lambda>(at, words, comments').
              (let name = join [32] words;
                   name' = (if comments' \<noteq> []
                            then name @ lit '' ('' @ join [32] comments' @ lit '')'' else name);
                   inner = snd (take_while is_wsp (tl at))
               in (case take_while is_addr_char inner of (token', rest) \<Rightarrow>
                     (case snd (take_while is_wsp rest) of
                        [] \<Rightarrow> Err InvalidAddress
                      | c # rest' \<Rightarrow>
                          if c \<noteq> 62 then Err InvalidAddress
                          else and_then (skip_cfws rest' []) (\<lambda>(rest'', _).
                            if rest'' \<noteq> [] then Err InvalidAddress
                            else validate X token' name')))))))"

definition parse_mailbox :: "crates \<Rightarrow> rstr \<Rightarrow> invalid_address + mailbox" where
  "parse_mailbox X value =
     (if contains_forbidden_control_chars value then Err InvalidAddress
      else mailbox_of X value)"

text \<open>
  The loop of \<open>parse_mailbox_list\<close>: \<open>segment\<close> is \<open>chars[start..i]\<close>, \<open>mailboxes\<close> what was pushed.
\<close>

fun mailbox_list_loop ::
  "crates \<Rightarrow> rstr \<Rightarrow> rstr \<Rightarrow> bool \<Rightarrow> bool \<Rightarrow> mailbox list \<Rightarrow> invalid_address + mailbox list" where
  "mailbox_list_loop X [] segment in_quotes escaped mailboxes =
     and_then (mailbox_of X segment) (\<lambda>m. Ok (mailboxes @ [m]))"
| "mailbox_list_loop X (c # rest) segment in_quotes escaped mailboxes =
     (if escaped then mailbox_list_loop X rest (segment @ [c]) in_quotes False mailboxes
      else if c = 92 \<and> in_quotes then
        mailbox_list_loop X rest (segment @ [c]) in_quotes True mailboxes
      else if c = 34 then
        mailbox_list_loop X rest (segment @ [c]) (\<not> in_quotes) escaped mailboxes
      else if c = 44 \<and> \<not> in_quotes then
        and_then (mailbox_of X segment)
          (\<lambda>m. mailbox_list_loop X rest [] in_quotes escaped (mailboxes @ [m]))
      else mailbox_list_loop X rest (segment @ [c]) in_quotes escaped mailboxes)"

definition parse_mailbox_list :: "crates \<Rightarrow> rstr \<Rightarrow> invalid_address + mailbox list" where
  "parse_mailbox_list X value =
     (if contains_forbidden_control_chars value then Err InvalidAddress
      else mailbox_list_loop X value [] False False [])"

definition parse_addr_spec :: "crates \<Rightarrow> rstr \<Rightarrow> invalid_address + mailbox" where
  "parse_addr_spec X value =
     (if \<not> list_all is_addr_char value then Err InvalidAddress else validate X value [])"

subsection \<open>Accepted addresses are well formed\<close>

definition wf_mailbox :: "crates \<Rightarrow> mailbox \<Rightarrow> bool" where
  "wf_mailbox X m \<longleftrightarrow> dot_atom (mb_local m) \<and> canonical_local (mb_local m) = mb_local m
     \<and> address_domain X (mb_domain m) = Some (mb_domain m)
     \<and> byte_len (mb_local m) + 1
       + max (byte_len (fst (domain_to_unicode X (mb_domain m)))) (byte_len (mb_domain m)) \<le> 254"

lemma is_atextD:
  "is_atext c \<Longrightarrow> is_addr_char c \<and> 32 < c \<and> c < 127 \<and> c \<noteq> 64 \<and> c \<noteq> 46"
  by (auto simp: is_atext_def is_addr_char_def is_wsp_def lit_def ascii_defs)

lemma is_ldh_addr_char: "is_ldh c \<Longrightarrow> is_addr_char c \<and> 32 < c \<and> c < 127"
  by (auto simp: is_ldh_def is_addr_char_def is_wsp_def lit_def ascii_defs)

lemma dot_atom_char:
  assumes "dot_atom l" "c \<in> set l"
  shows "is_atext c \<or> c = 46"
proof (cases "c = 46")
  case False
  then obtain piece where "piece \<in> set (split_at_char 46 l)" "c \<in> set piece"
    using split_by_covers [of c l "\<lambda>x. x = 46"] assms(2) by auto
  then show ?thesis using assms(1) by (auto simp: dot_atom_def list_all_iff)
qed simp

lemma dot_atom_addr_char: "dot_atom l \<Longrightarrow> c \<in> set l \<Longrightarrow> is_addr_char c \<and> 32 < c \<and> c < 127 \<and> c \<noteq> 64"
  using dot_atom_char [of l c] is_atextD [of c]
  by (auto simp: is_addr_char_def is_wsp_def lit_def)

lemma dot_atom_ascii: "dot_atom l \<Longrightarrow> is_ascii l"
  by (force simp: is_ascii_def list_all_iff is_ascii_char_def dest: dot_atom_addr_char)

lemma is_atext_lower: "is_atext c \<Longrightarrow> is_atext (to_ascii_lower_char c)"
  by (auto simp: to_ascii_lower_char_def is_atext_def ascii_defs)

lemma dot_atom_lower:
  assumes "dot_atom l"
  shows "dot_atom (to_ascii_lowercase l)"
proof -
  have "split_at_char 46 (to_ascii_lowercase l) = map to_ascii_lowercase (split_at_char 46 l)"
    unfolding to_ascii_lowercase_def
    by (rule split_by_map) (auto simp: to_ascii_lower_char_def is_ascii_upper_def)
  with assms show ?thesis
    by (auto simp: dot_atom_def list_all_iff to_ascii_lowercase_def is_atext_lower)
qed

lemma canonical_local_idem [simp]: "canonical_local (canonical_local l) = canonical_local l"
  by (simp add: canonical_local_def)

lemma dot_atom_canonical_local: "dot_atom l \<Longrightarrow> dot_atom (canonical_local l)"
  by (simp add: canonical_local_def dot_atom_lower)

lemma byte_len_canonical_local: "dot_atom l \<Longrightarrow> byte_len (canonical_local l) = byte_len l"
  by (simp add: canonical_local_def byte_len_ascii dot_atom_ascii)

lemma validate_Ok_iff:
  "validate X t n = Ok m \<longleftrightarrow> (\<exists>l rd d. split_once 64 t = Some (l, rd) \<and> dot_atom l
     \<and> address_domain X rd = Some d
     \<and> byte_len l + 1 + max (max (byte_len rd) (byte_len (fst (domain_to_unicode X d)))) (byte_len d)
        \<le> 254
     \<and> m = \<lparr>display_name = n, mb_local = canonical_local l, mb_domain = d\<rparr>)"
  by (auto simp: validate_def Let_def split: option.splits if_splits)

lemma validate_wf:
  assumes "idna_ok X" "validate X t n = Ok m"
  shows "wf_mailbox X m \<and> display_name m = n"
proof -
  from assms(2) obtain l rd d where *: "dot_atom l" "address_domain X rd = Some d"
    "byte_len l + 1 + max (max (byte_len rd) (byte_len (fst (domain_to_unicode X d)))) (byte_len d)
        \<le> 254"
    "m = \<lparr>display_name = n, mb_local = canonical_local l, mb_domain = d\<rparr>"
    unfolding validate_Ok_iff by blast
  moreover have "address_domain X d = Some d"
    using assms(1) *(2) by (rule ad.canon_fixed)
  ultimately show ?thesis
    by (auto simp: wf_mailbox_def dot_atom_canonical_local byte_len_canonical_local)
qed

lemma wf_mailbox_domain:
  "idna_ok X \<Longrightarrow> wf_mailbox X m \<Longrightarrow> mb_domain m \<noteq> [] \<and> list_all is_ldh (mb_domain m)"
  by (auto simp: wf_mailbox_def dest: ad.canon_ldh)

lemma addr_spec_char:
  assumes "idna_ok X" "wf_mailbox X m" "c \<in> set (addr_spec m)"
  shows "is_addr_char c \<and> 32 < c \<and> c < 127"
proof -
  consider "c \<in> set (mb_local m)" | "c = 64" | "c \<in> set (mb_domain m)"
    using assms(3) by (auto simp: addr_spec_def)
  then show ?thesis
  proof cases
    case 1
    with assms(2) show ?thesis by (auto simp: wf_mailbox_def dest: dot_atom_addr_char)
  next
    case 2
    then show ?thesis by (simp add: is_addr_char_def is_wsp_def lit_def)
  next
    case 3
    with wf_mailbox_domain [OF assms(1,2)] show ?thesis
      by (auto simp: list_all_iff dest: is_ldh_addr_char)
  qed
qed

lemma validate_addr_spec:
  assumes "idna_ok X" "wf_mailbox X m"
  shows "validate X (addr_spec m) n = Ok (m\<lparr>display_name := n\<rparr>)"
proof -
  have l: "dot_atom (mb_local m)" and d: "address_domain X (mb_domain m) = Some (mb_domain m)"
    using assms by (auto simp: wf_mailbox_def)
  have "64 \<notin> set (mb_local m)" using dot_atom_addr_char [OF l] by blast
  then have "split_once 64 (addr_spec m) = Some (mb_local m, mb_domain m)"
    by (simp add: split_once_Some_iff addr_spec_def)
  with assms l d show ?thesis
    unfolding validate_Ok_iff by (auto simp: wf_mailbox_def)
qed

lemma mailbox_of_validate:
  assumes "mailbox_of X v = Ok m"
  obtains t n where "validate X t n = Ok m"
  using assms
  by (auto simp: mailbox_of_def take_while_def result_simps Let_def split: if_splits list.splits)

lemma mailbox_of_wf: "idna_ok X \<Longrightarrow> mailbox_of X v = Ok m \<Longrightarrow> wf_mailbox X m"
  by (erule mailbox_of_validate) (auto dest: validate_wf)

lemma mailbox_list_loop_wf:
  "idna_ok X \<Longrightarrow> mailbox_list_loop X s seg q e acc = Ok ms \<Longrightarrow> \<forall>m\<in>set acc. wf_mailbox X m \<Longrightarrow>
   (\<forall>m\<in>set ms. wf_mailbox X m) \<and> ms \<noteq> []"
proof (induction X s seg q e acc rule: mailbox_list_loop.induct)
  case (1 X seg q e acc)
  then show ?case by (auto simp: result_simps dest: mailbox_of_wf)
next
  case (2 X c rest seg q e acc)
  then show ?case by (auto simp: result_simps dest: mailbox_of_wf split: if_splits)
qed

interpretation mailbox_value: control_free "\<lambda>X v. \<exists>m. parse_mailbox X v = Ok m"
  by unfold_locales (auto simp: parse_mailbox_def split: if_splits)

interpretation mailbox_list_value: control_free "\<lambda>X v. \<exists>ms. parse_mailbox_list X v = Ok ms"
  by unfold_locales (auto simp: parse_mailbox_list_def split: if_splits)

subsection \<open>Reading back what the relay writes\<close>

text \<open>A display name inside quotes: \<open>\\<close> and \<open>"\<close> are escaped by a backslash.\<close>

definition escape_char :: "rchar \<Rightarrow> rstr" where
  "escape_char c = (if c = 92 \<or> c = 34 then [92, c] else [c])"

definition quoted_name :: "rstr \<Rightarrow> rstr" where
  "quoted_name name = [34] @ concat (map escape_char name) @ [34]"

definition quoted_mailbox :: "mailbox \<Rightarrow> rstr" where
  "quoted_mailbox m = quoted_name (display_name m) @ lit '' <'' @ addr_spec m @ lit ''>''"

lemma quoted_text_escaped:
  "quoted_text (concat (map escape_char d) @ 34 # r) acc = Ok (acc @ d, r)"
  by (induction d arbitrary: acc) (auto simp: escape_char_def)

lemma skip_cfws_stop: "\<not> is_wsp c \<Longrightarrow> c \<noteq> 40 \<Longrightarrow> skip_cfws (c # r) cs = Ok (c # r, cs)"
  by simp

lemma mailbox_of_space: "mailbox_of X (32 # s) = mailbox_of X s"
  by (simp add: mailbox_of_def is_wsp_def)

lemma takeWhile_addr_spec:
  assumes "idna_ok X" "wf_mailbox X m"
  shows "takeWhile is_addr_char (addr_spec m @ 62 # r) = addr_spec m @ takeWhile is_addr_char (62 # r)"
    and "dropWhile is_addr_char (addr_spec m @ 62 # r) = dropWhile is_addr_char (62 # r)"
    and "takeWhile is_addr_char (addr_spec m) = addr_spec m"
    and "dropWhile is_addr_char (addr_spec m) = []"
  using addr_spec_char [OF assms] by (auto simp: takeWhile_append dropWhile_append)

lemma addr_spec_not_Nil: "addr_spec m \<noteq> []"
  by (simp add: addr_spec_def)

lemma addr_spec_hd:
  assumes "idna_ok X" "wf_mailbox X m"
  obtains c r where "addr_spec m = c # r" "\<not> is_wsp c" "c \<noteq> 40"
proof -
  obtain c r where c: "addr_spec m = c # r" by (cases "addr_spec m") (auto simp: addr_spec_not_Nil)
  then have "is_addr_char c" using addr_spec_char [OF assms, of c] by simp
  then have "\<not> is_wsp c" "c \<noteq> 40" by (auto simp: is_addr_char_def lit_def)
  with c show thesis by (rule that)
qed

lemma mailbox_of_addr_spec:
  assumes "idna_ok X" "wf_mailbox X m"
  shows "mailbox_of X (addr_spec m) = Ok (m\<lparr>display_name := []\<rparr>)"
proof -
  obtain c r where c: "addr_spec m = c # r" "\<not> is_wsp c" "c \<noteq> 40"
    by (rule addr_spec_hd [OF assms])
  then have "skip_cfws (addr_spec m) [] = Ok (addr_spec m, [])" by simp
  moreover have "64 \<in> set (addr_spec m)" by (simp add: addr_spec_def)
  ultimately show ?thesis
    by (simp add: mailbox_of_def take_while_def takeWhile_addr_spec [OF assms]
        validate_addr_spec [OF assms])
qed

text \<open>The part after the display name.\<close>

lemma phrase_quoted: "phrase (quoted_name d @ 32 # 60 # r) [] [] = Ok (60 # r, [d], [])"
proof -
  have "phrase (32 # 60 # r) [d] [] = Ok (60 # r, [d], [])"
    by (subst phrase.simps) (simp add: is_wsp_def is_word_char_def lit_def)
  then show ?thesis
    by (subst phrase.simps)
      (simp add: quoted_name_def is_wsp_def quoted_def quoted_text_escaped)
qed

lemma mailbox_of_quoted:
  assumes "idna_ok X" "wf_mailbox X m"
  shows "mailbox_of X (quoted_mailbox m) = Ok m"
proof -
  obtain c r where c: "addr_spec m = c # r" "\<not> is_wsp c" "c \<noteq> 40"
    by (rule addr_spec_hd [OF assms])
  have inner: "dropWhile is_wsp (addr_spec m @ [62]) = addr_spec m @ [62]"
    using c by simp
  have shape: "quoted_mailbox m = quoted_name (display_name m) @ 32 # 60 # addr_spec m @ [62]"
    by (simp add: quoted_mailbox_def lit_def)
  have skip: "skip_cfws (quoted_mailbox m) [] = Ok (quoted_mailbox m, [])"
    by (simp add: quoted_mailbox_def quoted_name_def is_wsp_def)
  have none: "takeWhile is_addr_char (quoted_mailbox m) = []"
    by (simp add: quoted_mailbox_def quoted_name_def is_addr_char_def lit_def)
  have stop: "\<not> is_addr_char 62" "\<not> is_wsp 62"
    by (simp_all add: is_addr_char_def is_wsp_def lit_def)
  have ph: "phrase (quoted_mailbox m) [] [] = Ok (60 # addr_spec m @ [62], [display_name m], [])"
    unfolding shape by (rule phrase_quoted)
  show ?thesis
    by (simp add: mailbox_of_def take_while_def skip none ph inner stop
        takeWhile_addr_spec [OF assms] validate_addr_spec [OF assms])
qed

text \<open>The list loop passes over a mailbox the relay wrote without splitting it.\<close>

lemma list_loop_escaped:
  "mailbox_list_loop X (concat (map escape_char d) @ r) seg True False acc
   = mailbox_list_loop X r (seg @ concat (map escape_char d)) True False acc"
  by (induction d arbitrary: seg) (auto simp: escape_char_def)

lemma list_loop_plain:
  "(\<And>c. c \<in> set s \<Longrightarrow> c \<noteq> 34 \<and> c \<noteq> 44) \<Longrightarrow>
   mailbox_list_loop X (s @ r) seg False False acc = mailbox_list_loop X r (seg @ s) False False acc"
  by (induction s arbitrary: seg) auto

lemma list_loop_quoted_mailbox:
  assumes "idna_ok X" "wf_mailbox X m"
  shows "mailbox_list_loop X (quoted_mailbox m @ r) seg False False acc
    = mailbox_list_loop X r (seg @ quoted_mailbox m) False False acc"
proof -
  have plain: "c \<noteq> 34 \<and> c \<noteq> 44" if "c \<in> set (lit '' <'' @ addr_spec m @ lit ''>'')" for c
    using that addr_spec_char [OF assms, of c] by (auto simp: is_addr_char_def lit_def)
  show ?thesis
    using list_loop_plain [OF plain, where X = X]
    by (simp add: quoted_mailbox_def quoted_name_def list_loop_escaped)
qed

lemma list_loop_roundtrip:
  assumes "idna_ok X" "\<forall>m\<in>set (m # ms). wf_mailbox X m" "pre = [] \<or> pre = [32]"
  shows "mailbox_list_loop X (join (lit '', '') (map quoted_mailbox (m # ms))) pre False False acc
    = Ok (acc @ m # ms)"
  using assms(2,3)
proof (induction ms arbitrary: m pre acc)
  case Nil
  then have "mailbox_of X (pre @ quoted_mailbox m) = Ok m"
    using mailbox_of_quoted [OF assms(1), of m] by (auto simp: mailbox_of_space)
  with Nil show ?case
    using list_loop_quoted_mailbox [OF assms(1), of m "[]"] by simp
next
  case (Cons n ns)
  then have m: "mailbox_of X (pre @ quoted_mailbox m) = Ok m"
    using mailbox_of_quoted [OF assms(1), of m] by (auto simp: mailbox_of_space)
  have "mailbox_list_loop X (join (lit '', '') (map quoted_mailbox (m # n # ns))) pre False False acc
    = mailbox_list_loop X (44 # 32 # join (lit '', '') (map quoted_mailbox (n # ns)))
        (pre @ quoted_mailbox m) False False acc"
    using list_loop_quoted_mailbox [OF assms(1), of m] Cons.prems by (simp add: lit_def)
  also have "\<dots> = mailbox_list_loop X (join (lit '', '') (map quoted_mailbox (n # ns))) [32]
      False False (acc @ [m])"
    by (simp add: m)
  also have "\<dots> = Ok ((acc @ [m]) @ n # ns)"
    by (rule Cons.IH) (use Cons.prems in auto)
  finally show ?case by simp
qed

lemma clean_addr_spec:
  assumes "idna_ok X" "wf_mailbox X m"
  shows "\<not> contains_forbidden_control_chars (addr_spec m)"
  using addr_spec_char [OF assms]
  by (fastforce simp: contains_forbidden_control_chars_def list_ex_iff is_forbidden_control_def)

lemma clean_quoted_mailbox:
  assumes "idna_ok X" "wf_mailbox X m" "\<not> contains_forbidden_control_chars (display_name m)"
  shows "\<not> contains_forbidden_control_chars (quoted_mailbox m)"
proof -
  have "\<not> contains_forbidden_control_chars (concat (map escape_char d))"
    if "\<not> contains_forbidden_control_chars d" for d
    using that by (induction d) (auto simp: escape_char_def is_forbidden_control_def)
  with assms(3) clean_addr_spec [OF assms(1,2)] show ?thesis
    by (simp add: quoted_mailbox_def quoted_name_def lit_def is_forbidden_control_def)
qed

lemma clean_join:
  "\<forall>x\<in>set xs. \<not> contains_forbidden_control_chars x \<Longrightarrow>
   \<not> contains_forbidden_control_chars (join (lit '', '') xs)"
proof (induction xs rule: induct_list012)
  case (3 x y zs)
  then show ?case by (simp add: lit_def is_forbidden_control_def)
qed simp_all

subsection \<open>Properties of the address parsers\<close>

text \<open>C29: an accepted \<open>from\<close> mailbox is a real address: its local part is a dot-atom, its domain
  a lowercase A-label name that the domain check maps to itself, the addr-spec is ASCII without
  spaces or control characters and at most 254 bytes long, and the value it came from holds no
  line break.\<close>

theorem parse_mailbox_sound:
  assumes "idna_ok X" "parse_mailbox X v = Ok m"
  shows "dot_atom (mb_local m) \<and> address_domain X (mb_domain m) = Some (mb_domain m)
     \<and> list_all is_ldh (mb_domain m) \<and> list_all (\<lambda>c. 32 < c \<and> c < 127) (addr_spec m)
     \<and> byte_len (addr_spec m) \<le> 254 \<and> CR \<notin> set v \<and> LF \<notin> set v"
proof -
  have wf: "wf_mailbox X m"
    using assms by (auto simp: parse_mailbox_def dest: mailbox_of_wf split: if_splits)
  moreover have "byte_len (addr_spec m) = byte_len (mb_local m) + 1 + byte_len (mb_domain m)"
    by (simp add: addr_spec_def utf8_char_def)
  ultimately show ?thesis
    using wf_mailbox_domain [OF assms(1) wf] addr_spec_char [OF assms(1) wf] assms(2)
      mailbox_value.no_line_break [of X v]
    by (auto simp: wf_mailbox_def list_all_iff)
qed

theorem parse_mailbox_sound_witness:
  "dot_atom (lit ''a.b'') \<and> address_domain ascii_crates (lit ''example.com'') = Some (lit ''example.com'')
     \<and> list_all is_ldh (lit ''example.com'')
     \<and> list_all (\<lambda>c. 32 < c \<and> c < 127)
         (addr_spec \<lparr>display_name = lit ''Ann'', mb_local = lit ''a.b'', mb_domain = lit ''example.com''\<rparr>)
     \<and> byte_len
         (addr_spec \<lparr>display_name = lit ''Ann'', mb_local = lit ''a.b'', mb_domain = lit ''example.com''\<rparr>)
         \<le> 254
     \<and> CR \<notin> set (lit ''Ann <a.b@EXAMPLE.com>'') \<and> LF \<notin> set (lit ''Ann <a.b@EXAMPLE.com>'')"
proof -
  have "parse_mailbox ascii_crates (lit ''Ann <a.b@EXAMPLE.com>'')
      = Ok \<lparr>display_name = lit ''Ann'', mb_local = lit ''a.b'', mb_domain = lit ''example.com''\<rparr>"
    by code_simp
  from parse_mailbox_sound [OF idna_ok_ascii_crates this] show ?thesis by simp
qed

text \<open>Reading an addr-spec back gives the same address, with \<open>parse_mailbox\<close> and with
  \<open>parse_addr_spec\<close>, for every mailbox the parser can have produced.\<close>

lemma addr_spec_roundtrip:
  assumes "idna_ok X" "wf_mailbox X m"
  shows "parse_mailbox X (addr_spec m) = Ok (m\<lparr>display_name := []\<rparr>)
     \<and> parse_addr_spec X (addr_spec m) = Ok (m\<lparr>display_name := []\<rparr>)"
  using mailbox_of_addr_spec [OF assms] clean_addr_spec [OF assms] validate_addr_spec [OF assms]
    addr_spec_char [OF assms]
  by (auto simp: parse_mailbox_def parse_addr_spec_def list_all_iff)

definition example_mailbox :: mailbox where
  "example_mailbox =
     \<lparr>display_name = lit ''Doe, J. '' @ [34], mb_local = lit ''j.doe'', mb_domain = lit ''example.com''\<rparr>"

lemma example_mailbox_wf: "wf_mailbox ascii_crates example_mailbox"
  by code_simp

text \<open>C30: a list of mailboxes written with quoted and escaped display names, joined by commas,
  parses back to the same list, commas and quotes inside display names included.\<close>

theorem mailbox_list_roundtrip:
  assumes "idna_ok X" "ms \<noteq> []"
    "\<And>m. m \<in> set ms \<Longrightarrow> wf_mailbox X m \<and> \<not> contains_forbidden_control_chars (display_name m)"
  shows "parse_mailbox_list X (join (lit '', '') (map quoted_mailbox ms)) = Ok ms"
proof -
  obtain m ns where ms: "ms = m # ns" using assms(2) by (cases ms) auto
  have "\<not> contains_forbidden_control_chars (join (lit '', '') (map quoted_mailbox ms))"
    by (rule clean_join) (use clean_quoted_mailbox [OF assms(1)] assms(3) in simp)
  with list_loop_roundtrip [OF assms(1), of m ns "[]" "[]"] assms(3) ms show ?thesis
    by (simp add: parse_mailbox_list_def)
qed

theorem mailbox_list_roundtrip_witness:
  "parse_mailbox_list ascii_crates
     (join (lit '', '') (map quoted_mailbox [example_mailbox, example_mailbox]))
   = Ok [example_mailbox, example_mailbox]"
proof (rule mailbox_list_roundtrip [OF idna_ok_ascii_crates])
  have "\<not> contains_forbidden_control_chars (display_name example_mailbox)" by code_simp
  then show "\<And>m. m \<in> set [example_mailbox, example_mailbox] \<Longrightarrow>
      wf_mailbox ascii_crates m \<and> \<not> contains_forbidden_control_chars (display_name m)"
    using example_mailbox_wf by auto
qed simp

end
