(* ===== verification/Token_Policy.thy ===== *)
theory Token_Policy
  imports Pystr
begin

text \<open>
  The token policy of \<open>rust/src/secrets.rs\<close>: what one service-issued token may do.  A
  \<open>BTreeSet<String>\<close> is a set of strings.
\<close>

record token_policy =
  label :: rstr
  token_sha256 :: rstr
  mailgun_domains :: "rstr set"
  allowed_from_domains :: "rstr set"
  allowed_from_addresses :: "rstr set option"

end
