(* ===== verification/Policy.thy ===== *)
theory Policy
  imports Address Token_Policy
begin

text \<open>
  \<open>rust/src/policy.rs\<close>: whether the token of a request may send for the path domain and from the
  \<open>from\<close> address.  The lemmas characterise acceptance and each refusal, and relate the address
  that is compared with \<open>allowed_from_addresses\<close> to the way the configuration normalises it.
\<close>

datatype policy_error = BadRequest | Forbidden rstr

definition py_repr :: "rstr \<Rightarrow> rstr" where
  "py_repr value = (if 39 \<in> set value then [34] @ value @ [34] else [39] @ value @ [39])"

definition forbidden :: "rstr \<Rightarrow> rstr \<Rightarrow> policy_error" where
  "forbidden what value =
     Forbidden (lit ''token not allowed for '' @ what @ [32] @ py_repr value)"

definition enforce_policy ::
  "crates \<Rightarrow> token_policy \<Rightarrow> rstr \<Rightarrow> rstr \<Rightarrow> policy_error + mailbox" where
  "enforce_policy X policy path_domain from_value =
     and_then (map_err (\<lambda>_. BadRequest) (normalize_domain X path_domain)) (\<lambda>path.
       if path \<notin> mailgun_domains policy then Err (forbidden (lit ''path domain'') path)
       else and_then (map_err (\<lambda>_. BadRequest) (parse_mailbox X from_value)) (\<lambda>m.
         if mb_domain m \<notin> allowed_from_domains policy
         then Err (forbidden (lit ''from domain'') (mb_domain m))
         else
           (let address = policy_address m
            in case allowed_from_addresses policy of
                 None \<Rightarrow> Ok m
               | Some allowed \<Rightarrow>
                   if address \<notin> allowed then Err (forbidden (lit ''from address'') address)
                   else Ok m)))"

subsection \<open>What the policy permits\<close>

definition permits :: "token_policy \<Rightarrow> rstr \<Rightarrow> mailbox \<Rightarrow> bool" where
  "permits policy path m \<longleftrightarrow> path \<in> mailgun_domains policy
     \<and> mb_domain m \<in> allowed_from_domains policy
     \<and> (\<forall>allowed. allowed_from_addresses policy = Some allowed \<longrightarrow> policy_address m \<in> allowed)"

lemma enforce_policy_Ok_iff:
  "enforce_policy X policy pd f = Ok m \<longleftrightarrow>
     (\<exists>path. normalize_domain X pd = Ok path \<and> parse_mailbox X f = Ok m \<and> permits policy path m)"
  by (auto simp: enforce_policy_def permits_def result_simps Let_def split: option.splits)

lemma py_repr_cases: "py_repr v = [34] @ v @ [34] \<or> py_repr v = [39] @ v @ [39] \<and> 39 \<notin> set v"
  by (simp add: py_repr_def)

text \<open>
  The address of a mailbox equals a configured one exactly when the local parts agree up to
  ASCII case and the domains are the same canonical name.
\<close>

lemma normalize_config_address_Ok_iff:
  "normalize_config_address X v = Ok a \<longleftrightarrow> (\<exists>l d n. py_strip v = l @ 64 # d \<and> 64 \<notin> set d
     \<and> l \<noteq> [] \<and> is_ascii l \<and> normalize_config_domain X d = Ok n
     \<and> a = to_ascii_lowercase l @ 64 # n)"
proof
  assume L: "normalize_config_address X v = Ok a"
  then obtain l d where s: "rsplit_once 64 (py_strip v) = Some (l, d)"
    by (auto simp: normalize_config_address_def split: option.splits)
  with L show "\<exists>l d n. py_strip v = l @ 64 # d \<and> 64 \<notin> set d
     \<and> l \<noteq> [] \<and> is_ascii l \<and> normalize_config_domain X d = Ok n
     \<and> a = to_ascii_lowercase l @ 64 # n"
    using s [unfolded rsplit_once_Some_iff]
    by (auto simp: normalize_config_address_def result_simps split: if_splits)
next
  assume "\<exists>l d n. py_strip v = l @ 64 # d \<and> 64 \<notin> set d
     \<and> l \<noteq> [] \<and> is_ascii l \<and> normalize_config_domain X d = Ok n
     \<and> a = to_ascii_lowercase l @ 64 # n"
  then obtain l d n where *: "py_strip v = l @ 64 # d" "64 \<notin> set d" "l \<noteq> []" "is_ascii l"
    "normalize_config_domain X d = Ok n" "a = to_ascii_lowercase l @ 64 # n" by blast
  then have "rsplit_once 64 (py_strip v) = Some (l, d)"
    by (simp add: rsplit_once_Some_iff)
  with * show "normalize_config_address X v = Ok a"
    by (simp add: normalize_config_address_def)
qed

lemma last_split_unique:
  assumes "a @ x # b = c @ x # d" "x \<notin> set b" "x \<notin> set d"
  shows "a = c \<and> b = d"
proof -
  have "rsplit_once x (a @ x # b) = Some (a, b)"
    using assms(2) unfolding rsplit_once_Some_iff by blast
  moreover have "rsplit_once x (a @ x # b) = Some (c, d)"
    unfolding assms(1) using assms(3) unfolding rsplit_once_Some_iff by blast
  ultimately show ?thesis by auto
qed

text \<open>An entry of the configuration, stored normalised as \<open>a\<close>, and the address of a mailbox.\<close>

lemma address_entry_matches:
  assumes "idna_ok X" "normalize_config_address X v = Ok a" "parse_mailbox X f = Ok m"
  shows "policy_address m = a \<longleftrightarrow> (\<exists>l d. py_strip v = l @ 64 # d \<and> 64 \<notin> set d
     \<and> eq_ignore_ascii_case l (mb_local m) \<and> normalize_config_domain X d = Ok (mb_domain m))"
proof -
  obtain l d n where v: "py_strip v = l @ 64 # d" "64 \<notin> set d" "normalize_config_domain X d = Ok n"
    "a = to_ascii_lowercase l @ 64 # n"
    using assms(2) unfolding normalize_config_address_Ok_iff by blast
  have wf: "wf_mailbox X m"
    using assms(1,3) by (auto simp: parse_mailbox_def dest: mailbox_of_wf split: if_splits)
  have "64 \<notin> set (mb_domain m)"
    using ad.canon_no_at [OF assms(1), of "mb_domain m" "mb_domain m"] wf
    by (simp add: wf_mailbox_def)
  moreover have "64 \<notin> set n"
    using ncd.canon_no_at [OF assms(1), of d n] v(3) by simp
  ultimately have eq: "policy_address m = a \<longleftrightarrow>
      to_ascii_lowercase (mb_local m) = to_ascii_lowercase l \<and> mb_domain m = n"
    unfolding v(4) policy_address_def by (auto dest: last_split_unique)
  show ?thesis
  proof
    assume "policy_address m = a"
    then show "\<exists>l d. py_strip v = l @ 64 # d \<and> 64 \<notin> set d
        \<and> eq_ignore_ascii_case l (mb_local m) \<and> normalize_config_domain X d = Ok (mb_domain m)"
      using v(1-3) eq by (intro exI [of _ l] exI [of _ d]) (simp add: eq_ignore_ascii_case_def)
  next
    assume "\<exists>l d. py_strip v = l @ 64 # d \<and> 64 \<notin> set d
        \<and> eq_ignore_ascii_case l (mb_local m) \<and> normalize_config_domain X d = Ok (mb_domain m)"
    then obtain l' d' where *: "py_strip v = l' @ 64 # d'" "64 \<notin> set d'"
      "eq_ignore_ascii_case l' (mb_local m)" "normalize_config_domain X d' = Ok (mb_domain m)"
      by blast
    then have "l' = l \<and> d' = d"
      using v(1,2) last_split_unique [of l' 64 d' l d] by simp
    with * v(3) show "policy_address m = a"
      unfolding eq by (simp add: eq_ignore_ascii_case_def)
  qed
qed

text \<open>The same, with the entry as it was written.\<close>

lemma address_entry_written:
  assumes "idna_ok X" "parse_mailbox X f = Ok m"
  shows "normalize_config_address X v = Ok (policy_address m) \<longleftrightarrow> (\<exists>l d. py_strip v = l @ 64 # d \<and> 64 \<notin> set d
     \<and> l \<noteq> [] \<and> is_ascii l \<and> eq_ignore_ascii_case l (mb_local m) \<and> normalize_config_domain X d = Ok (mb_domain m))"
proof
  assume "normalize_config_address X v = Ok (policy_address m)"
  with address_entry_matches [OF assms(1) this assms(2)] last_split_unique
  show "\<exists>l d. py_strip v = l @ 64 # d \<and> 64 \<notin> set d \<and> l \<noteq> [] \<and> is_ascii l
     \<and> eq_ignore_ascii_case l (mb_local m) \<and> normalize_config_domain X d = Ok (mb_domain m)"
    unfolding normalize_config_address_Ok_iff by metis
next
  assume "\<exists>l d. py_strip v = l @ 64 # d \<and> 64 \<notin> set d \<and> l \<noteq> [] \<and> is_ascii l
     \<and> eq_ignore_ascii_case l (mb_local m) \<and> normalize_config_domain X d = Ok (mb_domain m)"
  then obtain l d where "py_strip v = l @ 64 # d" "64 \<notin> set d" "l \<noteq> []" "is_ascii l"
    "eq_ignore_ascii_case l (mb_local m)" "normalize_config_domain X d = Ok (mb_domain m)" by blast
  then show "normalize_config_address X v = Ok (policy_address m)"
    unfolding normalize_config_address_Ok_iff
    by (intro exI [of _ l] exI [of _ d] exI [of _ "mb_domain m"])
      (simp add: policy_address_def eq_ignore_ascii_case_def)
qed

lemma enforce_policy_BadRequest_iff:
  "enforce_policy X policy pd f = Err BadRequest \<longleftrightarrow> (\<forall>n. normalize_domain X pd \<noteq> Ok n)
     \<or> (\<exists>n. normalize_domain X pd = Ok n \<and> n \<in> mailgun_domains policy) \<and> (\<forall>m. parse_mailbox X f \<noteq> Ok m)"
  by (cases "normalize_domain X pd"; cases "parse_mailbox X f")
    (auto simp: enforce_policy_def forbidden_def Let_def split: option.splits)

subsection \<open>Properties of the policy check\<close>

text \<open>The path domain is judged before the \<open>from\<close> value: a path domain outside the policy is
  answered 403 with the path message and one that is no domain 400, whatever \<open>from\<close> says, even
  where \<open>from\<close> is itself unparsable.\<close>

lemma enforce_policy_path_first:
  "(case normalize_domain X pd of
      Inl _ \<Rightarrow> enforce_policy X policy pd f = Err BadRequest
    | Inr path \<Rightarrow> path \<in> mailgun_domains policy
        \<or> enforce_policy X policy pd f = Err (Forbidden
            (lit ''token not allowed for path domain '' @ py_repr path)))"
  by (auto simp: enforce_policy_def forbidden_def lit_def split: sum.splits)

text \<open>C28: an \<open>allowed_from_addresses\<close> entry, stored normalised as \<open>a\<close>, matches the address of an
  accepted \<open>from\<close> mailbox exactly when the local parts agree up to ASCII case and the domain of
  the entry normalises to the mailbox's domain.\<close>

theorem configured_address_matches:
  assumes "idna_ok X" "normalize_config_address X v = Ok a" "parse_mailbox X f = Ok m"
  shows "policy_address m = a \<longleftrightarrow> (\<exists>l d. py_strip v = l @ 64 # d \<and> 64 \<notin> set d
     \<and> eq_ignore_ascii_case l (mb_local m) \<and> normalize_config_domain X d = Ok (mb_domain m))"
  by (rule address_entry_matches [OF assms])

theorem configured_address_matches_witness:
  "policy_address \<lparr>display_name = [], mb_local = lit ''App'', mb_domain = lit ''example.com''\<rparr>
     = lit ''app@example.com'' \<longleftrightarrow>
   (\<exists>l d. py_strip (lit '' APP@Example.com '') = l @ 64 # d \<and> 64 \<notin> set d
     \<and> eq_ignore_ascii_case l (lit ''App'')
     \<and> normalize_config_domain ascii_crates d = Ok (lit ''example.com''))"
proof -
  have "normalize_config_address ascii_crates (lit '' APP@Example.com '')
      = Ok (lit ''app@example.com'')"
    by code_simp
  moreover have "parse_mailbox ascii_crates (lit ''App@example.com'')
      = Ok \<lparr>display_name = [], mb_local = lit ''App'', mb_domain = lit ''example.com''\<rparr>"
    by code_simp
  ultimately show ?thesis
    using configured_address_matches [OF idna_ok_ascii_crates] by fastforce
qed

end
