(* ===== verification/Auth.thy ===== *)
theory Auth
  imports Token_Policy Headers
begin

text \<open>
  \<open>rust/src/auth.rs\<close>: HTTP Basic authentication against the configured token hashes.  The
  characterisation \<open>authenticate_iff\<close> says which header authenticates as which policy.
\<close>

datatype auth_error = AuthError

definition hex_char :: "nat \<Rightarrow> rchar" where
  "hex_char n = (if n < 10 then 48 + n else 87 + n)"

definition hex_lower :: "u8 list \<Rightarrow> rstr" where
  "hex_lower bytes = concat (map (\<lambda>b. [hex_char (unat b div 16), hex_char (unat b mod 16)]) bytes)"

text \<open>The loop over the policies: no early exit, the last match wins.\<close>

fun last_match :: "crates \<Rightarrow> rstr \<Rightarrow> token_policy option \<Rightarrow> token_policy list \<Rightarrow> token_policy option"
where
  "last_match X digest matched [] = matched"
| "last_match X digest matched (policy # policies) =
     (if ct_eq X (utf8_encode (token_sha256 policy)) (utf8_encode digest)
      then last_match X digest (Some policy) policies
      else last_match X digest matched policies)"

definition authenticate ::
  "crates \<Rightarrow> u8 list option \<Rightarrow> token_policy list \<Rightarrow> auth_error + token_policy" where
  "authenticate X authorization policies =
     and_then (ok_or AuthError authorization) (\<lambda>raw.
       (let header = latin1_chars raw
        in and_then (ok_or AuthError (strip_prefix (lit ''Basic '') header)) (\<lambda>rest.
          (let encoded = py_strip rest
           in and_then (ok_or AuthError (b64_decode_strict X encoded)) (\<lambda>bytes.
             and_then (ok_or AuthError (from_utf8 bytes)) (\<lambda>decoded.
               and_then (ok_or AuthError (split_once 58 decoded)) (\<lambda>(username, password).
                 (let username_ok = ct_eq X (utf8_encode username) (blit ''api'');
                      digest = hex_lower (sha256 X (utf8_encode password));
                      matched = last_match X digest None policies
                  in case matched of
                       Some policy \<Rightarrow> if username_ok then Ok policy else Err AuthError
                     | None \<Rightarrow> Err AuthError))))))))"

lemma hex_char_inj: "a < 16 \<Longrightarrow> b < 16 \<Longrightarrow> hex_char a = hex_char b \<Longrightarrow> a = b"
  by (auto simp: hex_char_def split: if_splits)

lemma unat_u8: "unat (b :: u8) < 256"
  using unsigned_less [of b] by simp

lemma hex_pair_inj:
  assumes "[hex_char (unat (x :: u8) div 16), hex_char (unat x mod 16)]
    = [hex_char (unat y div 16), hex_char (unat (y :: u8) mod 16)]"
  shows "x = y"
proof -
  have lt: "unat x div 16 < 16" "unat y div 16 < 16"
    using unat_u8 [of x] unat_u8 [of y] by (simp_all add: less_mult_imp_div_less)
  have "unat x div 16 = unat y div 16"
    by (rule hex_char_inj) (use assms lt in simp_all)
  moreover have "unat x mod 16 = unat y mod 16"
    by (rule hex_char_inj) (use assms in simp_all)
  ultimately have "unat x = unat y" by (metis div_mult_mod_eq)
  then show ?thesis by (simp add: word_unat_eq_iff)
qed

lemma hex_lower_inj: "hex_lower a = hex_lower b \<Longrightarrow> a = b"
proof (induction a arbitrary: b)
  case Nil
  then show ?case by (cases b) (auto simp: hex_lower_def)
next
  case (Cons x a)
  then obtain y b' where b: "b = y # b'" by (cases b) (auto simp: hex_lower_def)
  with Cons.prems have "x = y" by (simp add: hex_lower_def hex_pair_inj)
  with Cons b show ?case by (simp add: hex_lower_def)
qed

lemma hex_lower_ascii: "is_ascii (hex_lower bs)"
proof -
  have "hex_char n < 128" if "n < 16" for n using that by (simp add: hex_char_def)
  moreover have "unat b div 16 < 16" for b :: u8
    using unat_u8 [of b] by (simp add: less_mult_imp_div_less)
  ultimately show ?thesis
    by (auto simp: hex_lower_def is_ascii_def list_all_iff is_ascii_char_def)
qed

text \<open>The last policy whose hash is the digest, if any.\<close>

definition has_hash :: "rstr \<Rightarrow> token_policy \<Rightarrow> bool" where
  "has_hash digest p \<longleftrightarrow> utf8_encode (token_sha256 p) = utf8_encode digest"

lemma last_match_find:
  assumes "ct_eq_decides X"
  shows "last_match X h m ps = (case find (has_hash h) (rev ps) of Some p \<Rightarrow> Some p | None \<Rightarrow> m)"
proof (induction ps arbitrary: m)
  case (Cons q ps)
  have "last_match X h m (q # ps) = last_match X h (if has_hash h q then Some q else m) ps"
    by (simp add: ct_eq_decidesD [OF assms] has_hash_def)
  then show ?case
    by (auto simp: Cons.IH find_append split: option.splits)
qed simp

lemma last_match_None_Some_iff:
  assumes "ct_eq_decides X"
  shows "last_match X h None ps = Some p \<longleftrightarrow>
     (\<exists>pre post. ps = pre @ p # post \<and> has_hash h p \<and> (\<forall>q\<in>set post. \<not> has_hash h q))"
proof -
  have "last_match X h None ps = find (has_hash h) (rev ps)"
    by (simp add: last_match_find [OF assms] option.case_eq_if)
  then show ?thesis
    by (auto simp: find_rev_Some_iff)
qed

lemma authenticate_Ok_iff:
  assumes "ct_eq_decides X"
  shows "authenticate X authorization ps = Ok p \<longleftrightarrow> (\<exists>raw rest bytes password.
     authorization = Some raw \<and> latin1_chars raw = lit ''Basic '' @ rest
     \<and> b64_decode_strict X (py_strip rest) = Some bytes
     \<and> from_utf8 bytes = Some (lit ''api:'' @ password)
     \<and> last_match X (hex_lower (sha256 X (utf8_encode password))) None ps = Some p)"
    (is "?L \<longleftrightarrow> ?R")
proof
  assume ?L
  then obtain raw rest bytes decoded username password where *: "authorization = Some raw"
    "strip_prefix (lit ''Basic '') (latin1_chars raw) = Some rest"
    "b64_decode_strict X (py_strip rest) = Some bytes" "from_utf8 bytes = Some decoded"
    "split_once 58 decoded = Some (username, password)"
    "utf8_encode username = blit ''api''"
    "last_match X (hex_lower (sha256 X (utf8_encode password))) None ps = Some p"
    by (auto simp: authenticate_def Let_def result_simps ct_eq_decidesD [OF assms]
        split: option.splits if_splits)
  from * have d: "decoded = username @ 58 # password" by (simp add: split_once_Some_iff)
  have "valid_str username"
    using from_utf8_valid [OF *(4)] d by (simp add: valid_str_def)
  moreover have "valid_str (lit ''api'')" "utf8_encode (lit ''api'') = blit ''api''"
    by (simp_all add: valid_str_def lit_def blit_def is_scalar_def utf8_char_def)
  ultimately have "username = lit ''api''"
    using *(6) utf8_encode_inj by metis
  with d have "decoded = lit ''api:'' @ password" by (simp add: lit_def)
  with * show ?R by (auto simp: strip_prefix_Some_iff)
next
  assume ?R
  then obtain raw rest bytes password where *: "authorization = Some raw"
    "latin1_chars raw = lit ''Basic '' @ rest"
    "b64_decode_strict X (py_strip rest) = Some bytes"
    "from_utf8 bytes = Some (lit ''api:'' @ password)"
    "last_match X (hex_lower (sha256 X (utf8_encode password))) None ps = Some p" by blast
  have "split_once 58 (lit ''api:'' @ password) = Some (lit ''api'', password)"
    by (simp add: lit_def)
  moreover have "strip_prefix (lit ''Basic '') (latin1_chars raw) = Some rest"
    by (simp add: strip_prefix_Some_iff *)
  moreover have "utf8_encode (lit ''api'') = blit ''api''"
    by (simp add: lit_def blit_def utf8_char_def)
  ultimately show ?L
    by (simp add: authenticate_def * ct_eq_decidesD [OF assms])
qed

subsection \<open>Who authenticates\<close>

text \<open>C26: a request authenticates as the policy \<open>p\<close> exactly when its \<open>Authorization\<close> value is
  \<open>Basic \<close> followed by base64 text that decodes to UTF-8 \<open>api:<password>\<close>, and \<open>p\<close> is the last
  configured policy whose \<open>token_sha256\<close> is the lowercase hex SHA-256 of the password.\<close>

theorem authenticate_iff:
  assumes "ct_eq_decides X"
  shows "authenticate X authorization ps = Ok p \<longleftrightarrow> (\<exists>raw rest bytes password pre post.
     authorization = Some raw \<and> latin1_chars raw = lit ''Basic '' @ rest
     \<and> b64_decode_strict X (py_strip rest) = Some bytes
     \<and> from_utf8 bytes = Some (lit ''api:'' @ password)
     \<and> ps = pre @ p # post \<and> has_hash (hex_lower (sha256 X (utf8_encode password))) p
     \<and> list_all (\<lambda>q. \<not> has_hash (hex_lower (sha256 X (utf8_encode password))) q) post)"
  unfolding authenticate_Ok_iff [OF assms] last_match_None_Some_iff [OF assms] list_all_iff by blast

definition example_policy :: token_policy where
  "example_policy = \<lparr>label = lit ''svc'', token_sha256 = hex_lower (sha256 ascii_crates (blit ''t'')),
     mailgun_domains = {lit ''mg.example.com''}, allowed_from_domains = {lit ''example.com''},
     allowed_from_addresses = Some {lit ''app@example.com''}\<rparr>"

theorem authenticate_iff_witness:
  "(authenticate ascii_crates (Some (blit ''Basic YXBpOnQ='')) [example_policy] = Ok example_policy
     \<longleftrightarrow> (\<exists>raw rest bytes password pre post.
     Some (blit ''Basic YXBpOnQ='') = Some raw \<and> latin1_chars raw = lit ''Basic '' @ rest
     \<and> b64_decode_strict ascii_crates (py_strip rest) = Some bytes
     \<and> from_utf8 bytes = Some (lit ''api:'' @ password)
     \<and> [example_policy] = pre @ example_policy # post
     \<and> has_hash (hex_lower (sha256 ascii_crates (utf8_encode password))) example_policy
     \<and> list_all (\<lambda>q. \<not> has_hash (hex_lower (sha256 ascii_crates (utf8_encode password))) q) post))
   \<and> authenticate ascii_crates (Some (blit ''Basic YXBpOnQ='')) [example_policy] = Ok example_policy"
proof -
  have "authenticate ascii_crates (Some (blit ''Basic YXBpOnQ='')) [example_policy]
      = Ok example_policy"
    by code_simp
  then show ?thesis
    using authenticate_iff [OF ct_eq_decides_ascii_crates,
        of "Some (blit ''Basic YXBpOnQ='')" "[example_policy]" example_policy] by simp
qed

end
