(* ===== verification/Form_Types.thy ===== *)
theory Form_Types
  imports Pystr
begin

text \<open>
  The data of \<open>rust/src/form.rs\<close> and its \<open>Content-Type\<close> machinery: \<open>parseparam\<close> with Python's index
  semantics, \<open>options_header\<close>, \<open>param\<close> and \<open>encoding\<close>, which decides how a body is parsed.
  \<open>parseparam\<close> is two nested loops over signed indices; \<open>segment_stop\<close> is the inner one, and both
  are shown to end.
\<close>

datatype form_error = BadRequest | TooLarge

record upload =
  filename :: rstr
  up_content_type :: "rstr option"
  up_data :: "u8 list"

datatype form_value = Text rstr | File upload

type_synonym form_items = "(rstr \<times> form_value) list"

record limits =
  max_files :: int
  max_fields :: int
  max_part_size :: int

datatype charset = CharsetUtf8 | CharsetLatin1

datatype encoding = Urlencoded | Multipart "u8 list" charset | NoEncoding

definition MAX_BOUNDARY_LENGTH :: nat where "MAX_BOUNDARY_LENGTH = 256"
definition MAX_HEADER_COUNT :: nat where "MAX_HEADER_COUNT = 8"
definition MAX_HEADER_SIZE :: nat where "MAX_HEADER_SIZE = 4096 + 128"

definition latin1_bytes :: "rstr \<Rightarrow> u8 list" where
  "latin1_bytes t = map (\<lambda>c. if c < 256 then of_nat c else 63) t"

definition charset_of :: "rstr \<Rightarrow> charset option" where
  "charset_of name =
     (let lowered = to_ascii_lowercase name
      in if lowered \<in> set (map lit [''utf-8'', ''utf8'', ''utf_8'']) then Some CharsetUtf8
         else if lowered \<in> set (map lit [''latin-1'', ''latin1'', ''iso-8859-1'', ''iso8859-1'',
                    ''iso_8859_1'', ''l1'', ''ascii'', ''us-ascii'']) then Some CharsetLatin1
         else None)"

definition decode :: "u8 list \<Rightarrow> charset \<Rightarrow> rstr" where
  "decode bytes cs =
     (case cs of
        CharsetUtf8 \<Rightarrow> (case from_utf8 bytes of Some t \<Rightarrow> t | None \<Rightarrow> latin1_chars bytes)
      | CharsetLatin1 \<Rightarrow> latin1_chars bytes)"

text \<open>\<open>i64::try_from(len)\<close> fails above the range of \<open>i64\<close>.\<close>

definition exceeds :: "nat \<Rightarrow> int \<Rightarrow> bool" where
  "exceeds len limit = (if int len \<le> i64_max then int len > limit else True)"

subsection \<open>\<open>parseparam\<close>\<close>

text \<open>The closures \<open>clamp\<close>, \<open>find\<close>, \<open>count\<close> and \<open>segment\<close> over the chars \<open>s\<close>.\<close>

definition clamp :: "rstr \<Rightarrow> int \<Rightarrow> nat" where
  "clamp s i = nat (if i < 0 then max (i + int (length s)) 0 else min i (int (length s)))"

definition py_find :: "rstr \<Rightarrow> rchar \<Rightarrow> int \<Rightarrow> int \<Rightarrow> int" where
  "py_find s c start stop =
     (let a = clamp s start; b = clamp s stop
      in if a > b then - 1
         else (case position (\<lambda>x. x = c) (slice s a b) of None \<Rightarrow> - 1 | Some p \<Rightarrow> int (a + p)))"

function count_pattern :: "rstr \<Rightarrow> rstr \<Rightarrow> int" where
  "count_pattern pat s =
     (if pat = [] \<or> length s < length pat then 0
      else if take (length pat) s = pat then 1 + count_pattern pat (drop (length pat) s)
      else count_pattern pat (tl s))"
  by pat_completeness auto
termination
  by (relation "measure (\<lambda>(_, s). length s)")
    (auto simp: not_less Suc_le_eq intro: diff_less order_less_le_trans [of 0 "length _"])

declare count_pattern.simps [simp del]

definition py_count :: "rstr \<Rightarrow> rstr \<Rightarrow> int \<Rightarrow> int \<Rightarrow> int" where
  "py_count s pat start stop = count_pattern pat (slice s (clamp s start) (clamp s stop))"

definition segment :: "rstr \<Rightarrow> int \<Rightarrow> int \<Rightarrow> rstr" where
  "segment s a b = slice s (clamp s a) (max (clamp s b) (clamp s a))"

lemma py_find_cases:
  obtains "py_find s c i j = - 1"
  | "int (clamp s i) \<le> py_find s c i j" "py_find s c i j < int (clamp s j)"
    "s ! nat (py_find s c i j) = c"
proof (cases "clamp s i \<le> clamp s j")
  case False
  then show thesis by (intro that(1)) (simp add: py_find_def)
next
  case True
  show thesis
  proof (cases "position (\<lambda>x. x = c) (slice s (clamp s i) (clamp s j))")
    case None
    then show thesis by (intro that(1)) (simp add: py_find_def Let_def)
  next
    case (Some p)
    have le: "clamp s j \<le> length s" by (auto simp: clamp_def)
    from Some have p: "p < clamp s j - clamp s i" "slice s (clamp s i) (clamp s j) ! p = c"
      using True le by (auto simp: position_Some_iff)
    moreover have "slice s (clamp s i) (clamp s j) ! p = s ! (clamp s i + p)"
      using p(1) le by (simp add: slice_def)
    moreover have "py_find s c i j = int (clamp s i + p)"
      using Some True by (simp add: py_find_def)
    ultimately show thesis using True by (intro that(2)) (simp_all add: nat_add_distrib)
  qed
qed

text \<open>A found index lies behind the start, so it can only grow; \<open>0\<close> is what remains once it is gone.\<close>

definition ahead :: "rstr \<Rightarrow> int \<Rightarrow> nat" where
  "ahead s i = (if i \<le> 0 then 0 else Suc (nat (int (length s) - i)))"

lemma clamp_le: "clamp s i \<le> length s"
  by (auto simp: clamp_def)

lemma clamp_nonneg: "0 \<le> i \<Longrightarrow> i \<le> int (length s) \<Longrightarrow> int (clamp s i) = i"
  by (simp add: clamp_def)

lemma py_find_ahead: "0 < i \<Longrightarrow> ahead s (py_find s c (i + 1) j) < ahead s i"
proof (cases rule: py_find_cases [of s c "i + 1" j])
  case 2
  assume "0 < i"
  have "clamp s j \<le> length s" by (rule clamp_le)
  with 2 have "int (clamp s (i + 1)) < int (length s)" by linarith
  with \<open>0 < i\<close> have "int (clamp s (i + 1)) = i + 1" by (auto simp: clamp_def)
  with 2 \<open>0 < i\<close> \<open>clamp s j \<le> length s\<close> show ?thesis by (simp add: ahead_def)
qed (simp add: ahead_def)

function segment_stop :: "rstr \<Rightarrow> int \<Rightarrow> int \<Rightarrow> int \<Rightarrow> int" where
  "segment_stop s stop ind diff =
     (if stop > 0 then
        (let diff' = diff + py_count s [34] ind stop - py_count s [92, 34] ind stop
         in if diff' mod 2 = 0 then stop
            else segment_stop s ind (py_find s 59 (stop + 1) (int (length s))) diff')
      else stop)"
  by pat_completeness auto
termination
  by (relation "measure (\<lambda>(s, stop, ind, _). ahead s stop + ahead s ind)") (auto simp: py_find_ahead)

declare segment_stop.simps [simp del]

lemma py_find_from:
  assumes "0 \<le> i" "i \<le> int (length s)"
  shows "py_find s c i j = - 1 \<or> i \<le> py_find s c i j \<and> py_find s c i j < int (length s)"
proof (cases rule: py_find_cases [of s c i j])
  case 2
  then show ?thesis using clamp_nonneg [OF assms] clamp_le [of s j] by simp
qed simp

lemma py_find_beyond: "int (length s) < i \<Longrightarrow> py_find s c i (int (length s)) = - 1"
  by (simp add: py_find_def clamp_def slice_def)

lemma segment_stop_range:
  assumes "1 \<le> start" "stop = - 1 \<or> start \<le> stop" "ind = - 1 \<or> start \<le> ind"
  shows "segment_stop s stop ind diff = - 1 \<or> start \<le> segment_stop s stop ind diff"
  using assms
proof (induction s stop ind diff rule: segment_stop.induct)
  case (1 s stop ind diff)
  have nxt: "py_find s 59 (stop + 1) (int (length s)) = - 1
      \<or> start \<le> py_find s 59 (stop + 1) (int (length s))" if "start \<le> stop"
    using that 1(2) py_find_from [of "stop + 1" s 59 "int (length s)"]
      py_find_beyond [of s "stop + 1" 59] by linarith
  show ?case
  proof (cases "0 < stop")
    case True
    let ?d = "diff + py_count s [34] ind stop - py_count s [92, 34] ind stop"
    let ?n = "py_find s 59 (stop + 1) (int (length s))"
    have eq: "segment_stop s stop ind diff = (if ?d mod 2 = 0 then stop else segment_stop s ind ?n ?d)"
      using True by (simp only: segment_stop.simps [of s stop ind diff] Let_def if_True)
    have s: "start \<le> stop" using True 1(3) by linarith
    show ?thesis
    proof (cases "?d mod 2 = 0")
      case False
      show ?thesis
        unfolding eq if_not_P [OF False]
        by (rule 1(1) [OF True refl False]) (use 1(2,4) nxt [OF s] in auto)
    qed (simp only: eq if_True s simp_thms)
  next
    case False
    with 1 show ?thesis by (subst segment_stop.simps) auto
  qed
qed

lemma py_find_here: "py_find s c (int i) (int (length s)) = int i \<Longrightarrow> i < length s"
  by (rule ccontr) (simp add: py_find_def clamp_def slice_def)

text \<open>One round of the outer loop: the segment and the position after it.\<close>

definition param_segment :: "crates \<Rightarrow> rstr \<Rightarrow> nat \<Rightarrow> rstr \<times> nat" where
  "param_segment X s start =
     (let n = int (length s);
          stop = segment_stop s (py_find s 59 (int start) n) (int start) 0;
          stop' = (if stop < 0 then n else stop);
          i = py_find s 61 (int start) stop';
          f = (if i = - 1 then segment s (int start) stop'
               else
                 (let key = segment s (int start) i; val = segment s (i + 1) stop'
                  in std_lower X (trim_end_matches is_py_space key) @ [61]
                     @ trim_start_matches is_py_space val))
      in (py_strip f, nat stop'))"

lemma param_segment_advances:
  assumes "start < length s"
  shows "start < snd (param_segment X s (Suc start))"
proof -
  have "py_find s 59 (int (Suc start)) (int (length s)) = - 1
      \<or> int (Suc start) \<le> py_find s 59 (int (Suc start)) (int (length s))"
    using py_find_from [of "int (Suc start)" s 59 "int (length s)"] assms by auto
  then have "segment_stop s (py_find s 59 (int (Suc start)) (int (length s))) (int (Suc start)) 0 = - 1
    \<or> int (Suc start) \<le> segment_stop s (py_find s 59 (int (Suc start)) (int (length s))) (int (Suc start)) 0"
    by (intro segment_stop_range) auto
  with assms show ?thesis
    by (auto simp: param_segment_def Let_def)
qed

function parseparam_loop :: "crates \<Rightarrow> rstr \<Rightarrow> nat \<Rightarrow> rstr list" where
  "parseparam_loop X s start =
     (if py_find s 59 (int start) (int (length s)) = int start then
        (case param_segment X s (Suc start) of (f, stop) \<Rightarrow> f # parseparam_loop X s stop)
      else [])"
  by pat_completeness auto
termination
  apply (relation "measure (\<lambda>(X, s, start). length s - start)")
   apply simp
  subgoal premises prems for X s start
    using param_segment_advances [OF py_find_here [OF prems(1)], of X]
      py_find_here [OF prems(1)]
    unfolding prems(2) [symmetric] by simp
  done

declare parseparam_loop.simps [simp del]

definition parseparam :: "crates \<Rightarrow> rstr \<Rightarrow> rstr list" where
  "parseparam X t = parseparam_loop X (59 # t) 0"

subsection \<open>Header options\<close>

definition unquoted_param :: "rstr \<Rightarrow> rstr" where
  "unquoted_param v =
     (if 2 \<le> length v \<and> hd v = 34 \<and> last v = 34
      then replace_all [92, 34] [34] (replace_all [92, 92] [92] (slice v 1 (length v - 1)))
      else v)"

definition ie6_path :: "rstr \<Rightarrow> rstr \<Rightarrow> rstr" where
  "ie6_path key v =
     (if key = lit ''filename''
         \<and> (3 \<le> length v \<and> slice v 1 3 = [58, 92] \<or> starts_with [92, 92] v)
      then last (split_at_char 92 v) else v)"

fun header_params :: "rstr list \<Rightarrow> (rstr \<times> rstr) list" where
  "header_params [] = []"
| "header_params (seg # segs) =
     (case (case split_once 61 seg of Some kv \<Rightarrow> kv | None \<Rightarrow> (seg, [])) of (key, v) \<Rightarrow>
        if 42 \<in> set key then header_params segs
        else (key, ie6_path key (unquoted_param v)) # header_params segs)"

definition options_header :: "crates \<Rightarrow> rstr option \<Rightarrow> rstr \<times> (rstr \<times> rstr) list" where
  "options_header X header =
     (case header of
        None \<Rightarrow> ([], [])
      | Some v \<Rightarrow>
          if v = [] then ([], [])
          else if 59 \<notin> set v then (py_strip (std_lower X v), [])
          else (case parseparam X v of
                  [] \<Rightarrow> ([], [])
                | essence # segments \<Rightarrow> (essence, header_params segments)))"

text \<open>The last parameter of a name wins.\<close>

definition param :: "(rstr \<times> rstr) list \<Rightarrow> rstr \<Rightarrow> rstr option" where
  "param ps key = map_option snd (find (\<lambda>(k, _). k = key) (rev ps))"

definition encoding_of :: "crates \<Rightarrow> u8 list option \<Rightarrow> form_error + encoding" where
  "encoding_of X content_type =
     (case options_header X (map_option latin1_chars content_type) of (essence, params) \<Rightarrow>
        if essence = lit ''application/x-www-form-urlencoded'' then Ok Urlencoded
        else if essence = lit ''multipart/form-data'' then
          and_then (case param params (lit ''charset'') of
                      None \<Rightarrow> Ok CharsetUtf8
                    | Some name \<Rightarrow> ok_or BadRequest (charset_of name)) (\<lambda>cs.
          and_then (ok_or BadRequest (param params (lit ''boundary''))) (\<lambda>b.
            (let boundary = latin1_bytes b
             in if length boundary > MAX_BOUNDARY_LENGTH then Err BadRequest
                else Ok (Multipart boundary cs))))
        else Ok NoEncoding)"

end
