(* ===== verification/Form_Url.thy ===== *)
theory Form_Url
  imports Form_Types
begin

text \<open>
  The urlencoded half of \<open>rust/src/form.rs\<close>: \<open>unquote_plus\<close> and \<open>urlencoded\<close>.  The specification
  is the encoder of a browser or of \<open>urllib.parse.urlencode\<close> (\<open>quote_plus\<close>, \<open>urlencode\<close>):
  decoding what it writes gives the fields back.
\<close>

definition hex_byte :: "u8 list \<Rightarrow> nat \<Rightarrow> nat option" where
  "hex_byte piece i = (case get_at piece i of None \<Rightarrow> None | Some b \<Rightarrow> hex_digit (unat b))"

definition unquote_bit :: "u8 list \<Rightarrow> u8 list" where
  "unquote_bit piece =
     (case hex_byte piece 0 of
        Some high \<Rightarrow>
          (case hex_byte piece 1 of
             Some low \<Rightarrow> of_nat (high * 16 + low) # drop 2 piece
           | None \<Rightarrow> 37 # piece)
      | None \<Rightarrow> 37 # piece)"

definition unquote_to_bytes :: "rstr \<Rightarrow> u8 list" where
  "unquote_to_bytes ascii =
     (case split_by (\<lambda>b. b = 37) (utf8_encode ascii) of
        [] \<Rightarrow> []
      | first # bits \<Rightarrow> first @ concat (map unquote_bit bits))"

lemma drop_runs_length:
  assumes "s \<noteq> []"
  shows "length (dropWhile (\<lambda>c. \<not> is_ascii_char c) (dropWhile is_ascii_char s)) < length s"
proof -
  obtain c r where s: "s = c # r" using assms by (cases s) auto
  show ?thesis
  proof (cases "is_ascii_char c")
    case True
    have "length (dropWhile (\<lambda>c. \<not> is_ascii_char c) (dropWhile is_ascii_char r)) \<le> length r"
      by (meson le_trans length_dropWhile_le)
    with s True show ?thesis by simp
  next
    case False
    have "length (dropWhile (\<lambda>c. \<not> is_ascii_char c) r) \<le> length r"
      by (rule length_dropWhile_le)
    with s False show ?thesis by simp
  qed
qed

text \<open>The loop of \<open>unquote_plus\<close>: a run of ASCII is decoded, a run of other chars is kept.\<close>

function unquote_runs :: "rstr \<Rightarrow> rstr" where
  "unquote_runs rest =
     (if rest = [] then []
      else
        (let ascii = takeWhile is_ascii_char rest;
             rest' = dropWhile is_ascii_char rest;
             other = takeWhile (\<lambda>c. \<not> is_ascii_char c) rest'
         in from_utf8_lossy (unquote_to_bytes ascii) @ other
            @ unquote_runs (dropWhile (\<lambda>c. \<not> is_ascii_char c) rest')))"
  by pat_completeness auto
termination
  by (relation "measure length") (simp_all add: drop_runs_length)

declare unquote_runs.simps [simp del]

definition unquote_plus :: "rstr \<Rightarrow> rstr" where
  "unquote_plus t =
     (let text' = map (\<lambda>c. if c = 43 then 32 else c) t
      in if 37 \<notin> set text' then text' else unquote_runs text')"

text \<open>The loop over the fields, \<open>items\<close> being what was pushed.\<close>

fun urlencoded_fields ::
  "limits \<Rightarrow> u8 list list \<Rightarrow> form_items \<Rightarrow> form_error + form_items" where
  "urlencoded_fields limits [] items = Ok items"
| "urlencoded_fields limits (field # more_fields) items =
     (case (case position (\<lambda>b. b = 61) field of
              Some eq \<Rightarrow> (take eq field, drop (eq + 1) field)
            | None \<Rightarrow> (field, [])) of
        (name, val) \<Rightarrow>
          if name \<noteq> [] \<and> exceeds (length name) (max_part_size limits)
             \<or> val \<noteq> [] \<and> exceeds (length name + length val) (max_part_size limits)
          then Err TooLarge
          else if exceeds (length items + 1) (max_fields limits) then Err TooLarge
          else urlencoded_fields limits more_fields
                 (items @ [(unquote_plus (latin1_chars name), Text (unquote_plus (latin1_chars val)))]))"

definition urlencoded :: "u8 list \<Rightarrow> limits \<Rightarrow> form_error + form_items" where
  "urlencoded body limits =
     urlencoded_fields limits (filter (\<lambda>f. f \<noteq> []) (split_by (\<lambda>b. b = 38) body)) []"

subsection \<open>The encoder\<close>

definition hex_upper_char :: "nat \<Rightarrow> u8" where
  "hex_upper_char n = of_nat (if n < 10 then 48 + n else 55 + n)"

definition unreserved :: "u8 \<Rightarrow> bool" where
  "unreserved b \<longleftrightarrow> is_ascii_alphanumeric (unat b) \<or> b \<in> {45, 46, 95, 126}"

definition quote_byte :: "u8 \<Rightarrow> u8 list" where
  "quote_byte b =
     (if unreserved b then [b] else if b = 32 then [43]
      else [37, hex_upper_char (unat b div 16), hex_upper_char (unat b mod 16)])"

definition quote_plus :: "rstr \<Rightarrow> u8 list" where
  "quote_plus s = concat (map quote_byte (utf8_encode s))"

definition urlencode :: "(rstr \<times> rstr) list \<Rightarrow> u8 list" where
  "urlencode kvs = join [38] (map (\<lambda>(k, v). quote_plus k @ [61] @ quote_plus v) kvs)"

subsection \<open>Decoding what was encoded\<close>

lemma unat_u8_less: "unat (b :: u8) < 256"
  using unsigned_less [of b] by simp

lemma unreserved_range: "unreserved b \<Longrightarrow> 45 \<le> unat b \<and> unat b < 127 \<and> b \<noteq> 61"
  by (auto simp: unreserved_def ascii_defs word_unat_eq_iff)

lemma hex_upper_char_range:
  "n < 16 \<Longrightarrow> 48 \<le> unat (hex_upper_char n) \<and> unat (hex_upper_char n) < 71
     \<and> unat (hex_upper_char n) \<noteq> 61 \<and> hex_digit (unat (hex_upper_char n)) = Some n"
  by (auto simp: hex_upper_char_def unat_byte hex_digit_def is_ascii_digit_def simp del: of_nat_add)

lemma div16: "unat (b :: u8) div 16 < 16"
  using unat_u8_less [of b] by (simp add: less_mult_imp_div_less)

lemma quote_byte_range:
  "x \<in> set (quote_byte b) \<Longrightarrow> 37 \<le> unat x \<and> unat x < 127 \<and> unat x \<noteq> 38 \<and> unat x \<noteq> 61"
  using unreserved_range [of b] hex_upper_char_range [OF div16, of b]
    hex_upper_char_range [of "unat b mod 16"]
  by (auto simp: quote_byte_def word_unat_eq_iff split: if_splits)

lemma quote_plus_range:
  "x \<in> set (quote_plus s) \<Longrightarrow> 37 \<le> unat x \<and> unat x < 127 \<and> unat x \<noteq> 38 \<and> unat x \<noteq> 61"
  by (auto simp: quote_plus_def dest: quote_byte_range)

definition plus_to_space :: "u8 \<Rightarrow> u8" where
  "plus_to_space b = (if b = 43 then 32 else b)"

definition decode_bits :: "u8 list \<Rightarrow> u8 list" where
  "decode_bits bs = (case split_by (\<lambda>b. b = 37) bs of [] \<Rightarrow> [] | first # bits \<Rightarrow> first @ concat (map unquote_bit bits))"

lemma decode_bits_Nil [simp]: "decode_bits [] = []"
  by (simp add: decode_bits_def)

lemma decode_bits_plain: "b \<noteq> 37 \<Longrightarrow> decode_bits (b # bs) = b # decode_bits bs"
  by (cases "split_by (\<lambda>b. b = 37) bs") (auto simp: decode_bits_def)

lemma decode_bits_hex:
  assumes "hex_digit (unat h) = Some a" "hex_digit (unat l) = Some b" "h \<noteq> 37" "l \<noteq> 37"
  shows "decode_bits (37 # h # l # bs) = of_nat (a * 16 + b) # decode_bits bs"
  using assms
  by (cases "split_by (\<lambda>b. b = 37) bs")
    (auto simp: decode_bits_def unquote_bit_def hex_byte_def get_at_def)

lemma decode_bits_quoted:
  "decode_bits (map plus_to_space (concat (map quote_byte bs)) @ r) = bs @ decode_bits r"
proof (induction bs)
  case (Cons b bs)
  let ?h = "hex_upper_char (unat b div 16)" and ?l = "hex_upper_char (unat b mod 16)"
  consider (u) "unreserved b" | (s) "\<not> unreserved b" "b = 32" | (h) "\<not> unreserved b" "b \<noteq> 32" by blast
  then show ?case
  proof cases
    case u
    then have "b \<noteq> 37" "b \<noteq> 43" using unreserved_range [OF u] by (auto simp: word_unat_eq_iff)
    with u Cons show ?thesis by (simp add: quote_byte_def plus_to_space_def decode_bits_plain)
  next
    case s
    with Cons show ?thesis by (simp add: quote_byte_def plus_to_space_def decode_bits_plain)
  next
    case h
    have r: "hex_digit (unat ?h) = Some (unat b div 16)" "hex_digit (unat ?l) = Some (unat b mod 16)"
      "48 \<le> unat ?h" "48 \<le> unat ?l"
      using hex_upper_char_range [OF div16, of b] hex_upper_char_range [of "unat b mod 16"] by auto
    then have "?h \<noteq> 37" "?l \<noteq> 37" "?h \<noteq> 43" "?l \<noteq> 43" by (auto simp: word_unat_eq_iff)
    moreover have "(of_nat (unat b div 16 * 16 + unat b mod 16) :: u8) = b"
      by (simp only: div_mult_mod_eq of_nat_unat ucast_id)
    ultimately show ?thesis
      using h r Cons by (simp add: quote_byte_def plus_to_space_def decode_bits_hex del: of_nat_add of_nat_mult)
  qed
qed simp

lemma utf8_encode_latin1:
  "(\<And>b. b \<in> set bs \<Longrightarrow> unat b < 128) \<Longrightarrow> utf8_encode (latin1_chars bs) = bs"
  by (induction bs) (auto simp: latin1_chars_def utf8_char_def)

lemma unquote_runs_ascii:
  assumes "is_ascii s"
  shows "unquote_runs s = from_utf8_lossy (unquote_to_bytes s)"
proof -
  have tw: "takeWhile is_ascii_char s = s" "dropWhile is_ascii_char s = []"
    using assms by (auto simp only: is_ascii_def list_all_iff takeWhile_eq_all_conv dropWhile_eq_Nil_conv)
  have "unquote_runs [] = []" by (subst unquote_runs.simps) simp
  moreover have "from_utf8_lossy (unquote_to_bytes []) = []"
    by (simp add: unquote_to_bytes_def from_utf8_lossy_def)
  ultimately show ?thesis
    by (cases "s = []") (simp_all add: unquote_runs.simps [of s] Let_def tw)
qed

lemma unquote_quote:
  assumes "valid_str s"
  shows "unquote_plus (latin1_chars (quote_plus s)) = s"
proof -
  let ?b = "map plus_to_space (quote_plus s)"
  have range: "unat x < 128" if "x \<in> set ?b" for x
    using that quote_plus_range [of _ s] by (fastforce simp: plus_to_space_def)
  have sp: "map (\<lambda>c. if c = 43 then 32 else c) (latin1_chars (quote_plus s)) = latin1_chars ?b"
    by (auto simp: latin1_chars_def plus_to_space_def word_unat_eq_iff)
  have dec: "decode_bits ?b = utf8_encode s"
    using decode_bits_quoted [of "utf8_encode s" "[]"] by (simp add: quote_plus_def)
  show ?thesis
  proof (cases "37 \<in> set ?b")
    case True
    then have "37 \<in> set (latin1_chars ?b)" by (force simp: latin1_chars_def)
    moreover have "is_ascii (latin1_chars ?b)"
      using range by (auto simp: is_ascii_def list_all_iff is_ascii_char_def latin1_chars_def)
    moreover have "unquote_to_bytes (latin1_chars ?b) = decode_bits ?b"
      using utf8_encode_latin1 [of ?b] range by (simp add: unquote_to_bytes_def decode_bits_def)
    ultimately show ?thesis
      by (simp add: unquote_plus_def Let_def sp unquote_runs_ascii dec from_utf8_lossy_encode assms)
  next
    case False
    have "decode_bits bs = bs" if "37 \<notin> set bs" for bs
      using that by (induction bs) (auto simp: decode_bits_plain)
    with False dec have e: "?b = utf8_encode s" by simp
    have "utf8_encode (latin1_chars ?b) = utf8_encode s"
      using utf8_encode_latin1 [of ?b] range e by simp
    moreover have "valid_str (latin1_chars ?b)"
      using range by (intro is_ascii_valid_str)
        (auto simp: is_ascii_def list_all_iff is_ascii_char_def latin1_chars_def)
    ultimately have "latin1_chars ?b = s"
      using utf8_encode_inj assms by blast
    moreover have "37 \<notin> set (latin1_chars ?b)"
      using False by (force simp: latin1_chars_def word_unat_eq_iff)
    ultimately show ?thesis by (simp add: unquote_plus_def Let_def sp)
  qed
qed


lemma split_by_join:
  assumes "\<And>f. f \<in> set fs \<Longrightarrow> c \<notin> set f" "fs \<noteq> []"
  shows "split_by (\<lambda>x. x = c) (join [c] fs) = fs"
  using assms
proof (induction fs rule: induct_list012)
  case (3 f g fs)
  have "split_by (\<lambda>x. x = c) (f @ c # r) = f # split_by (\<lambda>x. x = c) r" for r
    using 3(3) [of f] by (simp add: split_at_char_append)
  with 3 show ?case by (simp add: join_Cons)
next
  case (2 f)
  then show ?case by (simp, intro split_by_none) auto
qed simp

definition field_fits :: "limits \<Rightarrow> rstr \<times> rstr \<Rightarrow> bool" where
  "field_fits limits kv \<longleftrightarrow>
     \<not> exceeds (length (quote_plus (fst kv)) + length (quote_plus (snd kv))) (max_part_size limits)"

lemma exceeds_mono: "exceeds m limit \<Longrightarrow> m \<le> n \<Longrightarrow> exceeds n limit"
  by (auto simp: exceeds_def split: if_splits)

lemma position_split:
  "c \<notin> set n \<Longrightarrow> position (\<lambda>b. b = c) (n @ c # v) = Some (length n)"
  by (induction n) auto

lemma not_in_quote_plus: "38 \<notin> set (quote_plus s)" "61 \<notin> set (quote_plus s)"
  using quote_plus_range [of 38 s] quote_plus_range [of 61 s] by auto

lemma urlencoded_fields_quoted:
  assumes "\<And>kv. kv \<in> set kvs \<Longrightarrow> valid_str (fst kv) \<and> valid_str (snd kv) \<and> field_fits limits kv"
    "\<not> exceeds (length items + length kvs) (max_fields limits)"
  shows "urlencoded_fields limits (map (\<lambda>(k, v). quote_plus k @ [61] @ quote_plus v) kvs) items
    = Ok (items @ map (\<lambda>(k, v). (k, Text v)) kvs)"
  using assms
proof (induction kvs arbitrary: items)
  case (Cons kv kvs)
  obtain k v where kv: "kv = (k, v)" by (cases kv)
  have ok: "valid_str k" "valid_str v" "field_fits limits (k, v)" using Cons.prems(1) [of kv] kv by auto
  have "\<not> exceeds (length items + 1) (max_fields limits)"
    using Cons.prems(2) exceeds_mono by fastforce
  moreover have "\<not> exceeds (length (quote_plus k)) (max_part_size limits)"
    "\<not> exceeds (length (quote_plus k) + length (quote_plus v)) (max_part_size limits)"
    using ok(3) exceeds_mono unfolding field_fits_def by fastforce+
  ultimately show ?case
    using Cons.IH [of "items @ [(k, Text v)]"] Cons.prems ok
    by (simp add: kv position_split not_in_quote_plus unquote_quote)
qed simp

definition is_text :: "form_value \<Rightarrow> bool" where
  "is_text v = (case v of Text _ \<Rightarrow> True | File _ \<Rightarrow> False)"

lemma urlencoded_fields_text:
  "urlencoded_fields limits fs items = Ok out \<Longrightarrow> list_all (is_text \<circ> snd) items \<Longrightarrow>
   list_all (is_text \<circ> snd) out"
  by (induction limits fs items rule: urlencoded_fields.induct)
    (auto simp: is_text_def split: option.splits if_splits)

lemma urlencoded_fields_length:
  "urlencoded_fields limits fs items = Ok out \<Longrightarrow>
   length out = length items + length fs \<and> (fs \<noteq> [] \<longrightarrow> int (length out) \<le> max_fields limits)"
proof (induction limits fs items rule: urlencoded_fields.induct)
  case (2 limits field fs items)
  have "int (length items + 1) \<le> max_fields limits" if "\<not> exceeds (length items + 1) (max_fields limits)"
    using that by (auto simp: exceeds_def split: if_splits)
  with 2 show ?case by (cases "fs = []") (auto split: option.splits if_splits)
qed simp

subsection \<open>Properties of the urlencoded parser\<close>

text \<open>C33: a body that \<open>urlencode\<close> wrote parses back to the same fields, in order, with
  duplicates, with every Unicode char, \<open>+\<close>, \<open>&\<close>, \<open>=\<close> and \<open>%\<close> inside names and values, provided
  each field fits \<open>max_part_size\<close> and there are at most \<open>max_fields\<close> of them.\<close>

theorem urlencoded_roundtrip:
  assumes "\<And>kv. kv \<in> set kvs \<Longrightarrow> valid_str (fst kv) \<and> valid_str (snd kv) \<and> field_fits limits kv"
    "\<not> exceeds (length kvs) (max_fields limits)"
  shows "urlencoded (urlencode kvs) limits = Ok (map (\<lambda>(k, v). (k, Text v)) kvs)"
proof (cases "kvs = []")
  case False
  let ?fs = "map (\<lambda>(k, v). quote_plus k @ [61] @ quote_plus v) kvs"
  have "split_by (\<lambda>b. b = 38) (urlencode kvs) = ?fs"
    unfolding urlencode_def
    by (rule split_by_join) (use False not_in_quote_plus in \<open>auto simp: case_prod_unfold\<close>)
  moreover have "filter (\<lambda>f. f \<noteq> []) ?fs = ?fs" by (auto simp: filter_id_conv)
  ultimately show ?thesis
    using urlencoded_fields_quoted [of kvs limits "[]"] assms by (simp add: urlencoded_def)
qed (simp add: urlencoded_def urlencode_def)

definition example_limits :: limits where
  "example_limits = \<lparr>max_files = 3, max_fields = 4, max_part_size = 64\<rparr>"

theorem urlencoded_roundtrip_witness:
  "urlencoded (urlencode [(lit ''to'', lit ''a+b@x.de''), (lit ''a&b'', [0x20AC, 37, 32])]) example_limits
   = Ok (map (\<lambda>(k, v). (k, Text v)) [(lit ''to'', lit ''a+b@x.de''), (lit ''a&b'', [0x20AC, 37, 32])])"
proof (rule urlencoded_roundtrip)
  have "list_all (\<lambda>kv. valid_str (fst kv) \<and> valid_str (snd kv) \<and> field_fits example_limits kv)
    [(lit ''to'', lit ''a+b@x.de''), (lit ''a&b'', [0x20AC, 37, 32])]" by code_simp
  then show "\<And>kv. kv \<in> set [(lit ''to'', lit ''a+b@x.de''), (lit ''a&b'', [0x20AC, 37, 32])] \<Longrightarrow>
      valid_str (fst kv) \<and> valid_str (snd kv) \<and> field_fits example_limits kv"
    unfolding list_all_iff by blast
  show "\<not> exceeds (length [(lit ''to'', lit ''a+b@x.de''), (lit ''a&b'', [0x20AC, 37, 32])])
      (max_fields example_limits)" by code_simp
qed

text \<open>An accepted urlencoded body has as many items as it has non-empty fields between the
  ampersands, none of them a file, and never more than \<open>max_fields\<close>.\<close>

lemma urlencoded_limits:
  assumes "urlencoded body limits = Ok items"
  shows "length items = length (filter (\<lambda>f. f \<noteq> []) (split_by (\<lambda>b. b = 38) body))
     \<and> list_all (is_text \<circ> snd) items
     \<and> (items \<noteq> [] \<longrightarrow> int (length items) \<le> max_fields limits)"
  using urlencoded_fields_length [OF assms [unfolded urlencoded_def]]
    urlencoded_fields_text [OF assms [unfolded urlencoded_def]] by auto

end
