(* ===== verification/Form_Multipart.thy ===== *)
theory Form_Multipart
  imports Form_Url
begin

text \<open>
  The multipart half of \<open>rust/src/form.rs\<close> and the dispatch \<open>parse\<close>.  The cursor \<open>i\<close> into the body
  is modelled by the unread rest; \<open>Ok None\<close> of a step is the source's \<open>return Ok(items)\<close>, a body
  that ends early.  The specification is the writer of a form body (\<open>multipart_body\<close>).
\<close>

definition is_token :: "u8 \<Rightarrow> bool" where
  "is_token b \<longleftrightarrow> is_ascii_alphanumeric (unat b)
     \<or> b \<in> set (blit ''!#$%&'' @ [39] @ blit ''*+-.^_`|~'')"

definition find_byte :: "u8 \<Rightarrow> u8 list \<Rightarrow> nat option" where
  "find_byte b rest = position (\<lambda>x. x = b) rest"

fun find_seq :: "u8 list \<Rightarrow> u8 list \<Rightarrow> nat option" where
  "find_seq needle [] = (if needle = [] then Some 0 else None)"
| "find_seq needle (b # rest) =
     (if starts_with needle (b # rest) then Some 0 else map_option Suc (find_seq needle rest))"

definition delimiter :: "u8 list \<Rightarrow> u8 list" where
  "delimiter boundary = [13, 10, 45, 45] @ boundary"

subsection \<open>The start boundary\<close>

fun expect_bytes :: "u8 list \<Rightarrow> u8 list \<Rightarrow> form_error + u8 list option" where
  "expect_bytes [] rest = Ok (Some rest)"
| "expect_bytes (e # es) [] = Ok None"
| "expect_bytes (e # es) (b # rest) = (if b = e then expect_bytes es rest else Err BadRequest)"

definition multipart_start :: "u8 list \<Rightarrow> u8 list \<Rightarrow> form_error + u8 list option" where
  "multipart_start boundary body =
     (let rest = dropWhile (\<lambda>b. b = 13 \<or> b = 10) body
      in if length rest < length body \<and> rest \<noteq> [] \<and> hd rest \<noteq> 45 then Err BadRequest
         else and_then (expect_bytes (drop 2 (delimiter boundary)) rest) (\<lambda>r.
           (case r of
              None \<Rightarrow> Ok None
            | Some [] \<Rightarrow> Ok None
            | Some [b] \<Rightarrow> if b = 45 \<or> b = 13 then Ok None else Err BadRequest
            | Some (b # c # after) \<Rightarrow>
                if b = 45 \<and> c = 45 then Ok None
                else if b = 13 \<and> c = 10 then Ok (Some after)
                else Err BadRequest)))"

subsection \<open>Part headers\<close>

fun skip_spaces :: "u8 list \<Rightarrow> nat \<Rightarrow> form_error + u8 list \<times> nat" where
  "skip_spaces [] sz = Ok ([], sz)"
| "skip_spaces (b # rest) sz =
     (if b = 32 then
        (if sz + 1 > MAX_HEADER_SIZE then Err BadRequest else skip_spaces rest (sz + 1))
      else Ok (b # rest, sz))"

text \<open>One header: its name, its value and the rest after the CR.\<close>

definition header_line :: "u8 list \<Rightarrow> form_error + (u8 list \<times> u8 list \<times> u8 list) option" where
  "header_line rest =
     (let colon = find_byte 58 rest;
          stop = (case colon of Some p \<Rightarrow> p | None \<Rightarrow> length rest);
          sz = stop + (case colon of Some _ \<Rightarrow> 1 | None \<Rightarrow> 0);
          name = take stop rest
      in if sz > MAX_HEADER_SIZE \<or> \<not> list_all is_token name then Err BadRequest
         else (case colon of
            None \<Rightarrow> Ok None
          | Some c \<Rightarrow>
              if name = [] then Err BadRequest
              else and_then (skip_spaces (drop (c + 1) rest) sz) (\<lambda>(rest', sz').
                (let cr = find_byte 13 rest';
                     stop' = (case cr of Some p \<Rightarrow> p | None \<Rightarrow> length rest')
                 in if sz' + stop' > MAX_HEADER_SIZE then Err BadRequest
                    else (case cr of
                       None \<Rightarrow> Ok None
                     | Some p \<Rightarrow> Ok (Some (name, take p rest', drop (p + 1) rest')))))))"

definition eq_ignore_case_bytes :: "u8 list \<Rightarrow> u8 list \<Rightarrow> bool" where
  "eq_ignore_case_bytes a b \<longleftrightarrow>
     to_ascii_lowercase (latin1_chars a) = to_ascii_lowercase (latin1_chars b)"

text \<open>What the header adds: the last disposition and the first content type are kept.\<close>

definition note_header ::
  "u8 list \<Rightarrow> u8 list \<Rightarrow> u8 list option \<times> u8 list option \<Rightarrow> u8 list option \<times> u8 list option" where
  "note_header name val kept =
     (if eq_ignore_case_bytes name (blit ''content-disposition'') then (Some val, snd kept)
      else if eq_ignore_case_bytes name (blit ''content-type'') \<and> snd kept = None
        then (fst kept, Some val)
      else kept)"

text \<open>The headers up to the empty line: the disposition, the content type, and the rest.\<close>

function part_headers ::
  "u8 list \<Rightarrow> nat \<Rightarrow> u8 list option \<times> u8 list option
   \<Rightarrow> form_error + ((u8 list option \<times> u8 list option) \<times> u8 list) option" where
  "part_headers rest n kept =
     (if rest = [] \<or> rest = [13] then Ok None
      else if take 2 rest = [13, 10] then Ok (Some (kept, drop 2 rest))
      else if hd rest = 13 then Err BadRequest
      else if n + 1 > MAX_HEADER_COUNT then Err BadRequest
      else
        (case header_line rest of
           Inl e \<Rightarrow> Err e
         | Inr None \<Rightarrow> Ok None
         | Inr (Some (name, val, [])) \<Rightarrow> Ok None
         | Inr (Some (name, val, b # rest')) \<Rightarrow>
             if b = 10 then part_headers rest' (n + 1) (note_header name val kept)
             else Err BadRequest))"
  by pat_completeness auto
termination
  by (relation "measure (\<lambda>(_, n, _). Suc MAX_HEADER_COUNT - n)") (auto simp: MAX_HEADER_COUNT_def)

declare part_headers.simps [simp del]

subsection \<open>Part data\<close>

lemma find_seq_bound: "find_seq needle s = Some p \<Longrightarrow> p + length needle \<le> length s"
proof (induction needle s arbitrary: p rule: find_seq.induct)
  case (2 needle b rest)
  then show ?case
    by (auto simp: starts_with_def split: if_splits dest: arg_cong [of _ _ length])
qed (auto split: if_splits)

text \<open>
  The position of the delimiter that ends the data of a part, relative to where the data start,
  and whether it is the last one.
\<close>

function part_end :: "u8 list \<Rightarrow> u8 list \<Rightarrow> nat \<Rightarrow> (nat \<times> bool) option" where
  "part_end boundary rest search =
     (case find_seq (delimiter boundary) (drop search rest) of
        None \<Rightarrow> None
      | Some p \<Rightarrow>
          (let at = search + p;
               after = at + length (delimiter boundary)
           in (case get_at rest after of
                 None \<Rightarrow> None
               | Some b \<Rightarrow>
                   (case get_at rest (after + 1) of
                      None \<Rightarrow> if b = 13 \<or> b = 45 then None else part_end boundary rest after
                    | Some c \<Rightarrow>
                        if b = 13 \<and> c = 10 then Some (at, False)
                        else if b = 45 \<and> c = 45 then Some (at, True)
                        else if b = 13 \<or> b = 45 then part_end boundary rest (after + 1)
                        else part_end boundary rest after))))"
  by pat_completeness auto
termination
  by (relation "measure (\<lambda>(_, rest, search). length rest - search)")
    (auto simp: delimiter_def get_at_def split: if_splits dest!: find_seq_bound)

declare part_end.simps [simp del]

text \<open>The name and file name of a part from its disposition.\<close>

definition part_names ::
  "crates \<Rightarrow> charset \<Rightarrow> u8 list option \<Rightarrow> form_error + rstr \<times> rstr option" where
  "part_names X cs disposition =
     (let params = snd (options_header X (map_option latin1_chars disposition))
      in and_then (ok_or BadRequest (param params (lit ''name''))) (\<lambda>name.
           Ok (decode (latin1_bytes name) cs,
               map_option (\<lambda>f. decode (latin1_bytes f) cs) (param params (lit ''filename'')))))"

definition part_value ::
  "charset \<Rightarrow> limits \<Rightarrow> rstr option \<Rightarrow> u8 list option \<Rightarrow> u8 list \<Rightarrow> form_error + form_value" where
  "part_value cs limits fname ctype bytes =
     (case fname of
        Some f \<Rightarrow> Ok (File \<lparr>filename = f, up_content_type = map_option latin1_chars ctype,
                           up_data = bytes\<rparr>)
      | None \<Rightarrow>
          if bytes \<noteq> [] \<and> exceeds (length bytes) (max_part_size limits) then Err TooLarge
          else Ok (Text (decode bytes cs)))"

lemma skip_spaces_length: "skip_spaces s n = Ok (r, m) \<Longrightarrow> length r \<le> length s"
  by (induction s n rule: skip_spaces.induct) (auto split: if_splits)

lemma header_line_length:
  assumes "header_line s = Ok (Some (n, v, r))"
  shows "length r \<le> length s"
proof -
  obtain c m r' k p where "skip_spaces (drop (Suc c) s) m = Ok (r', k)" "r = drop (Suc p) r'"
    using assms by (auto simp: header_line_def Let_def result_simps split: option.splits if_splits)
  then show ?thesis using skip_spaces_length [of "drop (Suc c) s" m r'] by fastforce
qed

lemma part_headers_cases:
  assumes "part_headers s n kept = Ok (Some (kept', r))"
  obtains (stop) "take 2 s = [13, 10]" "kept' = kept" "r = drop 2 s"
  | (more) name val s' where "hd s \<noteq> 13" "n < MAX_HEADER_COUNT" "s \<noteq> []" "s \<noteq> [13]"
      "take 2 s \<noteq> [13, 10]"
      "header_line s = Ok (Some (name, val, 10 # s'))"
      "part_headers s' (n + 1) (note_header name val kept) = Ok (Some (kept', r))"
  using assms
  by (subst (asm) part_headers.simps) (auto split: if_splits sum.splits option.splits list.splits)

lemma part_headers_length:
  "part_headers s n kept = Ok (Some (kept', r)) \<Longrightarrow> length r \<le> length s"
proof (induction "Suc MAX_HEADER_COUNT - n" arbitrary: s n kept rule: less_induct)
  case less
  from less.prems show ?case
  proof (cases rule: part_headers_cases)
    case (more name val s')
    then have "length r \<le> length s'" by (intro less.hyps) auto
    then show ?thesis using header_line_length [OF more(6)] by simp
  qed simp
qed

lemma part_end_range:
  "part_end boundary rest search = Some (at, l) \<Longrightarrow>
   search \<le> at \<and> at + length (delimiter boundary) + 2 \<le> length rest"
proof (induction boundary rest search rule: part_end.induct)
  case (1 boundary rest search)
  show ?case
  proof (cases "find_seq (delimiter boundary) (drop search rest)")
    case None
    with "1.prems" show ?thesis by (subst (asm) part_end.simps) simp
  next
    case (Some p)
    let ?after = "search + p + length (delimiter boundary)"
    from Some "1.prems" obtain b where b: "get_at rest ?after = Some b"
      by (subst (asm) part_end.simps) (auto simp: Let_def split: option.splits)
    from Some b "1.prems" consider
      (hit) c where "get_at rest (?after + 1) = Some c" "at = search + p"
    | (next0) "part_end boundary rest ?after = Some (at, l)"
        "get_at rest (?after + 1) = None" "\<not> (b = 13 \<or> b = 45)"
    | (next1) c where "part_end boundary rest (?after + 1) = Some (at, l)"
        "get_at rest (?after + 1) = Some c" "\<not> (b = 13 \<and> c = 10)" "\<not> (b = 45 \<and> c = 45)"
        "b = 13 \<or> b = 45"
    | (next2) c where "part_end boundary rest ?after = Some (at, l)"
        "get_at rest (?after + 1) = Some c" "\<not> (b = 13 \<and> c = 10)" "\<not> (b = 45 \<and> c = 45)"
        "\<not> (b = 13 \<or> b = 45)"
      by (subst (asm) part_end.simps) (auto simp: Let_def split: option.splits if_splits)
    then show ?thesis
    proof cases
      case hit
      then show ?thesis by (simp add: get_at_Some_iff)
    next
      case next0
      show ?thesis using "1.IH"(1) [OF Some refl refl b next0(2,3,1)] by simp
    next
      case next1
      show ?thesis using "1.IH"(2) [OF Some refl refl b next1(2-5,1)] by simp
    next
      case next2
      show ?thesis using "1.IH"(3) [OF Some refl refl b next2(2-5,1)] by simp
    qed
  qed
qed

text \<open>The loop over the parts.\<close>

function parts_loop ::
  "crates \<Rightarrow> u8 list \<Rightarrow> charset \<Rightarrow> limits \<Rightarrow> u8 list \<Rightarrow> nat \<Rightarrow> nat \<Rightarrow> form_items
   \<Rightarrow> form_error + form_items" where
  "parts_loop X boundary cs limits rest nfiles nfields items =
     (case part_headers rest 0 (None, None) of
        Inl e \<Rightarrow> Err e
      | Inr None \<Rightarrow> Ok items
      | Inr (Some ((disposition, ctype), rest')) \<Rightarrow>
          (case part_names X cs disposition of
             Inl e \<Rightarrow> Err e
           | Inr (name, fname) \<Rightarrow>
               (let nfiles' = (if fname \<noteq> None then nfiles + 1 else nfiles);
                    nfields' = (if fname \<noteq> None then nfields else nfields + 1)
                in if fname \<noteq> None \<and> exceeds nfiles' (max_files limits) then Err TooLarge
                   else if fname = None \<and> exceeds nfields' (max_fields limits) then Err TooLarge
                   else
                     (case part_end boundary rest' 0 of
                        None \<Rightarrow> Ok items
                      | Some (at, is_last) \<Rightarrow>
                          (case part_value cs limits fname ctype (take at rest') of
                             Inl e \<Rightarrow> Err e
                           | Inr v \<Rightarrow>
                               if is_last then Ok (items @ [(name, v)])
                               else parts_loop X boundary cs limits
                                      (drop (at + length (delimiter boundary) + 2) rest')
                                      nfiles' nfields' (items @ [(name, v)]))))))"
  by pat_completeness auto
termination
  apply (relation "measure (\<lambda>(_, _, _, _, rest, _). length rest)")
   apply simp
  subgoal for X boundary cs limits rest
    by (auto simp: delimiter_def split: prod.splits if_splits
        dest!: part_headers_length part_end_range)
  done

declare parts_loop.simps [simp del]

definition multipart ::
  "crates \<Rightarrow> u8 list \<Rightarrow> u8 list \<Rightarrow> charset \<Rightarrow> limits \<Rightarrow> form_error + form_items" where
  "multipart X body boundary cs limits =
     and_then (multipart_start boundary body) (\<lambda>r.
       (case r of
          None \<Rightarrow> Ok []
        | Some rest \<Rightarrow> parts_loop X boundary cs limits rest 0 0 []))"

definition parse :: "crates \<Rightarrow> encoding \<Rightarrow> u8 list \<Rightarrow> limits \<Rightarrow> form_error + form_items" where
  "parse X enc body limits =
     (case enc of
        Urlencoded \<Rightarrow> urlencoded body limits
      | Multipart boundary cs \<Rightarrow> multipart X body boundary cs limits
      | NoEncoding \<Rightarrow> Ok [])"

text \<open>One round of the loop, and the ways it can succeed.\<close>

lemma parts_loop_part:
  assumes "part_headers rest 0 (None, None) = Ok (Some (kept, rest'))"
    "part_names X cs (fst kept) = Ok (name, fname)"
    "fname \<noteq> None \<longrightarrow> \<not> exceeds (nfiles + 1) (max_files limits)"
    "fname = None \<longrightarrow> \<not> exceeds (nfields + 1) (max_fields limits)"
    "part_end boundary rest' 0 = Some (at, is_last)"
    "part_value cs limits fname (snd kept) (take at rest') = Ok v"
  shows "parts_loop X boundary cs limits rest nfiles nfields items =
    (if is_last then Ok (items @ [(name, v)])
     else parts_loop X boundary cs limits (drop (at + length (delimiter boundary) + 2) rest')
            (if fname \<noteq> None then nfiles + 1 else nfiles)
            (if fname \<noteq> None then nfields else nfields + 1) (items @ [(name, v)]))"
  using assms by (subst parts_loop.simps) (cases kept, auto)

lemma parts_loop_cases:
  assumes "parts_loop X boundary cs limits rest nfiles nfields items = Ok out"
  obtains (ended) "out = items"
  | (part) kept rest' name fname at is_last v
    where "part_headers rest 0 (None, None) = Ok (Some (kept, rest'))"
      "part_names X cs (fst kept) = Ok (name, fname)"
      "fname \<noteq> None \<longrightarrow> \<not> exceeds (nfiles + 1) (max_files limits)"
      "fname = None \<longrightarrow> \<not> exceeds (nfields + 1) (max_fields limits)"
      "part_end boundary rest' 0 = Some (at, is_last)"
      "part_value cs limits fname (snd kept) (take at rest') = Ok v"
      "Ok out = (if is_last then Ok (items @ [(name, v)])
       else parts_loop X boundary cs limits (drop (at + length (delimiter boundary) + 2) rest')
              (if fname \<noteq> None then nfiles + 1 else nfiles)
              (if fname \<noteq> None then nfields else nfields + 1) (items @ [(name, v)]))"
proof (cases "\<exists>kept rest'. part_headers rest 0 (None, None) = Ok (Some (kept, rest'))")
  case False
  with assms show thesis
    by (intro ended) (subst (asm) parts_loop.simps, auto split: sum.splits option.splits)
next
  case True
  then obtain disp ctype rest' where h: "part_headers rest 0 (None, None) = Ok (Some ((disp, ctype), rest'))"
    by auto
  with assms obtain name fname where n: "part_names X cs disp = Ok (name, fname)"
    by (subst (asm) parts_loop.simps) (auto split: sum.splits)
  from assms h n have lim: "fname \<noteq> None \<longrightarrow> \<not> exceeds (nfiles + 1) (max_files limits)"
      "fname = None \<longrightarrow> \<not> exceeds (nfields + 1) (max_fields limits)"
    by (subst (asm) parts_loop.simps, auto split: if_splits)+
  show thesis
  proof (cases "part_end boundary rest' 0")
    case None
    with assms h n lim show thesis
      by (intro ended) (subst (asm) parts_loop.simps, auto split: if_splits)
  next
    case (Some e)
    obtain at is_last where e: "e = (at, is_last)" by (cases e)
    with assms h n lim Some obtain v where v: "part_value cs limits fname ctype (take at rest') = Ok v"
      by (subst (asm) parts_loop.simps) (auto split: if_splits sum.splits)
    have n': "part_names X cs (fst (disp, ctype)) = Ok (name, fname)"
      and v': "part_value cs limits fname (snd (disp, ctype)) (take at rest') = Ok v"
      using n v by simp_all
    show thesis
      by (rule part [OF h n' lim Some [unfolded e] v'])
        (simp only: assms [symmetric] parts_loop_part [OF h n' lim Some [unfolded e] v'])
  qed
qed

subsection \<open>Limits\<close>

definition n_files :: "form_items \<Rightarrow> nat" where
  "n_files items = length (filter (\<lambda>kv. \<not> is_text (snd kv)) items)"

definition n_texts :: "form_items \<Rightarrow> nat" where
  "n_texts items = length (filter (\<lambda>kv. is_text (snd kv)) items)"

definition small_text :: "limits \<Rightarrow> form_value \<Rightarrow> bool" where
  "small_text limits v =
     (case v of Text t \<Rightarrow> t = [] \<or> int (length t) \<le> max_part_size limits | File _ \<Rightarrow> True)"

lemma utf8_scan_length: "length (utf8_scan bs) \<le> length bs"
proof (induction bs rule: utf8_scan.induct)
  case (2 b bs)
  then show ?case using utf8_step_length [of b bs] by simp
qed simp

lemma decode_length: "length (decode bs cs) \<le> length bs"
  using utf8_scan_length [of "map unat bs"]
  by (auto simp: decode_def from_utf8_def latin1_chars_def Let_def split: charset.splits option.splits if_splits)

lemma part_value_kind:
  "part_value cs limits f c bs = Ok v \<Longrightarrow> (is_text v \<longleftrightarrow> f = None) \<and> small_text limits v"
  using decode_length [of bs cs]
  by (auto simp: part_value_def is_text_def small_text_def decode_def exceeds_def from_utf8_def
      latin1_chars_def split: option.splits if_splits charset.splits)

lemma parts_loop_limits:
  assumes "parts_loop X boundary cs limits rest nfiles nfields items = Ok out"
    "nfiles = n_files items" "nfields = n_texts items" "list_all (small_text limits \<circ> snd) items"
  shows "(n_files out = n_files items \<or> int (n_files out) \<le> max_files limits)
     \<and> (n_texts out = n_texts items \<or> int (n_texts out) \<le> max_fields limits)
     \<and> list_all (small_text limits \<circ> snd) out"
  using assms
proof (induction "length rest" arbitrary: rest nfiles nfields items rule: less_induct)
  case less
  from less.prems(1) show ?case
  proof (cases rule: parts_loop_cases)
    case ended
    with less.prems show ?thesis by simp
  next
    case (part kept rest' name fname at is_last v)
    let ?items = "items @ [(name, v)]"
    have kind: "is_text v \<longleftrightarrow> fname = None" "small_text limits v"
      using part_value_kind [OF part(6)] by simp_all
    have n: "n_files ?items = (if fname \<noteq> None then n_files items + 1 else n_files items)"
      "n_texts ?items = (if fname \<noteq> None then n_texts items else n_texts items + 1)"
      using kind(1) by (simp_all add: n_files_def n_texts_def)
    have lim: "n_files ?items = n_files items \<or> int (n_files ?items) \<le> max_files limits"
      "n_texts ?items = n_texts items \<or> int (n_texts ?items) \<le> max_fields limits"
      using part(3,4) less.prems(2,3) n by (auto simp: exceeds_def split: if_splits)
    show ?thesis
    proof (cases is_last)
      case True
      with part(7) lim kind less.prems(4) show ?thesis by auto
    next
      case False
      have "length (drop (at + length (delimiter boundary) + 2) rest') < length rest"
        using part_end_range [OF part(5)] part_headers_length [OF part(1)] by (simp add: delimiter_def)
      from less.hyps [OF this, of "n_files ?items" "n_texts ?items" ?items]
      show ?thesis
        using part(7) False n less.prems(2-4) kind(2) lim by auto
    qed
  qed
qed

subsection \<open>The writer of a form body\<close>

record form_part =
  fp_disposition :: "u8 list"
  fp_ctype :: "u8 list option"
  fp_data :: "u8 list"

definition written_header :: "u8 list \<Rightarrow> u8 list \<Rightarrow> u8 list" where
  "written_header name val = name @ [58, 32] @ val @ CRLF"

definition written_headers :: "form_part \<Rightarrow> u8 list" where
  "written_headers p = written_header (blit ''Content-Disposition'') (fp_disposition p)
     @ (case fp_ctype p of None \<Rightarrow> [] | Some t \<Rightarrow> written_header (blit ''Content-Type'') t) @ CRLF"

fun written_parts :: "u8 list \<Rightarrow> form_part list \<Rightarrow> u8 list" where
  "written_parts boundary [] = []"
| "written_parts boundary (p # ps) = written_headers p @ fp_data p @ delimiter boundary
     @ (if ps = [] then [45, 45] else CRLF @ written_parts boundary ps)"

definition multipart_body :: "u8 list \<Rightarrow> form_part list \<Rightarrow> u8 list" where
  "multipart_body boundary ps = [45, 45] @ boundary @ CRLF @ written_parts boundary ps"

text \<open>A header value that fits, and a part whose data do not hold the delimiter.\<close>

definition good_value :: "u8 list \<Rightarrow> u8 list \<Rightarrow> bool" where
  "good_value name val \<longleftrightarrow> 13 \<notin> set val \<and> (val = [] \<or> hd val \<noteq> 32)
     \<and> length name + length val + 2 \<le> MAX_HEADER_SIZE"

definition good_part :: "u8 list \<Rightarrow> form_part \<Rightarrow> bool" where
  "good_part boundary p \<longleftrightarrow> good_value (blit ''Content-Disposition'') (fp_disposition p)
     \<and> (case fp_ctype p of None \<Rightarrow> True | Some t \<Rightarrow> good_value (blit ''Content-Type'') t)
     \<and> find_seq (delimiter boundary) (fp_data p @ delimiter boundary) = Some (length (fp_data p))"

definition part_meaning :: "crates \<Rightarrow> charset \<Rightarrow> limits \<Rightarrow> form_part \<Rightarrow> form_error + rstr \<times> form_value" where
  "part_meaning X cs limits p =
     and_then (part_names X cs (Some (fp_disposition p))) (\<lambda>(name, fname).
       map_ok (\<lambda>v. (name, v)) (part_value cs limits fname (fp_ctype p) (fp_data p)))"

lemma written_header_append: "written_header name val @ r = name @ 58 # 32 # val @ 13 # 10 # r"
  by (simp add: written_header_def)

lemma header_line_written:
  assumes "list_all is_token name" "name \<noteq> []" "58 \<notin> set name" "good_value name val"
  shows "header_line (name @ 58 # 32 # val @ 13 # 10 # r) = Ok (Some (name, val, 10 # r))"
proof -
  let ?rest = "name @ 58 # 32 # val @ 13 # 10 # r"
  have c: "find_byte 58 ?rest = Some (length name)"
    using assms(3) unfolding find_byte_def by (rule position_split)
  have cr: "find_byte 13 (val @ 13 # 10 # r) = Some (length val)"
    using assms(4) unfolding find_byte_def good_value_def by (intro position_split) simp
  have "skip_spaces (val @ 13 # 10 # r) n = Ok (val @ 13 # 10 # r, n)" for n
    using assms(4) by (cases val) (auto simp: good_value_def)
  then have "skip_spaces (32 # val @ 13 # 10 # r) (Suc (length name))
      = Ok (val @ 13 # 10 # r, Suc (Suc (length name)))"
    using assms(4) by (simp add: good_value_def)
  moreover have "Suc (length name) \<le> MAX_HEADER_SIZE"
    "Suc (Suc (length name + length val)) \<le> MAX_HEADER_SIZE"
    using assms(4) by (simp_all add: good_value_def)
  ultimately show ?thesis
    using assms(1,2) by (simp add: header_line_def c cr Let_def not_less)
qed

lemma part_headers_written:
  assumes "list_all is_token name" "name \<noteq> []" "58 \<notin> set name" "good_value name val"
    "hd name \<noteq> 13" "n < MAX_HEADER_COUNT"
  shows "part_headers (written_header name val @ r) n kept
    = part_headers r (n + 1) (note_header name val kept)"
proof -
  let ?s = "name @ 58 # 32 # val @ 13 # 10 # r"
  obtain c cs where name: "name = c # cs" using assms(2) by (cases name) auto
  with assms(5) have s: "?s \<noteq> [13]" "?s \<noteq> []" "take 2 ?s \<noteq> [13, 10]" "hd ?s \<noteq> 13"
    by auto
  have n: "\<not> MAX_HEADER_COUNT < n + 1" using assms(6) by simp
  show ?thesis
    unfolding written_header_append part_headers.simps [of ?s]
      header_line_written [OF assms(1-4)]
    using s n by (simp del: append_Cons append_assoc)
qed

lemma part_headers_stop: "part_headers ([13, 10] @ r) n kept = Ok (Some (kept, r))"
  by (subst part_headers.simps) simp

lemma disposition_name:
  "list_all is_token (blit ''Content-Disposition'')" "58 \<notin> set (blit ''Content-Disposition'')"
  "blit ''Content-Disposition'' \<noteq> []" "hd (blit ''Content-Disposition'') \<noteq> 13"
  "note_header (blit ''Content-Disposition'') val kept = (Some val, snd kept)"
proof -
  have "eq_ignore_case_bytes (blit ''Content-Disposition'') (blit ''content-disposition'')"
    by code_simp
  then show "note_header (blit ''Content-Disposition'') val kept = (Some val, snd kept)"
    by (simp add: note_header_def)
qed (simp_all add: blit_def is_token_def ascii_defs)

lemma ctype_name:
  "list_all is_token (blit ''Content-Type'')" "58 \<notin> set (blit ''Content-Type'')"
  "blit ''Content-Type'' \<noteq> []" "hd (blit ''Content-Type'') \<noteq> 13"
  "note_header (blit ''Content-Type'') val (d, None) = (d, Some val)"
proof -
  have "\<not> eq_ignore_case_bytes (blit ''Content-Type'') (blit ''content-disposition'')"
    "eq_ignore_case_bytes (blit ''Content-Type'') (blit ''content-type'')"
    by code_simp+
  then show "note_header (blit ''Content-Type'') val (d, None) = (d, Some val)"
    by (simp add: note_header_def)
qed (simp_all add: blit_def is_token_def ascii_defs)

lemma written_headers_read:
  assumes "good_part boundary p"
  shows "part_headers (written_headers p @ r) 0 (None, None)
    = Ok (Some ((Some (fp_disposition p), fp_ctype p), r))"
proof -
  have d: "good_value (blit ''Content-Disposition'') (fp_disposition p)"
    using assms by (simp add: good_part_def)
  note D = part_headers_written [OF disposition_name(1,3,2) d disposition_name(4)]
  show ?thesis
  proof (cases "fp_ctype p")
    case None
    then show ?thesis
      by (simp add: written_headers_def D disposition_name MAX_HEADER_COUNT_def
          part_headers_stop [simplified])
  next
    case (Some t)
    with assms have t: "good_value (blit ''Content-Type'') t" by (simp add: good_part_def)
    show ?thesis
      by (simp add: written_headers_def D disposition_name MAX_HEADER_COUNT_def Some ctype_name
          part_headers_written [OF ctype_name(1,3,2) t ctype_name(4)] part_headers_stop [simplified])
  qed
qed

lemma find_seq_append: "find_seq needle s = Some p \<Longrightarrow> find_seq needle (s @ r) = Some p"
proof (induction needle s arbitrary: p rule: find_seq.induct)
  case (1 needle)
  then show ?case by (cases r) (auto simp: starts_with_def split: if_splits)
next
  case (2 needle b rest)
  show ?case
  proof (cases "starts_with needle (b # rest)")
    case True
    then have "starts_with needle ((b # rest) @ r)"
      using starts_with_iff [of needle "b # rest"] by (auto simp del: append_Cons)
    with True 2 show ?thesis by simp
  next
    case False
    with "2.prems" obtain q where q: "find_seq needle rest = Some q" "p = Suc q" by auto
    then have "q + length needle \<le> length rest" by (auto dest: find_seq_bound)
    then have "length needle \<le> length (b # rest)" by simp
    with False have "\<not> starts_with needle ((b # rest) @ r)"
      by (simp add: starts_with_def del: append_Cons)
    with False q "2.IH" [OF False q(1)] show ?thesis by simp
  qed
qed

lemma part_end_written:
  assumes "good_part boundary p"
  shows "part_end boundary (fp_data p @ delimiter boundary @ CRLF @ r) 0 = Some (length (fp_data p), False)"
    and "part_end boundary (fp_data p @ delimiter boundary @ [45, 45]) 0 = Some (length (fp_data p), True)"
proof -
  have f: "find_seq (delimiter boundary) (fp_data p @ delimiter boundary @ s) = Some (length (fp_data p))" for s
    using assms find_seq_append [of "delimiter boundary" "fp_data p @ delimiter boundary"]
    by (simp add: good_part_def)
  have g: "get_at (fp_data p @ delimiter boundary @ [x, y] @ s) (length (fp_data p) + length (delimiter boundary)) = Some x"
    "get_at (fp_data p @ delimiter boundary @ [x, y] @ s) (length (fp_data p) + length (delimiter boundary) + 1) = Some y"
    for x y s
    by (simp_all add: get_at_def nth_append)
  show "part_end boundary (fp_data p @ delimiter boundary @ CRLF @ r) 0 = Some (length (fp_data p), False)"
    using f [of "CRLF @ r"] g [of 13 10 r] by (subst part_end.simps) (simp add: Let_def)
  show "part_end boundary (fp_data p @ delimiter boundary @ [45, 45]) 0 = Some (length (fp_data p), True)"
    using f [of "[45, 45]"] g [of 45 45 "[]"] by (subst part_end.simps) (simp add: Let_def)
qed

lemma multipart_start_written: "multipart_start boundary ([45, 45] @ boundary @ CRLF @ r) = Ok (Some r)"
proof -
  have "expect_bytes es (es @ s) = Ok (Some s)" for es s by (induction es) auto
  from this [of "[45, 45] @ boundary" "CRLF @ r"] show ?thesis
    by (simp add: multipart_start_def delimiter_def)
qed

lemma parts_loop_written:
  assumes "ps \<noteq> []" "\<forall>p\<in>set ps. good_part boundary p" "try_map (part_meaning X cs limits) ps = Ok out"
    "\<not> exceeds (nfiles + n_files out) (max_files limits)"
    "\<not> exceeds (nfields + n_texts out) (max_fields limits)"
  shows "parts_loop X boundary cs limits (written_parts boundary ps) nfiles nfields items = Ok (items @ out)"
  using assms
proof (induction ps arbitrary: nfiles nfields items out)
  case (Cons p ps)
  from Cons.prems(3) obtain nv out' where nv: "part_meaning X cs limits p = Ok nv"
    "try_map (part_meaning X cs limits) ps = Ok out'" "out = nv # out'"
    by (auto simp: and_then_Inr_iff)
  from nv(1) obtain name fname v where m:
    "part_names X cs (Some (fp_disposition p)) = Ok (name, fname)"
    "part_value cs limits fname (fp_ctype p) (fp_data p) = Ok v" "nv = (name, v)"
    by (auto simp: part_meaning_def and_then_Inr_iff map_ok_Inr_iff)
  note out = nv(2,3) [unfolded m(3)]
  have good: "good_part boundary p" using Cons.prems(2) by simp
  have kind: "is_text v \<longleftrightarrow> fname = None" using part_value_kind [OF m(2)] by simp
  have n: "n_files out = (if fname \<noteq> None then 1 else 0) + n_files out'"
    "n_texts out = (if fname \<noteq> None then 0 else 1) + n_texts out'"
    using kind by (simp_all add: out(2) n_files_def n_texts_def)
  have "1 \<le> n_files out" if "fname \<noteq> None" using n(1) that by simp
  moreover have "1 \<le> n_texts out" if "fname = None" using n(2) that by simp
  ultimately have lim: "fname \<noteq> None \<longrightarrow> \<not> exceeds (nfiles + 1) (max_files limits)"
    "fname = None \<longrightarrow> \<not> exceeds (nfields + 1) (max_fields limits)"
    using Cons.prems(4,5) exceeds_mono add_le_mono1 nat_add_left_cancel_le by blast+
  let ?tail = "if ps = [] then [45, 45] else CRLF @ written_parts boundary ps"
  have e: "part_end boundary (fp_data p @ delimiter boundary @ ?tail) 0 = Some (length (fp_data p), ps = [])"
    using part_end_written [OF good] by simp
  have h: "part_headers (written_parts boundary (p # ps)) 0 (None, None)
      = Ok (Some ((Some (fp_disposition p), fp_ctype p), fp_data p @ delimiter boundary @ ?tail))"
    using written_headers_read [OF good] by simp
  have pv: "part_value cs limits fname (fp_ctype p)
      (take (length (fp_data p)) (fp_data p @ delimiter boundary @ ?tail)) = Ok v"
    using m(2) by simp
  have rest: "drop (length (fp_data p) + length (delimiter boundary) + 2)
      (fp_data p @ delimiter boundary @ ?tail) = written_parts boundary ps" if "ps \<noteq> []"
    using that by simp
  note step = parts_loop_part [OF h, unfolded fst_conv snd_conv, OF m(1) lim e pv]
  show ?case
  proof (cases "ps = []")
    case True
    then show ?thesis unfolding step using out by simp
  next
    case False
    then show ?thesis
      unfolding step if_not_P [OF False] rest [OF False, unfolded if_not_P [OF False]] using out
      by (subst Cons.IH [OF False _ out(1)]) (use Cons.prems n in auto)
  qed
qed simp

subsection \<open>Properties of the multipart parser\<close>

text \<open>C32: a multipart form of any number of parts reads back as its parts: written with the
  request's boundary, with a disposition and an optional content type per part and data in which
  the delimiter does not occur, the body parses to exactly the names, file names, content types
  and data of the parts, in order.\<close>

theorem multipart_roundtrip:
  assumes "ps \<noteq> []" "\<And>p. p \<in> set ps \<Longrightarrow> good_part boundary p"
    "try_map (part_meaning X cs limits) ps = Ok items"
    "\<not> exceeds (n_files items) (max_files limits)" "\<not> exceeds (n_texts items) (max_fields limits)"
  shows "multipart X (multipart_body boundary ps) boundary cs limits = Ok items"
  using parts_loop_written [of ps boundary X cs limits items 0 0 "[]"] assms
  by (simp add: multipart_def multipart_body_def multipart_start_written [simplified])

definition example_parts :: "form_part list" where
  "example_parts =
    [\<lparr>fp_disposition = blit ''form-data; name='' @ [34] @ blit ''to'' @ [34], fp_ctype = None,
       fp_data = blit ''a@x.de''\<rparr>,
     \<lparr>fp_disposition = blit ''form-data; name=attachment; filename='' @ [34] @ blit ''b;.txt'' @ [34],
       fp_ctype = Some (blit ''text/plain''), fp_data = [13, 10, 45, 45, 66, 0]\<rparr>]"

theorem multipart_roundtrip_witness:
  "multipart ascii_crates (multipart_body (blit ''BB'') example_parts) (blit ''BB'') CharsetUtf8 example_limits
   = Ok [(lit ''to'', Text (lit ''a@x.de'')),
         (lit ''attachment'', File \<lparr>filename = lit ''b;.txt'', up_content_type = Some (lit ''text/plain''),
            up_data = [13, 10, 45, 45, 66, 0]\<rparr>)]"
proof (rule multipart_roundtrip)
  show "example_parts \<noteq> []" by (simp add: example_parts_def)
  have "list_all (good_part (blit ''BB'')) example_parts" by code_simp
  then show "\<And>p. p \<in> set example_parts \<Longrightarrow> good_part (blit ''BB'') p" by (simp add: list_all_iff)
qed code_simp+

text \<open>An accepted multipart form respects the limits: at most \<open>max_files\<close> files when there is
  one, at most \<open>max_fields\<close> fields when there is one, and no field longer than \<open>max_part_size\<close>.\<close>

lemma multipart_limits:
  assumes "multipart X body boundary cs limits = Ok items"
  shows "(n_files items = 0 \<or> int (n_files items) \<le> max_files limits)
     \<and> (n_texts items = 0 \<or> int (n_texts items) \<le> max_fields limits)
     \<and> list_all (small_text limits \<circ> snd) items"
proof -
  have z: "n_files [] = 0" "n_texts [] = 0" by (simp_all add: n_files_def n_texts_def)
  from assms obtain r where "r = None \<and> items = [] \<or>
      (\<exists>rest. r = Some rest \<and> parts_loop X boundary cs limits rest 0 0 [] = Ok items)"
    by (auto simp: multipart_def and_then_Inr_iff split: option.splits)
  then show ?thesis
    using parts_loop_limits [of X boundary cs limits _ 0 0 "[]" items] z by auto
qed

end
