(* ===== verification/Mime_Types.thy ===== *)
theory Mime_Types
  imports Address
begin

text \<open>
  The data \<open>rust/src/mime.rs\<close> takes and returns: the uploaded files, the validated request, and the
  built message with its envelope.
\<close>

record attachment =
  att_filename :: rstr
  att_content_type :: rstr
  att_data :: "u8 list"

record message_input =
  in_from :: mailbox
  in_to :: "rstr list"
  in_cc :: "rstr list"
  in_bcc :: "rstr list"
  in_subject :: rstr
  in_text :: "rstr option"
  in_html :: "rstr option"
  in_amp_html :: "rstr option"
  in_headers :: "(rstr \<times> rstr) list"
  in_attachments :: "attachment list"
  in_inline :: "attachment list"
  in_public_host :: rstr

record built_message =
  message_id :: rstr
  envelope :: "rstr list"
  formatted :: "u8 list"

datatype invalid_message = InvalidMessage

end
