(* ===== verification/Regex.thy ===== *)
theory Regex
  imports Prelude
begin

text \<open>
  The regular expressions of \<open>rust/src/yaml.rs\<close> (the fragment of the \<open>regex\<close> crate's syntax they
  use: classes, alternation, concatenation and repetition, anchored at both ends).  \<open>lang\<close> is
  what an expression denotes; \<open>full_match\<close> decides it by derivatives, shown equivalent in
  \<open>full_match_lang\<close>.
\<close>

datatype rexp =
    Empty_Set
  | Empty_Word
  | Class "(rchar \<times> rchar) list"
  | Alt rexp rexp
  | Cat rexp rexp
  | Star rexp

definition in_class :: "(rchar \<times> rchar) list \<Rightarrow> rchar \<Rightarrow> bool" where
  "in_class ranges c \<longleftrightarrow> list_ex (\<lambda>(lo, hi). lo \<le> c \<and> c \<le> hi) ranges"

inductive_set star_lang :: "rstr set \<Rightarrow> rstr set" for A :: "rstr set" where
  star_Nil: "[] \<in> star_lang A"
| star_step: "u \<in> A \<Longrightarrow> v \<in> star_lang A \<Longrightarrow> u @ v \<in> star_lang A"

fun lang :: "rexp \<Rightarrow> rstr set" where
  "lang Empty_Set = {}"
| "lang Empty_Word = {[]}"
| "lang (Class ranges) = {[c] | c. in_class ranges c}"
| "lang (Alt a b) = lang a \<union> lang b"
| "lang (Cat a b) = {u @ v | u v. u \<in> lang a \<and> v \<in> lang b}"
| "lang (Star a) = star_lang (lang a)"

fun nullable :: "rexp \<Rightarrow> bool" where
  "nullable Empty_Set = False"
| "nullable Empty_Word = True"
| "nullable (Class ranges) = False"
| "nullable (Alt a b) = (nullable a \<or> nullable b)"
| "nullable (Cat a b) = (nullable a \<and> nullable b)"
| "nullable (Star a) = True"

text \<open>Constructors that drop what cannot match.\<close>

definition mk_alt :: "rexp \<Rightarrow> rexp \<Rightarrow> rexp" where
  "mk_alt a b = (if a = Empty_Set then b else if b = Empty_Set then a else Alt a b)"

definition mk_cat :: "rexp \<Rightarrow> rexp \<Rightarrow> rexp" where
  "mk_cat a b = (if a = Empty_Set then Empty_Set else if a = Empty_Word then b else Cat a b)"

fun deriv :: "rchar \<Rightarrow> rexp \<Rightarrow> rexp" where
  "deriv c Empty_Set = Empty_Set"
| "deriv c Empty_Word = Empty_Set"
| "deriv c (Class ranges) = (if in_class ranges c then Empty_Word else Empty_Set)"
| "deriv c (Alt a b) = mk_alt (deriv c a) (deriv c b)"
| "deriv c (Cat a b) =
     (if nullable a then mk_alt (mk_cat (deriv c a) b) (deriv c b) else mk_cat (deriv c a) b)"
| "deriv c (Star a) = mk_cat (deriv c a) (Star a)"

fun full_match :: "rexp \<Rightarrow> rstr \<Rightarrow> bool" where
  "full_match r [] = nullable r"
| "full_match r (c # s) = full_match (deriv c r) s"

declare full_match.simps [simp del]

text \<open>Abbreviations for the source's notation.\<close>

definition chr :: "rchar \<Rightarrow> rexp" where "chr c = Class [(c, c)]"
definition opt :: "rexp \<Rightarrow> rexp" where "opt r = Alt r Empty_Word"
definition plus1 :: "rexp \<Rightarrow> rexp" where "plus1 r = Cat r (Star r)"

fun cats :: "rexp list \<Rightarrow> rexp" where
  "cats [] = Empty_Word"
| "cats [r] = r"
| "cats (r # s # rs) = Cat r (cats (s # rs))"

fun alts :: "rexp list \<Rightarrow> rexp" where
  "alts [] = Empty_Set"
| "alts [r] = r"
| "alts (r # s # rs) = Alt r (alts (s # rs))"

definition word :: "rstr \<Rightarrow> rexp" where "word s = cats (map chr s)"
definition words :: "string list \<Rightarrow> rexp" where "words ws = alts (map (\<lambda>w. word (lit w)) ws)"

subsection \<open>The matcher decides the language\<close>

lemma nullable_lang: "nullable r \<longleftrightarrow> [] \<in> lang r"
  by (induction r) (auto intro: star_Nil)

lemma lang_mk_alt [simp]: "lang (mk_alt a b) = lang a \<union> lang b"
  by (auto simp: mk_alt_def)

lemma lang_mk_cat [simp]: "lang (mk_cat a b) = {u @ v | u v. u \<in> lang a \<and> v \<in> lang b}"
  by (auto simp: mk_cat_def)

lemma star_lang_Cons:
  "c # s \<in> star_lang A \<longleftrightarrow> (\<exists>u v. s = u @ v \<and> c # u \<in> A \<and> v \<in> star_lang A)"
proof
  assume "c # s \<in> star_lang A"
  then show "\<exists>u v. s = u @ v \<and> c # u \<in> A \<and> v \<in> star_lang A"
  proof (induction "c # s" arbitrary: s rule: star_lang.induct)
    case (star_step u v)
    then show ?case by (cases u) auto
  qed
next
  assume "\<exists>u v. s = u @ v \<and> c # u \<in> A \<and> v \<in> star_lang A"
  then obtain u v where "s = u @ v" "c # u \<in> A" "v \<in> star_lang A" by blast
  then show "c # s \<in> star_lang A" using star_lang.star_step [of "c # u" A v] by simp
qed

lemma Cons_in_Cat:
  "c # s \<in> {u @ v | u v. u \<in> A \<and> v \<in> B} \<longleftrightarrow>
     [] \<in> A \<and> c # s \<in> B \<or> (\<exists>u v. s = u @ v \<and> c # u \<in> A \<and> v \<in> B)"
  by (auto simp: Cons_eq_append_conv)

lemma deriv_lang: "s \<in> lang (deriv c r) \<longleftrightarrow> c # s \<in> lang r"
proof (induction r arbitrary: s)
  case (Cat a b)
  then show ?case
    unfolding lang.simps Cons_in_Cat by (auto simp: nullable_lang)
next
  case (Star a)
  then show ?case by (auto simp: star_lang_Cons)
qed auto

theorem full_match_lang: "full_match r s \<longleftrightarrow> s \<in> lang r"
  by (induction r s rule: full_match.induct) (simp_all add: full_match.simps nullable_lang deriv_lang)

lemma star_class:
  "list_all (in_class ranges) s \<Longrightarrow> s \<in> star_lang (lang (Class ranges))"
proof (induction s)
  case (Cons c s)
  then show ?case using star_step [of "[c]" "lang (Class ranges)" s] by auto
qed (simp add: star_Nil)

lemma lang_cats_Cons: "lang (cats (r # rs)) = {u @ v | u v. u \<in> lang r \<and> v \<in> lang (cats rs)}"
  by (cases rs) auto

lemma lang_alts: "lang (alts rs) = (\<Union>r\<in>set rs. lang r)"
  by (induction rs rule: alts.induct) auto

lemma lang_word [simp]: "lang (word s) = {s}"
proof (induction s)
  case (Cons c s)
  have "lang (word (c # s)) = {u @ v | u v. u \<in> lang (chr c) \<and> v \<in> lang (word s)}"
    unfolding word_def list.map by (rule lang_cats_Cons)
  then show ?case using Cons by (auto simp: chr_def in_class_def)
qed (simp add: word_def)

lemma lang_words [simp]: "lang (words ws) = lit ` set ws"
  by (auto simp: words_def lang_alts)

end
