(* ===== verification/Yaml.thy ===== *)
theory Yaml
  imports Regex Utf8
begin

text \<open>
  \<open>rust/src/yaml.rs\<close>: the YAML 1.1 subset of the secrets file.  The scanner and the event parser are
  the crate \<open>yaml-rust2\<close>: the tokens and events of a text are the parameter \<open>yaml_rust2\<close>.  The
  module's own work is modelled in full: the implicit types of plain scalars with PyYAML's
  regular expressions, the refusals, and the loop that builds the tree from the events on an
  explicit stack.  \<open>Rc\<close> sharing of immutable nodes is invisible in the values.
\<close>

definition MAX_DEPTH :: nat where "MAX_DEPTH = 64"

datatype node =
    Str rstr
  | Null
  | Other rstr
  | Seq "node list"
  | Map "(rstr option \<times> node) list"

definition get_entry :: "node \<Rightarrow> rstr \<Rightarrow> node option" where
  "get_entry n key =
     (case n of
        Map entries \<Rightarrow> map_option snd (find (\<lambda>(k, _). k = Some key) (rev entries))
      | _ \<Rightarrow> None)"

definition type_name :: "node \<Rightarrow> rstr" where
  "type_name n =
     (case n of Str _ \<Rightarrow> lit ''str'' | Null \<Rightarrow> lit ''null'' | Other name \<Rightarrow> name
      | Seq _ \<Rightarrow> lit ''list'' | Map _ \<Rightarrow> lit ''mapping'')"

subsection \<open>Implicit types\<close>

definition digit :: rexp where "digit = Class [(48, 57)]"
definition digit_us :: rexp where "digit_us = Class [(48, 57), (95, 95)]"
definition sign :: rexp where "sign = opt (Class [(45, 45), (43, 43)])"
definition exponent :: rexp where
  "exponent = opt (cats [Class [(101, 101), (69, 69)], Class [(45, 45), (43, 43)], plus1 digit])"
definition sexagesimal :: rexp where
  "sexagesimal = plus1 (cats [chr 58, opt (Class [(48, 53)]), digit])"
definition blanks :: rexp where "blanks = Class [(32, 32), (9, 9)]"

definition RE_BOOL :: rexp where
  "RE_BOOL = words [''yes'', ''Yes'', ''YES'', ''no'', ''No'', ''NO'', ''true'', ''True'', ''TRUE'',
     ''false'', ''False'', ''FALSE'', ''on'', ''On'', ''ON'', ''off'', ''Off'', ''OFF'']"

definition RE_FLOAT :: rexp where
  "RE_FLOAT = alts
    [cats [sign, Cat digit (Star digit_us), chr 46, Star digit_us, exponent],
     cats [chr 46, digit, Star digit_us, exponent],
     cats [sign, digit, Star digit_us, sexagesimal, chr 46, Star digit_us],
     cats [sign, chr 46, words [''inf'', ''Inf'', ''INF'']],
     cats [chr 46, words [''nan'', ''NaN'', ''NAN'']]]"

definition RE_INT :: rexp where
  "RE_INT = alts
    [cats [sign, word (lit ''0b''), plus1 (Class [(48, 49), (95, 95)])],
     cats [sign, chr 48, plus1 (Class [(48, 55), (95, 95)])],
     cats [sign, Alt (chr 48) (Cat (Class [(49, 57)]) (Star digit_us))],
     cats [sign, word (lit ''0x''), plus1 (Class [(48, 57), (97, 102), (65, 70), (95, 95)])],
     cats [sign, Class [(49, 57)], Star digit_us, sexagesimal]]"

definition RE_NULL :: rexp where
  "RE_NULL = alts [words [''~'', ''null'', ''Null'', ''NULL''], Empty_Word]"

definition RE_TIMESTAMP :: rexp where
  "RE_TIMESTAMP = alts
    [cats [digit, digit, digit, digit, chr 45, digit, digit, chr 45, digit, digit],
     cats [digit, digit, digit, digit, chr 45, digit, opt digit, chr 45, digit, opt digit,
       Alt (Class [(84, 84), (116, 116)]) (plus1 blanks),
       digit, opt digit, chr 58, digit, digit, chr 58, digit, digit,
       opt (Cat (chr 46) (Star digit)),
       opt (Cat (Star blanks) (Alt (chr 90)
         (cats [Class [(45, 45), (43, 43)], digit, opt digit, opt (cats [chr 58, digit, digit])])))]]"

text \<open>
  The groups of \<open>TIMESTAMP_PARTS\<close>: year, month, day, hour, minute, second, and the hours and
  minutes of the offset, a group that did not take part being 0.  Every group is a maximal run
  of digits, so there is one way to match.
\<close>

definition digits_of :: "rstr \<Rightarrow> nat \<Rightarrow> nat \<Rightarrow> (nat \<times> rstr) option" where
  "digits_of s lo hi =
     (let run = takeWhile is_ascii_digit s
      in if lo \<le> length run \<and> length run \<le> hi
         then Some (digits_value run, dropWhile is_ascii_digit s) else None)"

definition after_char :: "rchar \<Rightarrow> rstr \<Rightarrow> rstr option" where
  "after_char c s = (case s of [] \<Rightarrow> None | d # r \<Rightarrow> if d = c then Some r else None)"

definition is_blank :: "rchar \<Rightarrow> bool" where "is_blank c \<longleftrightarrow> c = 32 \<or> c = 9"

definition timestamp_offset :: "rstr \<Rightarrow> (nat \<times> nat) option" where
  "timestamp_offset s =
     (if s = [] then Some (0, 0)
      else (case dropWhile is_blank s of
              [] \<Rightarrow> None
            | c # r \<Rightarrow>
                if c = 90 then (if r = [] then Some (0, 0) else None)
                else if c = 45 \<or> c = 43 then
                  Option.bind (digits_of r 1 2) (\<lambda>(hh, r).
                    if r = [] then Some (hh, 0)
                    else Option.bind (after_char 58 r) (\<lambda>r.
                      Option.bind (digits_of r 2 2) (\<lambda>(mm, r).
                        if r = [] then Some (hh, mm) else None)))
                else None))"

definition timestamp_time :: "rstr \<Rightarrow> (nat \<times> nat \<times> nat \<times> nat \<times> nat) option" where
  "timestamp_time s =
     (if s = [] then Some (0, 0, 0, 0, 0)
      else
        Option.bind
          (if hd s = 84 \<or> hd s = 116 then Some (tl s)
           else if is_blank (hd s) then Some (dropWhile is_blank s) else None) (\<lambda>r.
        Option.bind (digits_of r 1 2) (\<lambda>(h, r). Option.bind (after_char 58 r) (\<lambda>r.
        Option.bind (digits_of r 2 2) (\<lambda>(mi, r). Option.bind (after_char 58 r) (\<lambda>r.
        Option.bind (digits_of r 2 2) (\<lambda>(sec, r).
          (let r' = (case after_char 46 r of Some f \<Rightarrow> dropWhile is_ascii_digit f | None \<Rightarrow> r)
           in map_option (\<lambda>(oh, om). (h, mi, sec, oh, om)) (timestamp_offset r')))))))))"

definition timestamp_parts ::
  "rstr \<Rightarrow> ((nat \<times> nat \<times> nat) \<times> (nat \<times> nat \<times> nat \<times> nat \<times> nat)) option" where
  "timestamp_parts s =
     Option.bind (digits_of s 4 4) (\<lambda>(y, r). Option.bind (after_char 45 r) (\<lambda>r.
     Option.bind (digits_of r 1 2) (\<lambda>(m, r). Option.bind (after_char 45 r) (\<lambda>r.
     Option.bind (digits_of r 1 2) (\<lambda>(d, r).
       map_option (\<lambda>t. ((y, m, d), t)) (timestamp_time r))))))"

definition month_days :: "nat \<Rightarrow> nat \<Rightarrow> nat option" where
  "month_days year month =
     (let leap = (year mod 4 = 0 \<and> (year mod 100 \<noteq> 0 \<or> year mod 400 = 0))
      in if month \<in> {1, 3, 5, 7, 8, 10, 12} then Some 31
         else if month \<in> {4, 6, 9, 11} then Some 30
         else if month = 2 then Some (if leap then 29 else 28)
         else None)"

definition timestamp_is_valid :: "rstr \<Rightarrow> bool" where
  "timestamp_is_valid val =
     (case timestamp_parts val of
        None \<Rightarrow> False
      | Some ((year, month, day), (h, mi, sec, oh, om)) \<Rightarrow>
          (case month_days year month of
             None \<Rightarrow> False
           | Some days \<Rightarrow> (1 \<le> year \<and> year \<le> 9999 \<and> 1 \<le> day \<and> day \<le> days)
               \<and> (h \<le> 23 \<and> mi \<le> 59 \<and> sec \<le> 59) \<and> oh * 60 + om < 24 * 60))"

definition resolve_plain :: "rstr \<Rightarrow> rstr + node" where
  "resolve_plain val =
     (if full_match RE_NULL val then Ok Null
      else if full_match RE_BOOL val then Ok (Other (lit ''bool''))
      else if full_match RE_FLOAT val then Ok (Other (lit ''float''))
      else if full_match RE_INT val then
        (let digits = filter (\<lambda>c. c \<noteq> 95) (trim_start_matches (\<lambda>c. c = 45 \<or> c = 43) val)
         in if digits = lit ''0b'' \<or> digits = lit ''0x'' then Err (lit ''unconstructible int scalar'')
            else
              (let power_of_two_base = starts_with (lit ''0b'') digits \<or> starts_with (lit ''0x'') digits
                     \<or> starts_with (lit ''0'') digits \<and> byte_len digits > 1 \<and> 58 \<notin> set digits
               in if \<not> power_of_two_base \<and> list_ex (\<lambda>part. byte_len part > 4300) (split_at_char 58 digits)
                  then Err (lit ''int scalar exceeds Python'' @ [39] @ lit ''s 4300-digit limit'')
                  else Ok (Other (lit ''int''))))
      else if full_match RE_TIMESTAMP val then
        (if \<not> timestamp_is_valid val then Err (lit ''invalid timestamp scalar'')
         else Ok (Other (lit ''timestamp'')))
      else if val = lit ''<<'' then Err (lit ''merge keys are not supported (PLAN.md D-6)'')
      else if val = lit ''='' then Err (lit ''the YAML 1.1 value type `=` cannot be constructed'')
      else Ok (Str val))"

subsection \<open>Characters and tokens\<close>

definition is_printable :: "rchar \<Rightarrow> bool" where
  "is_printable c \<longleftrightarrow> c = 10 \<or> c = 13 \<or> 0x20 \<le> c \<and> c \<le> 0x7E \<or> 0xA0 \<le> c \<and> c \<le> 0x2027
     \<or> 0x202A \<le> c \<and> c \<le> 0xD7FF \<or> 0xE000 \<le> c \<and> c \<le> 0xFFFD \<or> 0x10000 \<le> c"

fun check_characters_from :: "nat \<Rightarrow> rstr \<Rightarrow> rstr + unit" where
  "check_characters_from index [] = Ok ()"
| "check_characters_from index (c # rest) =
     (if \<not> is_printable c \<or> c = 0xFEFF \<and> index > 0
      then Err (lit ''unsupported character at byte '' @ show_nat index @ lit '' (PLAN.md D-6)'')
      else check_characters_from (index + length (utf8_char c)) rest)"

definition check_characters :: "rstr \<Rightarrow> rstr + unit" where
  "check_characters t = check_characters_from 0 t"

datatype yaml_token = AnchorToken rstr | DirectiveToken | OtherToken

fun check_tokens_seen :: "rstr set \<Rightarrow> yaml_token list \<Rightarrow> rstr + unit" where
  "check_tokens_seen seen [] = Ok ()"
| "check_tokens_seen seen (AnchorToken name # toks) =
     (if name \<in> seen then Err (lit ''duplicate anchor'')
      else check_tokens_seen (insert name seen) toks)"
| "check_tokens_seen seen (DirectiveToken # toks) =
     Err (lit ''YAML directives are not supported (PLAN.md D-6)'')"
| "check_tokens_seen seen (OtherToken # toks) = check_tokens_seen seen toks"

definition check_tokens :: "yaml_token list \<Rightarrow> rstr + unit" where
  "check_tokens toks = check_tokens_seen {} toks"

subsection \<open>The event loop\<close>

type_synonym tag = "rstr \<times> rstr"

datatype event =
    DocumentStart
  | SequenceStart nat "tag option"
  | MappingStart nat "tag option"
  | SequenceEnd
  | MappingEnd
  | Scalar rstr bool nat "tag option"  \<comment> \<open>the value, whether its style is plain, anchor, tag\<close>
  | Alias nat
  | OtherEvent

text \<open>
  What the event parser delivers: events with their lines, then either the end of the stream
  (\<open>None\<close>) or an error at a line and column.
\<close>

record event_stream =
  stream_events :: "(event \<times> nat) list"
  stream_error :: "(nat \<times> nat) option"

record yaml_rust2 =
  scan_tokens :: "rstr \<Rightarrow> yaml_token list"
  parse_events :: "rstr \<Rightarrow> event_stream"

definition is_str_tag :: "tag \<Rightarrow> bool" where
  "is_str_tag t \<longleftrightarrow> fst t @ snd t = lit ''tag:yaml.org,2002:str''"

datatype frame =
    FSeq nat "node list"
  | FMap nat "(rstr option \<times> node) list" "rstr option option"

record builder =
  anchors :: "nat \<Rightarrow> node option"
  stack :: "frame list"  \<comment> \<open>the top of the stack first\<close>
  documents :: nat
  doc_root :: "node option"

definition at_line :: "string \<Rightarrow> nat \<Rightarrow> rstr" where
  "at_line what line = lit what @ lit '' at line '' @ show_nat line"

text \<open>A finished node goes to its anchor and into the open collection.\<close>

definition add_node :: "node \<Rightarrow> nat \<Rightarrow> builder \<Rightarrow> rstr + builder" where
  "add_node n anchor b =
     (let b' = (if anchor \<noteq> 0 then b\<lparr>anchors := (anchors b)(anchor \<mapsto> n)\<rparr> else b)
      in case stack b' of
           [] \<Rightarrow> Ok (b'\<lparr>doc_root := Some n\<rparr>)
         | FSeq a items # fs \<Rightarrow> Ok (b'\<lparr>stack := FSeq a (items @ [n]) # fs\<rparr>)
         | FMap a entries (Some key) # fs \<Rightarrow>
             Ok (b'\<lparr>stack := FMap a (entries @ [(key, n)]) None # fs\<rparr>)
         | FMap a entries None # fs \<Rightarrow>
             (case n of
                Str key \<Rightarrow> Ok (b'\<lparr>stack := FMap a entries (Some (Some key)) # fs\<rparr>)
              | Null \<Rightarrow> Ok (b'\<lparr>stack := FMap a entries (Some None) # fs\<rparr>)
              | Other _ \<Rightarrow> Ok (b'\<lparr>stack := FMap a entries (Some None) # fs\<rparr>)
              | _ \<Rightarrow> Err (lit ''collection used as a mapping key'')))"

definition start_collection :: "tag option \<Rightarrow> nat \<Rightarrow> frame \<Rightarrow> builder \<Rightarrow> rstr + builder" where
  "start_collection tag line frame b =
     (if tag \<noteq> None then Err (at_line ''unsupported tag'' line)
      else if length (stack b) \<ge> MAX_DEPTH then Err (lit ''nesting too deep'')
      else Ok (b\<lparr>stack := frame # stack b\<rparr>))"

definition end_collection :: "builder \<Rightarrow> rstr + builder" where
  "end_collection b =
     (case stack b of
        FSeq a items # fs \<Rightarrow> add_node (Seq items) a (b\<lparr>stack := fs\<rparr>)
      | FMap a entries None # fs \<Rightarrow> add_node (Map entries) a (b\<lparr>stack := fs\<rparr>)
      | _ \<Rightarrow> Err (lit ''unbalanced YAML events''))"

definition expects_key :: "builder \<Rightarrow> bool" where
  "expects_key b = (case stack b of FMap _ _ None # _ \<Rightarrow> True | _ \<Rightarrow> False)"

definition scalar_node :: "rstr \<Rightarrow> bool \<Rightarrow> tag option \<Rightarrow> nat \<Rightarrow> rstr + node" where
  "scalar_node val plain tag line =
     (case tag of
        Some t \<Rightarrow> if is_str_tag t then Ok (Str val) else Err (at_line ''unsupported tag'' line)
      | None \<Rightarrow> if plain then resolve_plain val else Ok (Str val))"

fun yaml_step :: "event \<times> nat \<Rightarrow> builder \<Rightarrow> rstr + builder" where
  "yaml_step (DocumentStart, line) b =
     (let n = documents b + 1
      in if n > 1 then Err (lit ''expected a single document'') else Ok (b\<lparr>documents := n\<rparr>))"
| "yaml_step (SequenceStart anchor tag, line) b = start_collection tag line (FSeq anchor []) b"
| "yaml_step (MappingStart anchor tag, line) b = start_collection tag line (FMap anchor [] None) b"
| "yaml_step (SequenceEnd, line) b = end_collection b"
| "yaml_step (MappingEnd, line) b = end_collection b"
| "yaml_step (Scalar val plain anchor tag, line) b =
     (if expects_key b \<and> val = [] \<and> plain \<and> tag = None then Err (at_line ''empty mapping key'' line)
      else and_then (scalar_node val plain tag line) (\<lambda>n. add_node n anchor b))"
| "yaml_step (Alias i, line) b =
     (case anchors b i of
        Some n \<Rightarrow> add_node n 0 b
      | None \<Rightarrow> Err (lit ''alias to an unfinished node''))"
| "yaml_step (OtherEvent, line) b = Ok b"

fun yaml_steps :: "(event \<times> nat) list \<Rightarrow> builder \<Rightarrow> rstr + builder" where
  "yaml_steps [] b = Ok b"
| "yaml_steps (e # es) b = and_then (yaml_step e b) (yaml_steps es)"

definition empty_builder :: builder where
  "empty_builder = \<lparr>anchors = (\<lambda>_. None), stack = [], documents = 0, doc_root = None\<rparr>"

definition yaml_parse :: "yaml_rust2 \<Rightarrow> rstr \<Rightarrow> rstr + node" where
  "yaml_parse Y input =
     (let t = map (\<lambda>c. if c = CR then LF else c) (replace_all [CR, LF] [LF] input);
          t' = (case strip_prefix [0xFEFF] t of Some r \<Rightarrow> r | None \<Rightarrow> t)
      in and_then (check_characters t') (\<lambda>_.
         and_then (check_tokens (scan_tokens Y t')) (\<lambda>_.
         and_then (yaml_steps (stream_events (parse_events Y t')) empty_builder) (\<lambda>b.
           (case stream_error (parse_events Y t') of
              Some (line, col) \<Rightarrow>
                Err (lit ''not valid YAML at line '' @ show_nat line @ lit '' column '' @ show_nat (col + 1))
            | None \<Rightarrow> Ok (case doc_root b of Some n \<Rightarrow> n | None \<Rightarrow> Null))))))"

subsection \<open>The states of the loop\<close>

text \<open>The states the loop can reach, as a transition system.\<close>

inductive reachable :: "builder \<Rightarrow> bool" where
  start: "reachable empty_builder"
| step: "reachable b \<Longrightarrow> yaml_step e b = Ok b' \<Longrightarrow> reachable b'"

lemma yaml_steps_reachable: "yaml_steps es b = Ok b' \<Longrightarrow> reachable b \<Longrightarrow> reachable b'"
  by (induction es b rule: yaml_steps.induct) (auto simp: and_then_Inr_iff intro: reachable.step)

lemma yaml_steps_append: "yaml_steps (xs @ ys) b = and_then (yaml_steps xs b) (yaml_steps ys)"
proof (induction xs arbitrary: b)
  case (Cons x xs)
  then show ?case by (cases "yaml_step x b") auto
qed simp

lemma add_node_frame:
  "add_node n a b = Ok b' \<Longrightarrow> length (stack b') = length (stack b) \<and> documents b' = documents b"
  by (auto simp: add_node_def Let_def split: list.splits frame.splits option.splits node.splits if_splits)

lemma end_collection_frame:
  "end_collection b = Ok b' \<Longrightarrow> length (stack b') < length (stack b) \<and> documents b' = documents b"
  by (auto simp: end_collection_def split: list.splits frame.splits option.splits dest!: add_node_frame)

lemma yaml_step_frame:
  assumes "yaml_step e b = Ok b'" "length (stack b) \<le> MAX_DEPTH" "documents b \<le> 1"
  shows "length (stack b') \<le> MAX_DEPTH \<and> documents b' \<le> 1"
  using assms
  by (cases "(e, b)" rule: yaml_step.cases)
    (auto simp: Let_def start_collection_def and_then_Inr_iff
      split: if_splits option.splits dest!: add_node_frame end_collection_frame)

lemma reachable_frame: "reachable b \<Longrightarrow> length (stack b) \<le> MAX_DEPTH \<and> documents b \<le> 1"
proof (induction rule: reachable.induct)
  case start
  then show ?case by (simp add: empty_builder_def)
next
  case (step b e b')
  then show ?case using yaml_step_frame by blast
qed

subsection \<open>Writing a tree as events\<close>

fun events_of :: "node \<Rightarrow> event list" where
  "events_of (Str s) = [Scalar s False 0 None]"
| "events_of Null = [Scalar (lit ''null'') True 0 None]"
| "events_of (Other name) = [Scalar (lit ''true'') True 0 None]"
| "events_of (Seq items) = SequenceStart 0 None # concat (map events_of items) @ [SequenceEnd]"
| "events_of (Map entries) = MappingStart 0 None
     # concat (map (\<lambda>(k, n). Scalar (the k) False 0 None # events_of n) entries) @ [MappingEnd]"

fun depth :: "node \<Rightarrow> nat" where
  "depth (Seq items) = Suc (Max (set (0 # map depth items)))"
| "depth (Map entries) = Suc (Max (set (0 # map (\<lambda>(k, n). depth n) entries)))"
| "depth _ = 0"

text \<open>Trees of strings, nulls, booleans, lists and mappings with string keys.\<close>

fun plain_tree :: "node \<Rightarrow> bool" where
  "plain_tree (Str s) \<longleftrightarrow> True"
| "plain_tree Null \<longleftrightarrow> True"
| "plain_tree (Other name) \<longleftrightarrow> name = lit ''bool''"
| "plain_tree (Seq items) \<longleftrightarrow> list_all plain_tree items"
| "plain_tree (Map entries) \<longleftrightarrow> list_all (\<lambda>(k, n). k \<noteq> None \<and> plain_tree n) entries"

abbreviation on_line :: "nat \<Rightarrow> event list \<Rightarrow> (event \<times> nat) list" where
  "on_line l es \<equiv> map (\<lambda>e. (e, l)) es"

lemma resolve_null: "resolve_plain (lit ''null'') = Ok Null"
  by (simp add: resolve_plain_def full_match_lang RE_NULL_def lang_alts)

lemma resolve_true: "resolve_plain (lit ''true'') = Ok (Other (lit ''bool''))"
proof -
  have "lit ''true'' \<notin> lit ` set [''~'', ''null'', ''Null'', ''NULL'']" "lit ''true'' \<noteq> []"
    by (simp_all add: lit_def)
  then have "\<not> full_match RE_NULL (lit ''true'')"
    unfolding full_match_lang RE_NULL_def alts.simps lang.simps lang_words by simp
  moreover have "full_match RE_BOOL (lit ''true'')"
    unfolding full_match_lang RE_BOOL_def lang_words by (rule imageI) simp
  ultimately show ?thesis by (simp add: resolve_plain_def)
qed

lemma and_then_no_steps [simp]: "and_then r (yaml_steps []) = r"
  by (cases r) auto

lemma depth_item: "x \<in> set items \<Longrightarrow> depth x < depth (Seq items)"
  by (auto simp: less_Suc_eq_le intro!: Max_ge)

lemma depth_entry: "(k, n) \<in> set entries \<Longrightarrow> depth n < depth (Map entries)"
  by (auto simp: less_Suc_eq_le intro!: Max_ge rev_image_eqI)

text \<open>The events of a subtree add that subtree to the open collection.\<close>

definition builds :: "nat \<Rightarrow> node \<Rightarrow> bool" where
  "builds line n \<longleftrightarrow> (\<forall>b. \<not> expects_key b \<longrightarrow> length (stack b) + depth n \<le> MAX_DEPTH \<longrightarrow>
     yaml_steps (on_line line (events_of n)) b = add_node n 0 b)"

lemma seq_items:
  assumes "\<And>x. x \<in> set items \<Longrightarrow> builds line x"
    "\<And>x. x \<in> set items \<Longrightarrow> Suc (length fs) + depth x \<le> MAX_DEPTH" "stack b = FSeq 0 done # fs"
  shows "yaml_steps (on_line line (concat (map events_of items))) b
    = Ok (b\<lparr>stack := FSeq 0 (done @ items) # fs\<rparr>)"
  using assms
proof (induction items arbitrary: b "done")
  case Nil
  then show ?case by (cases b) simp
next
  case (Cons x items)
  let ?b = "b\<lparr>stack := FSeq 0 (done @ [x]) # fs\<rparr>"
  have "add_node x 0 b = Ok ?b" using Cons.prems(3) by (simp add: add_node_def)
  moreover have "\<not> expects_key b" "length (stack b) + depth x \<le> MAX_DEPTH"
    using Cons.prems by (auto simp: expects_key_def)
  ultimately have "yaml_steps (on_line line (events_of x)) b = Ok ?b"
    using Cons.prems(1) [of x] by (simp add: builds_def)
  moreover have "yaml_steps (on_line line (concat (map events_of items))) ?b
      = Ok (?b\<lparr>stack := FSeq 0 ((done @ [x]) @ items) # fs\<rparr>)"
    using Cons.prems by (intro Cons.IH) auto
  ultimately show ?case by (simp add: yaml_steps_append)
qed

lemma map_entries:
  assumes "\<And>k n. (k, n) \<in> set entries \<Longrightarrow> builds line n \<and> k \<noteq> None"
    "\<And>k n. (k, n) \<in> set entries \<Longrightarrow> Suc (length fs) + depth n \<le> MAX_DEPTH"
    "stack b = FMap 0 done None # fs"
  shows "yaml_steps (on_line line
      (concat (map (\<lambda>(k, n). Scalar (the k) False 0 None # events_of n) entries))) b
    = Ok (b\<lparr>stack := FMap 0 (done @ entries) None # fs\<rparr>)"
  using assms
proof (induction entries arbitrary: b "done")
  case Nil
  then show ?case by (cases b) simp
next
  case (Cons e entries)
  obtain key n where e: "e = (Some key, n)"
    using Cons.prems(1) by (cases e) fastforce
  let ?k = "b\<lparr>stack := FMap 0 done (Some (Some key)) # fs\<rparr>"
  let ?b = "b\<lparr>stack := FMap 0 (done @ [e]) None # fs\<rparr>"
  have k: "yaml_step (Scalar key False 0 None, line) b = Ok ?k"
    using Cons.prems(3) by (simp add: scalar_node_def add_node_def)
  have "add_node n 0 ?k = Ok ?b" by (simp add: add_node_def e)
  moreover have "\<not> expects_key ?k" "length (stack ?k) + depth n \<le> MAX_DEPTH"
    using Cons.prems(2) [of "Some key" n] by (auto simp: expects_key_def e)
  ultimately have "yaml_steps (on_line line (events_of n)) ?k = Ok ?b"
    using Cons.prems(1) [of "Some key" n] by (simp add: builds_def e)
  moreover have "yaml_steps (on_line line
      (concat (map (\<lambda>(k, n). Scalar (the k) False 0 None # events_of n) entries))) ?b
      = Ok (?b\<lparr>stack := FMap 0 ((done @ [e]) @ entries) None # fs\<rparr>)"
    using Cons.prems by (intro Cons.IH) auto
  ultimately show ?case by (simp add: yaml_steps_append e k del: yaml_step.simps)
qed

lemma builds_plain_tree: "plain_tree n \<Longrightarrow> builds line n"
proof (induction n)
  case (Str s)
  then show ?case by (simp add: builds_def scalar_node_def)
next
  case Null
  then show ?case by (simp add: builds_def scalar_node_def resolve_null)
next
  case (Other name)
  then show ?case by (simp add: builds_def scalar_node_def resolve_true)
next
  case (Seq items)
  show ?case unfolding builds_def
  proof (intro allI impI)
    fix b assume b: "\<not> expects_key b" "length (stack b) + depth (Seq items) \<le> MAX_DEPTH"
    let ?s = "b\<lparr>stack := FSeq 0 [] # stack b\<rparr>"
    have "yaml_step (SequenceStart 0 None, line) b = Ok ?s"
      using b(2) by (simp add: start_collection_def)
    moreover have "yaml_steps (on_line line (concat (map events_of items))) ?s
        = Ok (?s\<lparr>stack := FSeq 0 ([] @ items) # stack b\<rparr>)"
    proof (rule seq_items)
      show "builds line x" if "x \<in> set items" for x
        using that Seq by (auto simp: list_all_iff)
      show "Suc (length (stack b)) + depth x \<le> MAX_DEPTH" if "x \<in> set items" for x
        using b(2) depth_item [OF that] by linarith
    qed simp
    ultimately show "yaml_steps (on_line line (events_of (Seq items))) b = add_node (Seq items) 0 b"
      by (simp add: yaml_steps_append end_collection_def)
  qed
next
  case (Map entries)
  show ?case unfolding builds_def
  proof (intro allI impI)
    fix b assume b: "\<not> expects_key b" "length (stack b) + depth (Map entries) \<le> MAX_DEPTH"
    let ?s = "b\<lparr>stack := FMap 0 [] None # stack b\<rparr>"
    have "yaml_step (MappingStart 0 None, line) b = Ok ?s"
      using b(2) by (simp add: start_collection_def)
    moreover have "yaml_steps (on_line line
        (concat (map (\<lambda>(k, n). Scalar (the k) False 0 None # events_of n) entries))) ?s
        = Ok (?s\<lparr>stack := FMap 0 ([] @ entries) None # stack b\<rparr>)"
    proof (rule map_entries)
      show "builds line n \<and> k \<noteq> None" if "(k, n) \<in> set entries" for k n
        using that Map by (fastforce simp: list_all_iff)
      show "Suc (length (stack b)) + depth n \<le> MAX_DEPTH" if "(k, n) \<in> set entries" for k n
        using b(2) depth_entry [OF that] by linarith
    qed simp
    ultimately show "yaml_steps (on_line line (events_of (Map entries))) b = add_node (Map entries) 0 b"
      by (simp add: yaml_steps_append end_collection_def)
  qed
qed

subsection \<open>Unquoted digits\<close>

lemma lang_digit_us: "is_ascii_digit c \<Longrightarrow> in_class [(48, 57), (95, 95)] c"
  by (simp add: in_class_def is_ascii_digit_def)

lemma digits_are_int:
  assumes "is_ascii_digit c" "c \<noteq> 48" "list_all is_ascii_digit cs"
  shows "full_match RE_INT (c # cs)"
proof -
  have "cs \<in> star_lang (lang digit_us)"
    unfolding digit_us_def by (rule star_class) (use assms(3) lang_digit_us in \<open>auto simp: list_all_iff\<close>)
  moreover have "[c] \<in> lang (Class [(49, 57)])"
    using assms(1,2) by (auto simp: in_class_def is_ascii_digit_def)
  ultimately have "c # cs \<in> lang (Cat (Class [(49, 57)]) (Star digit_us))"
    unfolding lang.simps(5,6) by (metis (mono_tags, lifting) append_Cons append_Nil mem_Collect_eq)
  then have body: "c # cs \<in> lang (Alt (chr 48) (Cat (Class [(49, 57)]) (Star digit_us)))"
    unfolding lang.simps(4) by (rule UnI2)
  have "[] \<in> lang sign" by (simp add: sign_def opt_def)
  with body have "[] @ (c # cs) \<in> lang (cats [sign, Alt (chr 48) (Cat (Class [(49, 57)]) (Star digit_us))])"
    unfolding cats.simps lang.simps(5) by blast
  then show ?thesis
    unfolding full_match_lang RE_INT_def lang_alts by (auto simp del: cats.simps lang.simps)
qed

subsection \<open>Properties of the YAML reader\<close>

text \<open>C40: the tree builder inverts serialisation: fed the events of any tree of strings, nulls,
  booleans, lists and mappings (nested at most 64 deep), the loop ends with exactly that tree as
  the document.\<close>

theorem yaml_events_roundtrip:
  assumes "plain_tree n" "depth n \<le> MAX_DEPTH"
  shows "\<exists>b. yaml_steps ((DocumentStart, line) # on_line line (events_of n)) empty_builder = Ok b
     \<and> doc_root b = Some n \<and> stack b = []"
proof -
  let ?b = "empty_builder\<lparr>documents := 1\<rparr>"
  have "yaml_steps (on_line line (events_of n)) ?b = add_node n 0 ?b"
    using builds_plain_tree [OF assms(1), of line] assms(2)
    by (simp add: builds_def expects_key_def empty_builder_def)
  then show ?thesis by (simp add: empty_builder_def add_node_def)
qed

definition example_tree :: node where
  "example_tree = Map [(Some (lit ''smtp''), Map [(Some (lit ''password''), Str (lit ''p''))]),
     (Some (lit ''tokens''), Seq [Str (lit ''yes''), Null])]"

theorem yaml_events_roundtrip_witness:
  "\<exists>b. yaml_steps ((DocumentStart, 1) # on_line 1 (events_of example_tree)) empty_builder = Ok b
     \<and> doc_root b = Some example_tree \<and> stack b = []"
  by (rule yaml_events_roundtrip) (simp_all add: example_tree_def MAX_DEPTH_def)

text \<open>In every state the event loop can reach at most 64 collections are open and at most one
  document was started, whatever events the parser delivers.\<close>

lemma yaml_depth_bounded:
  assumes "yaml_steps es empty_builder = Ok b"
  shows "length (stack b) \<le> 64 \<and> documents b \<le> 1"
  using reachable_frame [OF yaml_steps_reachable [OF assms reachable.start]] by (simp add: MAX_DEPTH_def)

text \<open>An unquoted scalar of decimal digits without a leading zero is never a string, so an
  unquoted numeric \<open>token_sha256\<close> or password cannot be taken for one (D-5); it is an int, or an
  error when it is longer than Python's 4300 digits.\<close>

lemma plain_digits_not_string:
  assumes "is_ascii_digit c" "c \<noteq> 48" "list_all is_ascii_digit cs"
  shows "resolve_plain (c # cs) \<noteq> Ok (Str s)"
  using digits_are_int [OF assms] by (simp add: resolve_plain_def Let_def)

end
