(* ===== verification/Config.thy ===== *)
theory Config
  imports Address Complex_Main
begin

text \<open>
  \<open>rust/src/config.rs\<close>: the settings read from environment variables.  An environment is a list of
  (name, value) byte strings (\<open>OsString\<close>); \<open>from_env\<close> reads each field through one reader that
  refuses several case variants of a name (D-7), with the parsers of pydantic's integers,
  booleans and floats.  A failing \<open>expect("valid default")\<close> is the error \<open>DefaultPanic\<close>, which
  \<open>from_env\<close> is shown never to return.  \<open>f64\<close> parsing is the parameter \<open>parse_f64\<close>.
\<close>

datatype config_error = ConfigError rstr | DefaultPanic

datatype level = Trace | Debug | Info | Warning | Error | Critical

fun level_index :: "level \<Rightarrow> nat" where
  "level_index Trace = 0"
| "level_index Debug = 1"
| "level_index Info = 2"
| "level_index Warning = 3"
| "level_index Error = 4"
| "level_index Critical = 5"

text \<open>The derived order of the enum: declaration order.\<close>

instantiation level :: linorder
begin

definition less_eq_level :: "level \<Rightarrow> level \<Rightarrow> bool" where
  "less_eq_level a b \<longleftrightarrow> level_index a \<le> level_index b"

definition less_level :: "level \<Rightarrow> level \<Rightarrow> bool" where
  "less_level a b \<longleftrightarrow> level_index a < level_index b"

instance
proof
  have inj: "level_index a = level_index b \<Longrightarrow> a = b" for a b
    by (cases a; cases b) simp_all
  fix a b c :: level
  show "(a < b) = (a \<le> b \<and> \<not> b \<le> a)" by (auto simp: less_level_def less_eq_level_def)
  show "a \<le> a" by (simp add: less_eq_level_def)
  show "a \<le> b \<Longrightarrow> b \<le> c \<Longrightarrow> a \<le> c" by (simp add: less_eq_level_def)
  show "a \<le> b \<Longrightarrow> b \<le> a \<Longrightarrow> a = b" by (simp add: less_eq_level_def inj)
  show "a \<le> b \<or> b \<le> a" by (auto simp: less_eq_level_def)
qed

end

definition LEVELS :: "(level \<times> rstr) list" where
  "LEVELS = [(Trace, lit ''TRACE''), (Debug, lit ''DEBUG''), (Info, lit ''INFO''),
     (Warning, lit ''WARNING''), (Error, lit ''ERROR''), (Critical, lit ''CRITICAL'')]"

definition from_name :: "rstr \<Rightarrow> level option" where
  "from_name name = map_option fst (find (\<lambda>(_, n). eq_ignore_ascii_case n name) LEVELS)"

definition level_name :: "level \<Rightarrow> rstr" where
  "level_name l = snd (LEVELS ! level_index l)"

definition PREFIX :: rstr where
  "PREFIX = lit ''MAILGUN_RELAY_''"

text \<open>An \<open>f64\<close>: a number, an infinity or a NaN.\<close>

datatype f64 = Finite rat | Infinite | NaN

definition MAX_TIMEOUT_S :: rat where "MAX_TIMEOUT_S = 1000000000"

record settings =
  bind_host :: rstr
  bind_port :: "16 word"
  public_host :: rstr
  secrets_path :: rstr
  smtp_host :: rstr
  smtp_port :: "16 word"
  smtp_starttls :: bool
  smtp_timeout_s :: f64
  smtp_ca_file :: rstr
  smtp_max_concurrency :: "32 word"
  envelope_sender :: rstr
  fail_on_partial_refusal :: bool
  max_body_bytes :: int
  max_attachments :: int
  max_attachment_bytes :: int
  max_recipients :: int
  max_header_value_length :: int
  log_level :: level

type_synonym env = "(rstr \<times> u8 list) list"

subsection \<open>The parsers\<close>

text \<open>\<open>str::trim\<close>: Unicode \<open>White_Space\<close>, which lacks U+001C to U+001F of Python's set.\<close>

definition is_whitespace :: "rchar \<Rightarrow> bool" where
  "is_whitespace c \<longleftrightarrow> is_py_space c \<and> \<not> (0x1C \<le> c \<and> c \<le> 0x1F)"

definition trim :: "rstr \<Rightarrow> rstr" where
  "trim s = trim_matches is_whitespace s"

definition int_range_error :: rstr where
  "int_range_error = lit ''integer out of range (PLAN.md D-18)''"

definition parse_int_strict :: "rstr \<Rightarrow> rstr + int" where
  "parse_int_strict val =
     (let trimmed = trim val
      in case (case strip_prefix [45] trimmed of
                 Some rest \<Rightarrow> (True, rest)
               | None \<Rightarrow> (False, case strip_prefix [43] trimmed of Some r \<Rightarrow> r | None \<Rightarrow> trimmed)) of
           (negative, digits) \<Rightarrow>
             if \<not> (digits \<noteq> [] \<and> list_all (\<lambda>g. g \<noteq> [] \<and> list_all is_ascii_digit g) (split_at_char 95 digits))
             then Err (lit ''not a valid integer'')
             else
               (let digits' = filter (\<lambda>c. c \<noteq> 95) digits;
                    significant = trim_start_matches (\<lambda>c. c = 48) digits'
                in if length significant > 19 then Err int_range_error
                   else
                     (let magnitude = int (digits_value significant);
                          signed = (if negative then - magnitude else magnitude)
                      in if in_i64 signed then Ok signed else Err int_range_error)))"

definition parse_int :: "rstr \<Rightarrow> rstr + int" where
  "parse_int val =
     (case parse_int_strict val of
        Inr i \<Rightarrow> Ok i
      | Inl e \<Rightarrow>
          (case rsplit_once 46 (trim val) of
             Some (whole, zeros) \<Rightarrow>
               if zeros \<noteq> [] \<and> list_all (\<lambda>c. c = 48) zeros \<and> trim whole = whole
               then parse_int_strict whole else Err e
           | None \<Rightarrow> Err e))"

definition range_check :: "int \<Rightarrow> int \<Rightarrow> int \<Rightarrow> rstr + int" where
  "range_check val lo hi =
     (if \<not> (lo \<le> val \<and> val \<le> hi)
      then Err (lit ''must be between '' @ show_int lo @ lit '' and '' @ show_int hi)
      else Ok val)"

definition range_u16 :: "int \<Rightarrow> int \<Rightarrow> int \<Rightarrow> rstr + 16 word" where
  "range_u16 val lo hi = and_then (range_check val lo hi) (\<lambda>v.
     if 0 \<le> v \<and> v \<le> 65535 then Ok (word_of_int v) else Err (lit ''out of range''))"

definition range_u32 :: "int \<Rightarrow> int \<Rightarrow> int \<Rightarrow> rstr + 32 word" where
  "range_u32 val lo hi = and_then (range_check val lo hi) (\<lambda>v.
     if 0 \<le> v \<and> v \<le> 4294967295 then Ok (word_of_int v) else Err (lit ''out of range''))"

definition parse_port_strict :: "rstr \<Rightarrow> rstr + 16 word" where
  "parse_port_strict val = and_then (parse_int_strict val) (\<lambda>i. range_u16 i 0 65535)"

definition parse_bool :: "rstr \<Rightarrow> rstr + bool" where
  "parse_bool val =
     (if list_ex (\<lambda>t. eq_ignore_ascii_case val t)
           (map lit [''1'', ''on'', ''t'', ''true'', ''y'', ''yes'']) then Ok True
      else if list_ex (\<lambda>t. eq_ignore_ascii_case val t)
           (map lit [''0'', ''off'', ''f'', ''false'', ''n'', ''no'']) then Ok False
      else Err (lit ''not a valid boolean''))"

definition not_a_number :: rstr where
  "not_a_number = lit ''not a valid number''"

fun contains_double :: "rchar \<Rightarrow> rstr \<Rightarrow> bool" where
  "contains_double c (a # b # s) \<longleftrightarrow> a = c \<and> b = c \<or> contains_double c (b # s)"
| "contains_double c s \<longleftrightarrow> False"

definition parse_timeout :: "(rstr \<Rightarrow> f64 option) \<Rightarrow> rstr \<Rightarrow> rstr + f64" where
  "parse_timeout parse_f64 val =
     (let trimmed = trim val
      in if starts_with [95] trimmed \<or> ends_with [95] trimmed \<or> contains_double 95 trimmed
         then Err not_a_number
         else and_then (ok_or not_a_number (parse_f64 (filter (\<lambda>c. c \<noteq> 95) trimmed))) (\<lambda>seconds.
           if (case seconds of Finite r \<Rightarrow> 0 \<le> r \<and> r \<le> MAX_TIMEOUT_S | _ \<Rightarrow> False) then Ok seconds
           else Err (lit ''must be between 0 and 1000000000 seconds (PLAN.md D-18)'')))"

definition parse_sender :: "crates \<Rightarrow> rstr \<Rightarrow> rstr + rstr" where
  "parse_sender X val =
     (if val = [] then Ok []
      else and_then
        (if is_ascii val then Ok val
         else (case rsplit_once 64 val of
                 Some (local, domain) \<Rightarrow>
                   if local \<noteq> [] \<and> is_ascii local
                   then and_then (normalize_config_domain X domain) (\<lambda>d. Ok (local @ [64] @ d))
                   else Err (lit ''only the domain may be non-ASCII (SMTPUTF8 is not used)'')
               | None \<Rightarrow> Err (lit ''only the domain may be non-ASCII (SMTPUTF8 is not used)'')))
        (\<lambda>sender.
          and_then (map_err (\<lambda>_. lit ''not a valid email address (PLAN.md D-15)'')
            (parse_addr_spec X sender)) (\<lambda>_. Ok sender)))"

subsection \<open>The environment\<close>

definition relay_vars :: "(u8 list \<times> u8 list) list \<Rightarrow> env" where
  "relay_vars vars =
     filter (\<lambda>(name, _). byte_len name > byte_len PREFIX
         \<and> to_ascii_lowercase (latin1_chars (take (byte_len PREFIX) (utf8_encode name)))
           = to_ascii_lowercase PREFIX)
       (List.map_filter (\<lambda>(name, val). map_option (\<lambda>n. (n, val)) (from_utf8 name)) vars)"

definition lookup_var :: "env \<Rightarrow> rstr \<Rightarrow> config_error + (rstr \<times> rstr) option" where
  "lookup_var env field =
     (let exact = PREFIX @ field
      in case filter (\<lambda>(name, _). eq_ignore_ascii_case name exact) env of
           [] \<Rightarrow> Ok None
         | [(name, val)] \<Rightarrow>
             (case from_utf8 val of
                None \<Rightarrow> Err (ConfigError (name @ lit '': value is not valid UTF-8 (PLAN.md D-18)''))
              | Some v \<Rightarrow> Ok (Some (name, v)))
         | _ \<Rightarrow> Err (ConfigError (exact @ lit '': several case variants are set (PLAN.md D-7)'')))"

definition env_str :: "env \<Rightarrow> rstr \<Rightarrow> rstr \<Rightarrow> config_error + rstr" where
  "env_str env field dflt =
     map_ok (\<lambda>found. case found of None \<Rightarrow> dflt | Some (_, v) \<Rightarrow> v) (lookup_var env field)"

definition env_parsed :: "env \<Rightarrow> rstr \<Rightarrow> rstr \<Rightarrow> (rstr \<Rightarrow> rstr + 'a) \<Rightarrow> config_error + 'a" where
  "env_parsed env field dflt parse =
     and_then (lookup_var env field) (\<lambda>found.
       (case found of
          None \<Rightarrow> map_err (\<lambda>_. DefaultPanic) (parse dflt)
        | Some (name, v) \<Rightarrow> map_err (\<lambda>reason. ConfigError (name @ lit '': '' @ reason)) (parse v)))"

definition from_env ::
  "crates \<Rightarrow> (rstr \<Rightarrow> f64 option) \<Rightarrow> (u8 list \<times> u8 list) list \<Rightarrow> config_error + settings" where
  "from_env X parse_f64 vars =
     (let env = relay_vars vars in
      and_then (env_str env (lit ''BIND_HOST'') (lit ''127.0.0.1'')) (\<lambda>v_bind_host.
      and_then (env_parsed env (lit ''BIND_PORT'') (lit ''8085'') parse_port_strict) (\<lambda>v_bind_port.
      and_then (env_str env (lit ''PUBLIC_HOST'') (lit ''mailgun.home.xn--wersdrfer-47a.de'')) (\<lambda>v_public_host.
      and_then (env_str env (lit ''SECRETS_PATH'') (lit ''/etc/mailgun-relay/secrets.yml'')) (\<lambda>v_secrets_path.
      and_then (env_str env (lit ''SMTP_HOST'') (lit ''smtp.home.xn--wersdrfer-47a.de'')) (\<lambda>v_smtp_host.
      and_then (env_parsed env (lit ''SMTP_PORT'') (lit ''587'')
        (\<lambda>v. and_then (parse_int v) (\<lambda>i. range_u16 i 0 65535))) (\<lambda>v_smtp_port.
      and_then (env_parsed env (lit ''SMTP_STARTTLS'') (lit ''true'') parse_bool) (\<lambda>v_starttls.
      and_then (env_parsed env (lit ''SMTP_TIMEOUT_S'') (lit ''30.0'') (parse_timeout parse_f64)) (\<lambda>v_timeout.
      and_then (env_str env (lit ''SMTP_CA_FILE'') []) (\<lambda>v_ca_file.
      and_then (env_parsed env (lit ''SMTP_MAX_CONCURRENCY'') (lit ''8'')
        (\<lambda>v. and_then (parse_int v) (\<lambda>i. range_u32 i 1 4294967295))) (\<lambda>v_concurrency.
      and_then (env_parsed env (lit ''ENVELOPE_SENDER'') [] (parse_sender X)) (\<lambda>v_sender.
      and_then (env_parsed env (lit ''FAIL_ON_PARTIAL_REFUSAL'') (lit ''false'') parse_bool) (\<lambda>v_fail.
      and_then (env_parsed env (lit ''MAX_BODY_BYTES'') (lit ''26214400'') parse_int) (\<lambda>v_body.
      and_then (env_parsed env (lit ''MAX_ATTACHMENTS'') (lit ''10'') parse_int) (\<lambda>v_atts.
      and_then (env_parsed env (lit ''MAX_ATTACHMENT_BYTES'') (lit ''10485760'') parse_int) (\<lambda>v_att_bytes.
      and_then (env_parsed env (lit ''MAX_RECIPIENTS'') (lit ''100'') parse_int) (\<lambda>v_rcpts.
      and_then (env_parsed env (lit ''MAX_HEADER_VALUE_LENGTH'') (lit ''998'') parse_int) (\<lambda>v_header.
      and_then (env_parsed env (lit ''LOG_LEVEL'') (lit ''INFO'')
        (\<lambda>v. ok_or (lit ''one of CRITICAL ERROR WARNING INFO DEBUG TRACE'') (from_name v))) (\<lambda>v_level.
      if v_bind_host = []
      then Err (ConfigError (lit ''MAILGUN_RELAY_BIND_HOST must not be empty''))
      else Ok \<lparr>bind_host = v_bind_host, bind_port = v_bind_port, public_host = v_public_host,
        secrets_path = v_secrets_path, smtp_host = v_smtp_host, smtp_port = v_smtp_port,
        smtp_starttls = v_starttls, smtp_timeout_s = v_timeout, smtp_ca_file = v_ca_file,
        smtp_max_concurrency = v_concurrency, envelope_sender = v_sender,
        fail_on_partial_refusal = v_fail, max_body_bytes = v_body, max_attachments = v_atts,
        max_attachment_bytes = v_att_bytes, max_recipients = v_rcpts,
        max_header_value_length = v_header, log_level = v_level\<rparr>)))))))))))))))))))"

subsection \<open>Integers\<close>

lemma trim_matches_pad:
  assumes "list_all p pre" "list_all p post" "s \<noteq> []" "\<not> p (hd s)" "\<not> p (last s)"
  shows "trim_matches p (pre @ s @ post) = s"
proof -
  have 1: "dropWhile p (pre @ s @ post) = s @ post"
    using assms(1,3,4) by (cases s) (auto simp: dropWhile_append list_all_iff)
  have 2: "dropWhile p (rev post @ rev s) = rev s"
    using assms(2,3,5) by (cases s rule: rev_cases) (auto simp: dropWhile_append list_all_iff)
  show ?thesis
    unfolding trim_matches_def trim_start_matches_def trim_end_matches_def 1 using 2 by simp
qed

lemma digit_not_space: "is_ascii_digit c \<Longrightarrow> \<not> is_whitespace c \<and> c \<noteq> 45 \<and> c \<noteq> 43 \<and> c \<noteq> 95 \<and> c \<noteq> 46"
  by (auto simp: is_ascii_digit_def is_whitespace_def is_py_space_def)

lemma show_nat_digit: "c \<in> set (show_nat n) \<Longrightarrow> is_ascii_digit c"
  using show_nat_digits [of n] by (auto simp: list_all_iff)

lemma show_int_ends:
  "show_int i \<noteq> [] \<and> \<not> is_whitespace (hd (show_int i)) \<and> \<not> is_whitespace (last (show_int i))"
proof -
  have "show_nat n \<noteq> []" "is_ascii_digit (hd (show_nat n))" "is_ascii_digit (last (show_nat n))" for n
    using show_nat_digits [of n] by (auto simp: list_all_iff)
  then show ?thesis
    using digit_not_space by (auto simp: show_int_def is_whitespace_def is_py_space_def)
qed

lemma trim_show_int:
  "list_all is_whitespace pre \<Longrightarrow> list_all is_whitespace post \<Longrightarrow> trim (pre @ show_int i @ post) = show_int i"
  unfolding trim_def using show_int_ends [of i] by (intro trim_matches_pad) auto

lemma significant_show_nat:
  "trim_start_matches (\<lambda>c. c = 48) (show_nat n) = (if n = 0 then [] else show_nat n)"
proof (cases "n = 0")
  case True
  then show ?thesis by (simp add: trim_start_matches_def show_nat.simps [of 0])
next
  case False
  then have "hd (show_nat n) \<noteq> 48" by (intro show_nat_no_zero) simp
  with False show ?thesis
    using show_nat_digits [of n] by (cases "show_nat n") (auto simp: trim_start_matches_def)
qed

lemma parse_int_strict_show:
  assumes "trim v = show_int i"
  shows "parse_int_strict v = (if in_i64 i then Ok i else Err int_range_error)"
proof -
  define n where "n = nat \<bar>i\<bar>"
  have split: "split_at_char 95 (show_nat n) = [show_nat n]"
    by (rule split_by_none) (use show_nat_digit digit_not_space in blast)
  have filter: "filter (\<lambda>c. c \<noteq> 95) (show_nat n) = show_nat n"
    using show_nat_digit digit_not_space by (auto simp: filter_id_conv)
  have value_n: "digits_value (if n = 0 then [] else show_nat n) = n"
    by (simp add: digits_value_def [of "[]"])
  have dig: "show_nat n \<noteq> []" "list_all is_ascii_digit (show_nat n)" using show_nat_digits by auto
  obtain c cs where c: "show_nat n = c # cs" using dig(1) by (cases "show_nat n") auto
  have "is_ascii_digit c" using dig(2) c by simp
  then have "c \<noteq> 45" "c \<noteq> 43" using digit_not_space by blast+
  then have strip: "strip_prefix [45] (show_nat n) = None" "strip_prefix [43] (show_nat n) = None"
    by (simp_all add: strip_prefix_def c)
  have sign: "(case strip_prefix [45] (show_int i) of Some rest \<Rightarrow> (True, rest)
      | None \<Rightarrow> (False, case strip_prefix [43] (show_int i) of Some r \<Rightarrow> r | None \<Rightarrow> show_int i))
    = (i < 0, show_nat n)"
  proof (cases "i < 0")
    case True
    then have "show_int i = 45 # show_nat n" by (simp add: show_int_def n_def)
    with True show ?thesis by (simp add: strip_prefix_def)
  next
    case False
    then have "show_int i = show_nat n" by (simp add: show_int_def n_def)
    with False show ?thesis by (simp add: strip)
  qed
  have i: "(if i < 0 then - int n else int n) = i" by (auto simp: n_def)
  have digits: "\<not> \<not> (show_nat n \<noteq> [] \<and> list_all (\<lambda>g. g \<noteq> [] \<and> list_all is_ascii_digit g) [show_nat n])"
    using dig by simp
  have long: "\<not> in_i64 i" if "19 < length (if n = 0 then [] else show_nat n)"
  proof
    assume "in_i64 i"
    then have "n < 10 ^ 19" by (auto simp: n_def in_i64_def i64_min_def i64_max_def)
    then have "length (show_nat n) \<le> 19" by (intro length_show_nat) auto
    with that show False by (simp split: if_splits)
  qed
  have signed: "magn = n \<Longrightarrow> (if in_i64 (if i < 0 then - int magn else int magn)
      then Ok (if i < 0 then - int magn else int magn) else Err int_range_error)
      = (if in_i64 i then Ok i else Err int_range_error)" for magn
    using i by (simp only:)
  show ?thesis
  proof (cases "19 < length (if n = 0 then [] else show_nat n)")
    case True
    with digits show ?thesis
      unfolding parse_int_strict_def Let_def assms sign prod.case split filter significant_show_nat
      using long by (simp only: if_False if_True not_not simp_thms)
  next
    case False
    with digits signed [OF value_n] show ?thesis
      unfolding parse_int_strict_def Let_def assms sign prod.case split filter significant_show_nat
      by (simp only: if_False if_True not_not simp_thms)
  qed
qed

lemma parse_int_strict_range: "parse_int_strict v = Ok i \<Longrightarrow> in_i64 i"
  by (auto simp: parse_int_strict_def Let_def split: prod.splits if_splits)

lemma parse_int_in_i64: "parse_int v = Ok i \<Longrightarrow> in_i64 i"
  by (auto simp: parse_int_def parse_int_strict_range split: sum.splits option.splits if_splits)

lemma parse_int_strict_no_dot:
  assumes "parse_int_strict v = Ok i"
  shows "46 \<notin> set (trim v)"
proof
  assume dot: "46 \<in> set (trim v)"
  obtain neg digits where d: "(case strip_prefix [45] (trim v) of Some rest \<Rightarrow> (True, rest)
      | None \<Rightarrow> (False, case strip_prefix [43] (trim v) of Some r \<Rightarrow> r | None \<Rightarrow> trim v)) = (neg, digits)"
    by fastforce
  then have "46 \<in> set digits"
    using dot by (auto simp: strip_prefix_Some_iff split: option.splits)
  then obtain piece where p: "piece \<in> set (split_at_char 95 digits)" "46 \<in> set piece"
    using split_by_covers [of 46 digits "\<lambda>x. x = 95"] by auto
  have "list_all (\<lambda>g. g \<noteq> [] \<and> list_all is_ascii_digit g) (split_at_char 95 digits)"
    using assms d by (auto simp: parse_int_strict_def Let_def split: if_splits)
  with p have "is_ascii_digit 46" by (auto simp: list_all_iff)
  then show False by (simp add: is_ascii_digit_def)
qed

lemma parse_int_with_fraction:
  assumes "trim v = show_int i @ 46 # zeros" "zeros \<noteq> []" "list_all (\<lambda>c. c = 48) zeros"
  shows "parse_int v = (if in_i64 i then Ok i else Err int_range_error)"
proof -
  have r: "rsplit_once 46 (show_int i @ 46 # zeros) = Some (show_int i, zeros)"
    using assms(3) unfolding rsplit_once_Some_iff by (auto simp: list_all_iff)
  have w: "trim (show_int i) = show_int i" using trim_show_int [of "[]" "[]" i] by simp
  note parse_int_strict_show [OF w]
  moreover obtain e where "parse_int_strict v = Err e"
    using parse_int_strict_no_dot [of v] assms(1) by (cases "parse_int_strict v") auto
  ultimately show ?thesis using assms by (simp add: parse_int_def r w)
qed

lemma show_int_no_dot: "46 \<notin> set (show_int i)"
  by (auto simp: show_int_def is_ascii_digit_def dest!: show_nat_digit)

text \<open>C36: no integer setting is misread: every integer written in decimal, with whitespace around it and
  with a fraction of zeros where pydantic allows one, is read as this integer if it is an \<open>i64\<close> and
  refused with the range error if it is not, at every length; so no setting wraps around or is cut.\<close>

theorem parse_int_roundtrip:
  assumes "list_all is_whitespace pre" "list_all is_whitespace post"
  shows "parse_int (pre @ show_int i @ post) = (if - (2 ^ 63) \<le> i \<and> i < 2 ^ 63 then Ok i else Err int_range_error)
     \<and> parse_int (pre @ show_int i @ 46 # replicate (Suc k) 48 @ post)
        = (if - (2 ^ 63) \<le> i \<and> i < 2 ^ 63 then Ok i else Err int_range_error)"
proof -
  have range: "- (2 ^ 63) \<le> i \<and> i < 2 ^ 63 \<longleftrightarrow> in_i64 i"
    by (auto simp: in_i64_def i64_min_def i64_max_def)
  have t: "trim (pre @ show_int i @ post) = show_int i" by (rule trim_show_int [OF assms])
  have "rsplit_once 46 (show_int i) = None"
    using show_int_no_dot by (rule rsplit_once_absent)
  then have plain: "parse_int (pre @ show_int i @ post) = (if in_i64 i then Ok i else Err int_range_error)"
    by (simp add: parse_int_def parse_int_strict_show [OF t] t)
  have "trim (pre @ (show_int i @ 46 # replicate (Suc k) 48) @ post) = show_int i @ 46 # replicate (Suc k) 48"
    unfolding trim_def using show_int_ends [of i]
    by (intro trim_matches_pad) (auto simp: assms is_whitespace_def is_py_space_def)
  from parse_int_with_fraction [of _ i "replicate (Suc k) 48"] this plain show ?thesis
    unfolding range by (simp add: list_all_iff)
qed

theorem parse_int_roundtrip_witness:
  "parse_int (lit '' '' @ show_int (2 ^ 63) @ lit '' '') = Err int_range_error
   \<and> parse_int (lit '' '' @ show_int (- (2 ^ 63)) @ 46 # replicate 3 48 @ lit '' '') = Ok (- (2 ^ 63))"
proof -
  have "list_all is_whitespace (lit '' '')" by code_simp
  from parse_int_roundtrip [OF this this, of "2 ^ 63" 0] parse_int_roundtrip [OF this this, of "- (2 ^ 63)" 2]
  show ?thesis by (simp add: numeral_3_eq_3)
qed

text \<open>Whatever the parser accepts is within the range of \<open>i64\<close>, so no setting can wrap.\<close>

lemma parse_int_bounded:
  assumes "parse_int v = Ok i"
  shows "- (2 ^ 63) \<le> i \<and> i < 2 ^ 63"
  using parse_int_in_i64 [OF assms] by (simp add: in_i64_def i64_min_def i64_max_def)

subsection \<open>The environment\<close>

definition FIELDS :: "rstr list" where
  "FIELDS = map lit
    [''BIND_HOST'', ''BIND_PORT'', ''PUBLIC_HOST'', ''SECRETS_PATH'', ''SMTP_HOST'', ''SMTP_PORT'',
     ''SMTP_STARTTLS'', ''SMTP_TIMEOUT_S'', ''SMTP_CA_FILE'', ''SMTP_MAX_CONCURRENCY'',
     ''ENVELOPE_SENDER'', ''FAIL_ON_PARTIAL_REFUSAL'', ''MAX_BODY_BYTES'', ''MAX_ATTACHMENTS'',
     ''MAX_ATTACHMENT_BYTES'', ''MAX_RECIPIENTS'', ''MAX_HEADER_VALUE_LENGTH'', ''LOG_LEVEL'']"

definition variants :: "(u8 list \<times> u8 list) list \<Rightarrow> rstr \<Rightarrow> env" where
  "variants vars field =
     filter (\<lambda>(name, _). eq_ignore_ascii_case name (PREFIX @ field)) (relay_vars vars)"

lemma lookup_var_Ok:
  "lookup_var (relay_vars vars) field = Ok r \<Longrightarrow> length (variants vars field) \<le> 1"
  by (auto simp: lookup_var_def variants_def Let_def split: list.splits option.splits)

lemma env_str_Ok: "env_str env field dflt = Ok v \<Longrightarrow> \<exists>r. lookup_var env field = Ok r"
  by (auto simp: env_str_def result_simps)

lemma env_parsed_Ok: "env_parsed env field dflt p = Ok v \<Longrightarrow> \<exists>r. lookup_var env field = Ok r"
  by (auto simp: env_parsed_def result_simps)

lemma env_parsed_parsed: "env_parsed env field dflt p = Ok v \<Longrightarrow> \<exists>t. p t = Ok v"
  by (auto simp: env_parsed_def result_simps split: option.splits)

lemma from_env_reads:
  assumes "from_env X pf vars = Ok s"
  shows "list_all (\<lambda>f. \<exists>r. lookup_var (relay_vars vars) f = Ok r) FIELDS"
proof -
  show ?thesis using assms unfolding from_env_def Let_def and_then_Inr_iff FIELDS_def
    by (auto dest!: env_str_Ok env_parsed_Ok)
qed

definition timeout_ok :: "f64 \<Rightarrow> bool" where
  "timeout_ok t = (case t of Finite r \<Rightarrow> 0 \<le> r \<and> r \<le> MAX_TIMEOUT_S | _ \<Rightarrow> False)"

definition sender_ok :: "crates \<Rightarrow> rstr \<Rightarrow> bool" where
  "sender_ok X v \<longleftrightarrow> v = [] \<or> (\<exists>m. parse_addr_spec X v = Ok m)"

lemma parse_timeout_ok: "parse_timeout pf v = Ok t \<Longrightarrow> timeout_ok t"
  by (auto simp: parse_timeout_def timeout_ok_def result_simps Let_def split: if_splits f64.splits)

lemma parse_sender_ok: "parse_sender X v = Ok t \<Longrightarrow> sender_ok X t"
  by (auto simp: parse_sender_def sender_ok_def result_simps split: if_splits)

lemma range_u32_pos: "range_u32 i 1 4294967295 = Ok w \<Longrightarrow> 1 \<le> unat w"
proof -
  assume "range_u32 i 1 4294967295 = Ok w"
  then have w: "w = word_of_int i" "1 \<le> i" "i < 2 ^ 32"
    by (auto simp: range_u32_def range_check_def result_simps split: if_splits)
  then have "uint w = i" by (simp add: uint_word_of_int)
  with w(2) show ?thesis by (simp add: unat_eq_nat_uint)
qed

text \<open>Accepted settings are in range: the bind host is not empty, every \<open>i64\<close> setting is one,
  at least one SMTP session is allowed, the timeout is a number of seconds between 0 and 1e9,
  and the envelope sender is empty or a valid address.\<close>

lemma from_env_sound:
  assumes "from_env X parse_f64 vars = Ok s"
  shows "bind_host s \<noteq> [] \<and> in_i64 (max_body_bytes s) \<and> in_i64 (max_attachments s)
     \<and> in_i64 (max_attachment_bytes s) \<and> in_i64 (max_recipients s)
     \<and> in_i64 (max_header_value_length s) \<and> 1 \<le> unat (smtp_max_concurrency s)
     \<and> timeout_ok (smtp_timeout_s s) \<and> sender_ok X (envelope_sender s)"
  using assms unfolding from_env_def Let_def and_then_Inr_iff
  by (auto simp: and_then_Inr_iff split: if_splits
      dest!: env_parsed_parsed parse_timeout_ok parse_sender_ok parse_int_in_i64 range_u32_pos)

text \<open>Where several case variants of one variable are set, the service does not start,
  whichever of its settings it is (D-7).\<close>

lemma from_env_case_variants:
  assumes "field \<in> set FIELDS" "1 < length (variants vars field)"
  shows "\<exists>e. from_env X parse_f64 vars = Err e"
proof (cases "from_env X parse_f64 vars")
  case (Inr s)
  with assms(1) obtain r where "lookup_var (relay_vars vars) field = Ok r"
    using from_env_reads [OF Inr] by (auto simp: list_all_iff)
  with assms(2) lookup_var_Ok [of vars field r] show ?thesis by simp
qed simp

definition example_f64 :: "rstr \<Rightarrow> f64 option" where
  "example_f64 s = (if s = lit ''30.0'' then Some (Finite 30) else None)"

definition default_settings :: settings where
  "default_settings = \<lparr>bind_host = lit ''127.0.0.1'', bind_port = 8085,
     public_host = lit ''mailgun.home.xn--wersdrfer-47a.de'',
     secrets_path = lit ''/etc/mailgun-relay/secrets.yml'',
     smtp_host = lit ''smtp.home.xn--wersdrfer-47a.de'', smtp_port = 587, smtp_starttls = True,
     smtp_timeout_s = Finite 30, smtp_ca_file = [], smtp_max_concurrency = 8, envelope_sender = [],
     fail_on_partial_refusal = False, max_body_bytes = 26214400, max_attachments = 10,
     max_attachment_bytes = 10485760, max_recipients = 100, max_header_value_length = 998,
     log_level = Info\<rparr>"

lemma valid_defaults:
  "parse_port_strict (lit ''8085'') = Ok 8085" "and_then (parse_int (lit ''587'')) (\<lambda>i. range_u16 i 0 65535) = Ok 587"
  "parse_bool (lit ''true'') = Ok True" "parse_bool (lit ''false'') = Ok False"
  "and_then (parse_int (lit ''8'')) (\<lambda>i. range_u32 i 1 4294967295) = Ok 8"
  "parse_int (lit ''26214400'') = Ok 26214400" "parse_int (lit ''10'') = Ok 10"
  "parse_int (lit ''10485760'') = Ok 10485760" "parse_int (lit ''100'') = Ok 100"
  "parse_int (lit ''998'') = Ok 998" "from_name (lit ''INFO'') = Some Info"
  by code_simp+

lemma valid_default_timeout:
  assumes "parse_f64 (lit ''30.0'') = Some (Finite 30)"
  shows "parse_timeout parse_f64 (lit ''30.0'') = Ok (Finite 30)"
proof -
  have "trim (lit ''30.0'') = lit ''30.0''" "filter (\<lambda>c. c \<noteq> 95) (lit ''30.0'') = lit ''30.0''"
    "\<not> starts_with [95] (lit ''30.0'')" "\<not> ends_with [95] (lit ''30.0'')"
    "\<not> contains_double 95 (lit ''30.0'')"
    by code_simp+
  with assms show ?thesis by (simp add: parse_timeout_def Let_def MAX_TIMEOUT_S_def)
qed

definition no_panic :: "config_error + 'a \<Rightarrow> bool" where
  "no_panic r \<longleftrightarrow> r \<noteq> Inl DefaultPanic"

lemma no_panic_and_then: "no_panic r \<Longrightarrow> (\<And>v. no_panic (f v)) \<Longrightarrow> no_panic (and_then r f)"
  by (cases r) (auto simp: no_panic_def)

lemma no_panic_lookup: "no_panic (lookup_var env field)"
  by (auto simp: no_panic_def lookup_var_def Let_def split: list.splits option.splits)

lemma no_panic_env_str: "no_panic (env_str env field dflt)"
  using no_panic_lookup [of env field] by (auto simp: no_panic_def env_str_def map_ok_Inl_iff)

lemma no_panic_env_parsed: "\<exists>v. p dflt = Ok v \<Longrightarrow> no_panic (env_parsed env field dflt p)"
  unfolding env_parsed_def
  by (rule no_panic_and_then [OF no_panic_lookup]) (auto simp: no_panic_def map_err_Inl_iff split: option.splits)

lemma lookup_var_empty: "lookup_var (relay_vars []) field = Ok None"
  by (simp add: lookup_var_def relay_vars_def)

lemma from_env_empty:
  assumes "parse_f64 (lit ''30.0'') = Some (Finite 30)"
  shows "from_env X parse_f64 [] = Ok default_settings"
proof -
  have "lit ''127.0.0.1'' \<noteq> []" by (simp add: lit_def)
  moreover have "env_str (relay_vars []) f d = Ok d" for f d
    by (simp add: env_str_def lookup_var_empty)
  moreover have "env_parsed (relay_vars []) f d p = Ok v" if "p d = Ok v" for f d v and p :: "rstr \<Rightarrow> rstr + 'b"
    by (simp add: env_parsed_def lookup_var_empty that)
  ultimately show ?thesis
    unfolding from_env_def Let_def
    by (simp add: valid_defaults valid_default_timeout [of parse_f64, OF assms] parse_sender_def default_settings_def
        env_parsed_def lookup_var_empty)
qed

text \<open>The defaults are valid: with no variable set the service starts with the documented
  settings, and no environment makes the \<open>expect("valid default")\<close> of a default fail.\<close>

lemma from_env_defaults:
  assumes "parse_f64 (lit ''30.0'') = Some (Finite 30)"
  shows "from_env X parse_f64 [] = Ok default_settings \<and> from_env X parse_f64 vars \<noteq> Err DefaultPanic"
proof
  show "from_env X parse_f64 [] = Ok default_settings"
    by (rule from_env_empty [of parse_f64, OF assms])
  have "no_panic (from_env X parse_f64 vars)"
    unfolding from_env_def Let_def
    by (intro no_panic_and_then no_panic_env_str no_panic_env_parsed)
      (auto simp: no_panic_def parse_sender_def valid_defaults
        valid_default_timeout [of parse_f64, OF assms] and_then_Inr_iff
        valid_defaults(2,5) [unfolded and_then_Inr_iff])
  then show "from_env X parse_f64 vars \<noteq> Err DefaultPanic" by (simp add: no_panic_def)
qed

end
