(* ===== verification/Secrets.thy ===== *)
theory Secrets
  imports Yaml Config Token_Policy
begin

unbundle bit_operations_syntax

text \<open>
  \<open>rust/src/secrets.rs\<close>: the secrets file.  \<open>load\<close> checks the file mode before it reads, then
  \<open>from_yaml\<close> validates the tree.  The file system is the parameter \<open>files\<close>.  The lemmas say what
  every loaded policy satisfies and that a loaded file never holds a placeholder.
\<close>

record smtp_credentials =
  username :: rstr
  password :: rstr

record secrets =
  smtp :: smtp_credentials
  tokens :: "token_policy list"

definition FORBIDDEN_VALUES :: "rstr list" where
  "FORBIDDEN_VALUES = map lit [''CHANGEME'', ''changeme'', ''replace-me'', '''']"

definition FORBIDDEN_MODE_BITS :: "32 word" where
  "FORBIDDEN_MODE_BITS = 31"

record files =
  file_mode :: "rstr \<Rightarrow> rstr + 32 word"
  file_read :: "rstr \<Rightarrow> rstr + u8 list"

definition invalid :: "rstr \<Rightarrow> config_error" where
  "invalid message = ConfigError message"

text \<open>\<open>{:o}\<close>.\<close>

function show_octal :: "nat \<Rightarrow> rstr" where
  "show_octal n = (if n < 8 then [48 + n] else show_octal (n div 8) @ [48 + n mod 8])"
  by pat_completeness auto
termination by (relation "measure id") auto

declare show_octal.simps [simp del]

definition reject_placeholder :: "rstr \<Rightarrow> rstr \<Rightarrow> config_error + unit" where
  "reject_placeholder field val =
     (if val \<in> set FORBIDDEN_VALUES
      then Err (invalid (field @ lit '': refuses placeholder/empty value'')) else Ok ())"

definition as_str :: "node option \<Rightarrow> rstr option" where
  "as_str n = (case n of Some (Str v) \<Rightarrow> Some v | _ \<Rightarrow> None)"

text \<open>\<open>as_str(..).filter(|u| !py_strip(u).is_empty())\<close>.\<close>

definition nonblank_str :: "node option \<Rightarrow> rstr option" where
  "nonblank_str n =
     (case as_str n of Some v \<Rightarrow> if py_strip v = [] then None else Some v | None \<Rightarrow> None)"

fun is_map :: "node \<Rightarrow> bool" where
  "is_map (Map _) = True"
| "is_map _ = False"

definition load_smtp :: "node option \<Rightarrow> config_error + smtp_credentials" where
  "load_smtp raw =
     (case raw of
        None \<Rightarrow> Err (invalid (lit ''smtp section must be a mapping''))
      | Some r \<Rightarrow>
          if \<not> is_map r then Err (invalid (lit ''smtp section must be a mapping''))
          else
            and_then (ok_or (invalid (lit ''smtp.username must be a non-empty string''))
              (nonblank_str (get_entry r (lit ''username'')))) (\<lambda>user.
            and_then (ok_or (invalid (lit ''smtp.password must be a string''))
              (as_str (get_entry r (lit ''password'')))) (\<lambda>pass.
            and_then (reject_placeholder (lit ''smtp.username'') user) (\<lambda>_.
            and_then (reject_placeholder (lit ''smtp.password'') pass) (\<lambda>_.
              Ok \<lparr>username = user, password = pass\<rparr>)))))"

text \<open>The loop of \<open>string_list\<close>, \<open>index\<close> counting and \<open>values\<close> the set so far.\<close>

fun string_items ::
  "rstr \<Rightarrow> (rstr \<Rightarrow> rstr + rstr) \<Rightarrow> nat \<Rightarrow> node list \<Rightarrow> rstr set \<Rightarrow> config_error + rstr set" where
  "string_items field canon index [] values = Ok values"
| "string_items field canon index (item # items) values =
     (let pos = field @ lit ''['' @ show_nat index @ lit '']''
      in case item of
           Str v \<Rightarrow>
             if py_strip v = [] then Err (invalid (pos @ lit '' must be a non-empty string''))
             else and_then (map_err (\<lambda>reason. invalid (pos @ lit '': '' @ reason)) (canon v)) (\<lambda>n.
               string_items field canon (index + 1) items (insert n values))
         | _ \<Rightarrow> Err (invalid (pos @ lit '' must be a non-empty string'')))"

definition string_list ::
  "node \<Rightarrow> rstr \<Rightarrow> string \<Rightarrow> (rstr \<Rightarrow> rstr + rstr) \<Rightarrow> config_error + rstr set option" where
  "string_list raw pos key canon =
     (case get_entry raw (lit key) of
        Some (Seq items) \<Rightarrow>
          if items = [] then Ok None
          else map_ok Some (string_items (pos @ lit ''.'' @ lit key) canon 0 items {})
      | _ \<Rightarrow> Ok None)"

definition sha_field :: "node \<Rightarrow> rstr \<Rightarrow> config_error + rstr" where
  "sha_field raw pos =
     (case get_entry raw (lit ''token_sha256'') of
        Some (Str v) \<Rightarrow> Ok v
      | other \<Rightarrow>
          Err (invalid (pos @ lit ''.token_sha256 must be a quoted hex string, found ''
            @ (case other of None \<Rightarrow> lit ''nothing'' | Some n \<Rightarrow> type_name n) @ lit '' (PLAN.md D-5)'')))"

definition is_hex_lower :: "rchar \<Rightarrow> bool" where
  "is_hex_lower c \<longleftrightarrow> 48 \<le> c \<and> c \<le> 57 \<or> 97 \<le> c \<and> c \<le> 102"

definition load_policy :: "crates \<Rightarrow> node \<Rightarrow> rstr \<Rightarrow> config_error + token_policy" where
  "load_policy X raw pos =
     (if \<not> is_map raw then Err (invalid (pos @ lit '': each token entry must be a mapping''))
      else
        and_then (ok_or (invalid (pos @ lit ''.label must be a non-empty string''))
          (nonblank_str (get_entry raw (lit ''label'')))) (\<lambda>l.
        and_then (reject_placeholder (pos @ lit ''.label'') l) (\<lambda>_.
        and_then (sha_field raw pos) (\<lambda>sha0.
        and_then (reject_placeholder (pos @ lit ''.token_sha256'') sha0) (\<lambda>_.
          (let sha = std_lower X (py_strip sha0)
           in if byte_len sha \<noteq> 64 \<or> \<not> list_all (\<lambda>b. is_hex_lower (unat b)) (utf8_encode sha)
              then Err (invalid (pos @ lit ''.token_sha256 must be 64 lowercase hex chars (sha256)''))
              else
                and_then (string_list raw pos ''mailgun_domains'' (normalize_config_domain X)) (\<lambda>mg0.
                and_then (ok_or (invalid (pos @ lit ''.mailgun_domains must be a non-empty list'')) mg0) (\<lambda>mg.
                and_then (string_list raw pos ''allowed_from_domains'' (normalize_config_domain X)) (\<lambda>fd0.
                and_then (ok_or (invalid (pos @ lit ''.allowed_from_domains must be a non-empty list'')) fd0) (\<lambda>fd.
                and_then
                  (case get_entry raw (lit ''allowed_from_addresses'') of
                     None \<Rightarrow> Ok None
                   | Some Null \<Rightarrow> Ok None
                   | Some (Seq _) \<Rightarrow>
                       string_list raw pos ''allowed_from_addresses'' (normalize_config_address X)
                   | Some _ \<Rightarrow>
                       Err (invalid (pos @ lit ''.allowed_from_addresses must be a list when present''))) (\<lambda>addrs.
                  Ok \<lparr>label = l, token_sha256 = sha, mailgun_domains = mg, allowed_from_domains = fd,
                      allowed_from_addresses = addrs\<rparr>)))))))))))"

fun load_tokens ::
  "crates \<Rightarrow> nat \<Rightarrow> node list \<Rightarrow> token_policy list \<Rightarrow> config_error + token_policy list" where
  "load_tokens X index [] acc = Ok acc"
| "load_tokens X index (entry # entries) acc =
     (let pos = lit ''tokens['' @ show_nat index @ lit '']''
      in and_then (load_policy X entry pos) (\<lambda>policy.
           if list_ex (\<lambda>t. label t = label policy) acc
           then Err (invalid (pos @ lit '': duplicate token label''))
           else load_tokens X (index + 1) entries (acc @ [policy])))"

definition from_yaml :: "crates \<Rightarrow> yaml_rust2 \<Rightarrow> rstr \<Rightarrow> config_error + secrets" where
  "from_yaml X Y contents =
     and_then (map_err (\<lambda>e. invalid (lit ''secrets file: '' @ e)) (yaml_parse Y contents)) (\<lambda>node.
       if \<not> is_map node then Err (invalid (lit ''secrets file must be a top-level mapping''))
       else and_then (load_smtp (get_entry node (lit ''smtp''))) (\<lambda>credentials.
         (case get_entry node (lit ''tokens'') of
            Some (Seq items) \<Rightarrow>
              if items = [] then Err (invalid (lit ''tokens must be a non-empty list''))
              else map_ok (\<lambda>ts. \<lparr>smtp = credentials, tokens = ts\<rparr>) (load_tokens X 0 items [])
          | _ \<Rightarrow> Err (invalid (lit ''tokens must be a non-empty list'')))))"

definition load :: "crates \<Rightarrow> yaml_rust2 \<Rightarrow> files \<Rightarrow> rstr \<Rightarrow> config_error + secrets" where
  "load X Y fs path =
     (let named = (\<lambda>e. invalid (lit ''secrets file '' @ path @ lit '': '' @ e))
      in and_then (map_err named (file_mode fs path)) (\<lambda>mode.
         if mode AND FORBIDDEN_MODE_BITS \<noteq> 0
         then Err (invalid (lit ''secrets file '' @ path @ lit '' is world-accessible or group-writable (mode ''
                @ show_octal (unat (mode AND 511)) @ lit ''); restrict it to 0640 or stricter''))
         else and_then (map_err named (file_read fs path)) (\<lambda>bytes.
           and_then (ok_or (invalid (lit ''secrets file '' @ path @ lit '' is not valid UTF-8''))
             (from_utf8 bytes)) (\<lambda>t. from_yaml X Y t))))"

subsection \<open>What a loaded policy satisfies\<close>

definition wf_policy :: "crates \<Rightarrow> token_policy \<Rightarrow> bool" where
  "wf_policy X p \<longleftrightarrow> py_strip (label p) \<noteq> [] \<and> label p \<notin> set FORBIDDEN_VALUES
     \<and> length (token_sha256 p) = 64 \<and> list_all is_hex_lower (token_sha256 p)
     \<and> mailgun_domains p \<noteq> {} \<and> allowed_from_domains p \<noteq> {} \<and> allowed_from_addresses p \<noteq> Some {}
     \<and> (\<forall>d\<in>mailgun_domains p \<union> allowed_from_domains p. \<exists>v. normalize_config_domain X v = Ok d)
     \<and> (\<forall>s. allowed_from_addresses p = Some s \<longrightarrow>
          (\<forall>a\<in>s. \<exists>v. normalize_config_address X v = Ok a))"

lemma string_items_Ok:
  "string_items f canon i items acc = Ok s \<Longrightarrow> (\<forall>x\<in>acc. \<exists>v. canon v = Ok x) \<Longrightarrow>
   (\<forall>x\<in>s. \<exists>v. canon v = Ok x) \<and> acc \<subseteq> s \<and> (items \<noteq> [] \<longrightarrow> s \<noteq> {})"
proof (induction f canon i items acc rule: string_items.induct)
  case (2 f canon i item items acc)
  from "2.prems"(1) obtain v n where v: "item = Str v" "py_strip v \<noteq> []" "canon v = Ok n"
    "string_items f canon (i + 1) items (insert n acc) = Ok s"
    by (auto simp: Let_def result_simps split: node.splits if_splits)
  have "(\<forall>x\<in>s. \<exists>v. canon v = Ok x) \<and> insert n acc \<subseteq> s \<and> (items \<noteq> [] \<longrightarrow> s \<noteq> {})"
    using "2.IH" [OF refl v(1,2) _ v(4)] "2.prems"(2) v(3) by auto
  then show ?case by auto
qed simp

lemma string_list_Ok:
  assumes "string_list raw pos key canon = Ok (Some s)"
  shows "s \<noteq> {} \<and> (\<forall>x\<in>s. \<exists>v. canon v = Ok x)"
  using assms string_items_Ok [of "pos @ lit ''.'' @ lit key" canon 0 _ "{}" s]
  by (auto simp: string_list_def map_ok_Inr_iff split: option.splits node.splits if_splits)

lemma hex_bytes_chars:
  assumes "list_all (\<lambda>b. is_hex_lower (unat b)) (utf8_encode s)"
  shows "list_all is_hex_lower s \<and> length s = byte_len s"
  using assms
proof (induction s)
  case (Cons c s)
  have "c < 128"
  proof (rule ccontr)
    assume "\<not> c < 128"
    then have "of_nat (128 + c mod 64) \<in> set (utf8_char c)"
      by (auto simp: utf8_char_def simp del: of_nat_add)
    with Cons.prems have "is_hex_lower (unat (of_nat (128 + c mod 64) :: u8))"
      by (auto simp: list_all_iff)
    moreover have "unat (of_nat (128 + c mod 64) :: u8) = 128 + c mod 64"
      by (rule unat_byte) simp
    ultimately show False by (simp add: is_hex_lower_def)
  qed
  then have "utf8_char c = [of_nat c]" "unat (of_nat c :: u8) = c"
    by (simp_all add: utf8_char_def unat_byte)
  with Cons show ?case by simp
qed simp

lemma load_policy_wf:
  assumes "load_policy X raw pos = Ok p"
  shows "wf_policy X p"
proof -
  from assms obtain l sha0 mg fd addrs where *:
    "nonblank_str (get_entry raw (lit ''label'')) = Some l" "l \<notin> set FORBIDDEN_VALUES"
    "byte_len (std_lower X (py_strip sha0)) = 64"
    "list_all (\<lambda>b. is_hex_lower (unat b)) (utf8_encode (std_lower X (py_strip sha0)))"
    "string_list raw pos ''mailgun_domains'' (normalize_config_domain X) = Ok (Some mg)"
    "string_list raw pos ''allowed_from_domains'' (normalize_config_domain X) = Ok (Some fd)"
    "addrs = None \<or> string_list raw pos ''allowed_from_addresses'' (normalize_config_address X) = Ok addrs"
    "p = \<lparr>label = l, token_sha256 = std_lower X (py_strip sha0), mailgun_domains = mg,
       allowed_from_domains = fd, allowed_from_addresses = addrs\<rparr>"
    by (auto simp: load_policy_def Let_def and_then_Inr_iff ok_or_Inr_iff reject_placeholder_def
        split: if_splits option.splits node.splits)
  have "py_strip l \<noteq> []" using *(1) by (auto simp: nonblank_str_def split: option.splits if_splits)
  with * hex_bytes_chars [OF *(4)] string_list_Ok [OF *(5)] string_list_Ok [OF *(6)]
    string_list_Ok [of raw pos "''allowed_from_addresses''" "normalize_config_address X"]
  show ?thesis
    by (cases addrs) (auto simp: wf_policy_def)
qed

lemma load_tokens_Ok:
  "load_tokens X i entries acc = Ok ts \<Longrightarrow> list_all (wf_policy X) acc \<Longrightarrow> distinct (map label acc) \<Longrightarrow>
   list_all (wf_policy X) ts \<and> distinct (map label ts) \<and> length ts = length acc + length entries"
proof (induction X i entries acc rule: load_tokens.induct)
  case (2 X i entry entries acc)
  from "2.prems"(1) obtain p where p: "load_policy X entry (lit ''tokens['' @ show_nat i @ lit '']'') = Ok p"
    "\<not> list_ex (\<lambda>t. label t = label p) acc" "load_tokens X (i + 1) entries (acc @ [p]) = Ok ts"
    by (auto simp: Let_def and_then_Inr_iff split: if_splits)
  have "distinct (map label (acc @ [p]))" using "2.prems"(3) p(2) by (auto simp: list_ex_iff)
  moreover have "list_all (wf_policy X) (acc @ [p])" using "2.prems"(2) load_policy_wf [OF p(1)] by simp
  ultimately show ?case using "2.IH" [OF refl p] by simp
qed simp

lemma from_yaml_Ok:
  assumes "from_yaml X Y t = Ok s"
  obtains items where "items \<noteq> []" "load_tokens X 0 items [] = Ok (tokens s)"
    "username (smtp s) \<notin> set FORBIDDEN_VALUES" "password (smtp s) \<notin> set FORBIDDEN_VALUES"
    "py_strip (username (smtp s)) \<noteq> []"
  using assms
  by (auto simp: from_yaml_def load_smtp_def nonblank_str_def reject_placeholder_def and_then_Inr_iff
      ok_or_Inr_iff map_ok_Inr_iff split: if_splits option.splits node.splits)

text \<open>C39: a loaded secrets file is well formed: at least one token; labels not blank and pairwise
  distinct; every token hash 64 lowercase hex digits; no placeholder among the labels, the SMTP
  user name or the password; non-empty sets of mailgun and from domains, each a name the
  configuration normalises to; and no empty address list in place of none.\<close>

theorem from_yaml_sound:
  assumes "from_yaml X Y t = Ok s"
  shows "tokens s \<noteq> [] \<and> list_all (wf_policy X) (tokens s) \<and> distinct (map label (tokens s))
     \<and> username (smtp s) \<notin> set FORBIDDEN_VALUES \<and> password (smtp s) \<notin> set FORBIDDEN_VALUES
     \<and> py_strip (username (smtp s)) \<noteq> []"
proof -
  obtain items where *: "items \<noteq> []" "load_tokens X 0 items [] = Ok (tokens s)"
    "username (smtp s) \<notin> set FORBIDDEN_VALUES" "password (smtp s) \<notin> set FORBIDDEN_VALUES"
    "py_strip (username (smtp s)) \<noteq> []"
    by (rule from_yaml_Ok [OF assms])
  have "length (tokens s) = length items"
    using load_tokens_Ok [OF *(2)] by simp
  then have "tokens s \<noteq> []" using *(1) by auto
  with * load_tokens_Ok [OF *(2)] show ?thesis by simp
qed

text \<open>A secrets file that others may read or write, or the group may write or execute, is
  refused before a byte of it is read: whatever the file holds, loading it fails, with the
  mode in the message.\<close>

lemma load_checks_mode:
  assumes "file_mode fs path = Ok mode" "mode AND 31 \<noteq> 0"
  shows "load X Y fs path = Err (ConfigError (lit ''secrets file '' @ path
      @ lit '' is world-accessible or group-writable (mode '' @ show_octal (unat (mode AND 511))
      @ lit ''); restrict it to 0640 or stricter''))
    \<and> load X Y fs path = load X Y (fs\<lparr>file_read := r\<rparr>) path"
  using assms by (simp add: load_def invalid_def FORBIDDEN_MODE_BITS_def)

definition example_files :: "32 word \<Rightarrow> rstr \<Rightarrow> files" where
  "example_files mode contents = \<lparr>file_mode = (\<lambda>_. Ok mode), file_read = (\<lambda>_. Ok (utf8_encode contents))\<rparr>"

definition example_secrets_tree :: node where
  "example_secrets_tree = Map
    [(Some (lit ''smtp''), Map [(Some (lit ''username''), Str (lit ''u'')), (Some (lit ''password''), Str (lit ''p''))]),
     (Some (lit ''tokens''), Seq [Map
       [(Some (lit ''label''), Str (lit ''svc'')),
        (Some (lit ''token_sha256''), Str (replicate 64 97)),
        (Some (lit ''mailgun_domains''), Seq [Str (lit ''mg.example.com'')]),
        (Some (lit ''allowed_from_domains''), Seq [Str (lit ''Example.com''), Str (lit ''example.com'')]),
        (Some (lit ''allowed_from_addresses''), Seq [Str (lit ''App@example.com'')])]])]"

definition example_yaml :: yaml_rust2 where
  "example_yaml = \<lparr>scan_tokens = (\<lambda>_. []),
     parse_events = (\<lambda>_. \<lparr>stream_events = (DocumentStart, 1) # on_line 1 (events_of example_secrets_tree),
                         stream_error = None\<rparr>)\<rparr>"

definition example_secrets :: secrets where
  "example_secrets = \<lparr>smtp = \<lparr>username = lit ''u'', password = lit ''p''\<rparr>,
     tokens = [\<lparr>label = lit ''svc'', token_sha256 = replicate 64 97,
       mailgun_domains = {lit ''mg.example.com''}, allowed_from_domains = {lit ''example.com''},
       allowed_from_addresses = Some {lit ''app@example.com''}\<rparr>]\<rparr>"

lemma example_from_yaml: "from_yaml ascii_crates example_yaml (lit ''x'') = Ok example_secrets"
proof -
  have "plain_tree example_secrets_tree" "depth example_secrets_tree \<le> MAX_DEPTH"
    by (simp_all add: example_secrets_tree_def MAX_DEPTH_def)
  then obtain b where "yaml_steps ((DocumentStart, 1) # on_line 1 (events_of example_secrets_tree)) empty_builder = Ok b"
    "doc_root b = Some example_secrets_tree"
    using builds_plain_tree [of example_secrets_tree 1]
    by (auto simp: builds_def expects_key_def empty_builder_def add_node_def)
  moreover have "check_characters (lit ''x'') = Ok ()" "replace_all [CR, LF] [LF] (lit ''x'') = lit ''x''"
    "map (\<lambda>c. if c = CR then LF else c) (lit ''x'') = lit ''x''"
    "strip_prefix [0xFEFF] (lit ''x'') = None"
    by code_simp+
  ultimately have "yaml_parse example_yaml (lit ''x'') = Ok example_secrets_tree"
    by (simp add: yaml_parse_def example_yaml_def Let_def check_tokens_def)
  moreover have "load_smtp (get_entry example_secrets_tree (lit ''smtp''))
      = Ok \<lparr>username = lit ''u'', password = lit ''p''\<rparr>" by code_simp
  moreover have "(case get_entry example_secrets_tree (lit ''tokens'') of
      Some (Seq items) \<Rightarrow> if items = [] then Err (invalid (lit ''tokens must be a non-empty list''))
        else map_ok (\<lambda>ts. \<lparr>smtp = \<lparr>username = lit ''u'', password = lit ''p''\<rparr>, tokens = ts\<rparr>)
          (load_tokens ascii_crates 0 items [])
      | _ \<Rightarrow> Err (invalid (lit ''tokens must be a non-empty list''))) = Ok example_secrets"
    by code_simp
  moreover have "is_map example_secrets_tree" by (simp add: example_secrets_tree_def)
  ultimately show ?thesis by (simp add: from_yaml_def)
qed

theorem from_yaml_sound_witness:
  "tokens example_secrets \<noteq> [] \<and> list_all (wf_policy ascii_crates) (tokens example_secrets)
     \<and> distinct (map label (tokens example_secrets))
     \<and> username (smtp example_secrets) \<notin> set FORBIDDEN_VALUES
     \<and> password (smtp example_secrets) \<notin> set FORBIDDEN_VALUES
     \<and> py_strip (username (smtp example_secrets)) \<noteq> []"
  by (rule from_yaml_sound [OF example_from_yaml])

end
