(* ===== verification/Smtp.thy ===== *)
theory Smtp
  imports Mime_Types Secrets
begin

text \<open>
  \<open>rust/src/smtp.rs\<close>: one SMTP session per message over the connection API of \<open>lettre\<close>.  The crate
  is the parameter \<open>lettre\<close>: functions from a connection state to a reply and the next state.
  Every operation of the session goes through a wrapper that appends it, with its reply, to the
  history of the connection; the history is what the protocol automaton and the properties
  speak about.  \<open>phase\<close> and \<open>smtp_step\<close> are the abstract specification, \<open>session_conforms\<close> the
  refinement: every session is a run of the automaton.
\<close>

datatype submit_error = Temporary | Permanent

record refusal =
  refused_address :: rstr
  refused_code :: "nat option"

type_synonym smtp_address = "rstr \<times> rstr"

subsection \<open>The configuration\<close>

record smtp_config =
  sc_host :: rstr
  sc_port :: "16 word"
  sc_tls :: bool
  sc_credentials :: smtp_credentials
  sc_timeout :: f64
  sc_sender :: "smtp_address option"

definition is_envelope_printable :: "rstr \<Rightarrow> bool" where
  "is_envelope_printable s \<longleftrightarrow>
     s \<noteq> [] \<and> list_all (\<lambda>b. 33 \<le> unat b \<and> unat b \<le> 126 \<and> b \<noteq> 60 \<and> b \<noteq> 62) (utf8_encode s)"

definition envelope_address :: "rstr \<Rightarrow> smtp_address option" where
  "envelope_address address =
     (case rsplit_once 64 address of
        None \<Rightarrow> None
      | Some (local, domain) \<Rightarrow>
          if is_envelope_printable local \<and> is_envelope_printable domain
          then Some (local, domain) else None)"

text \<open>Reading the CA file, and what \<open>rustls\<close> makes of its certificates.\<close>

record tls_crates =
  ca_read :: "rstr \<Rightarrow> rstr + u8 list"
  pem_certificates :: "u8 list \<Rightarrow> u8 list list option"
  certificate_from_der :: "u8 list \<Rightarrow> rstr + u8 list"
  build_rustls :: "rstr \<Rightarrow> u8 list list \<Rightarrow> rstr + unit"

definition ca_error :: "crates \<Rightarrow> settings \<Rightarrow> rstr \<Rightarrow> config_error" where
  "ca_error X s reason = ConfigError (lit ''MAILGUN_RELAY_SMTP_CA_FILE ''
     @ std_debug X (smtp_ca_file s) @ lit '': '' @ reason @ lit '' (PLAN.md D-22)'')"

text \<open>Whether the session uses STARTTLS; a configured CA file must be usable in either case.\<close>

definition tls_parameters :: "crates \<Rightarrow> tls_crates \<Rightarrow> settings \<Rightarrow> config_error + bool" where
  "tls_parameters X T s =
     (let finish = (\<lambda>certificates.
            map_ok (\<lambda>_. smtp_starttls s)
              (map_err (\<lambda>e. ca_error X s (lit ''unusable certificate: '' @ e))
                (build_rustls T (smtp_host s) certificates)))
      in if smtp_ca_file s \<noteq> [] then
           and_then (map_err (\<lambda>e. ca_error X s (lit ''cannot read: '' @ e)) (ca_read T (smtp_ca_file s))) (\<lambda>pem.
           and_then (ok_or (ca_error X s (lit ''not a valid PEM certificate bundle'')) (pem_certificates T pem)) (\<lambda>certificates.
             if certificates = [] then Err (ca_error X s (lit ''no PEM certificate''))
             else and_then (try_map (\<lambda>c. map_err (\<lambda>e. ca_error X s (lit ''unusable certificate: '' @ e))
                    (certificate_from_der T c)) certificates) finish))
         else if \<not> smtp_starttls s then Ok False
         else finish [])"

definition load_config ::
  "crates \<Rightarrow> tls_crates \<Rightarrow> settings \<Rightarrow> smtp_credentials \<Rightarrow> config_error + smtp_config" where
  "load_config X T s credentials =
     and_then
       (if envelope_sender s = [] then Ok None
        else map_ok Some (ok_or (ConfigError (lit ''MAILGUN_RELAY_ENVELOPE_SENDER: not an ASCII address''))
               (envelope_address (envelope_sender s)))) (\<lambda>sender.
     and_then (tls_parameters X T s) (\<lambda>tls.
       Ok \<lparr>sc_host = smtp_host s, sc_port = smtp_port s, sc_tls = tls, sc_credentials = credentials,
          sc_timeout = smtp_timeout_s s, sc_sender = sender\<rparr>))"

subsection \<open>The connection\<close>

record lettre_error =
  err_code :: "nat option"
  err_client :: bool
  err_timeout :: bool

datatype mechanism = Plain | Login

datatype smtp_command = MAIL "smtp_address option" | RCPT smtp_address | DATA | QUIT

type_synonym reply = "lettre_error + nat"

record ('a, 'c) lettre =
  lookup_host :: "rstr \<Rightarrow> 16 word \<Rightarrow> 'a list option"
  tcp_connect :: "'a \<Rightarrow> f64 \<Rightarrow> 'c option"
  connect_with_transport :: "'c \<Rightarrow> (lettre_error \<times> bool) + 'c"
    \<comment> \<open>the error, and whether anything had been written by then\<close>
  starttls_op :: "'c \<Rightarrow> lettre_error option \<times> 'c"
  is_encrypted :: "'c \<Rightarrow> bool"
  supports_auth_mechanism :: "'c \<Rightarrow> mechanism \<Rightarrow> bool"
  auth_op :: "mechanism \<Rightarrow> smtp_credentials \<Rightarrow> 'c \<Rightarrow> reply \<times> 'c"
  command_op :: "smtp_command \<Rightarrow> 'c \<Rightarrow> reply \<times> 'c"
  message_op :: "u8 list list \<Rightarrow> 'c \<Rightarrow> reply \<times> 'c"
  has_broken :: "'c \<Rightarrow> bool"

text \<open>An established encryption lasts: \<open>auth\<close> on an encrypted connection leaves it encrypted.\<close>

definition stays_encrypted :: "('a, 'c) lettre \<Rightarrow> bool" where
  "stays_encrypted L \<longleftrightarrow>
     (\<forall>m cr c. is_encrypted L c \<longrightarrow> is_encrypted L (snd (auth_op L m cr c)))"

text \<open>What happened on a connection.\<close>

datatype smtp_event =
    EvStartTls "lettre_error option" bool  \<comment> \<open>encrypted afterwards?\<close>
  | EvAuth mechanism bool reply  \<comment> \<open>encrypted before?\<close>
  | EvCommand smtp_command reply
  | EvMessage "u8 list list" reply

type_synonym 'c conn = "'c \<times> smtp_event list"

definition do_starttls :: "('a, 'c) lettre \<Rightarrow> 'c conn \<Rightarrow> lettre_error option \<times> 'c conn" where
  "do_starttls L conn =
     (case starttls_op L (fst conn) of
        (r, c) \<Rightarrow> (r, (c, snd conn @ [EvStartTls r (is_encrypted L c)])))"

definition do_auth ::
  "('a, 'c) lettre \<Rightarrow> mechanism \<Rightarrow> smtp_credentials \<Rightarrow> 'c conn \<Rightarrow> reply \<times> 'c conn" where
  "do_auth L m cr conn =
     (case auth_op L m cr (fst conn) of
        (r, c) \<Rightarrow> (r, (c, snd conn @ [EvAuth m (is_encrypted L (fst conn)) r])))"

definition do_command :: "('a, 'c) lettre \<Rightarrow> smtp_command \<Rightarrow> 'c conn \<Rightarrow> reply \<times> 'c conn" where
  "do_command L cmd conn =
     (case command_op L cmd (fst conn) of (r, c) \<Rightarrow> (r, (c, snd conn @ [EvCommand cmd r])))"

definition do_message :: "('a, 'c) lettre \<Rightarrow> u8 list list \<Rightarrow> 'c conn \<Rightarrow> reply \<times> 'c conn" where
  "do_message L body conn =
     (case message_op L body (fst conn) of (r, c) \<Rightarrow> (r, (c, snd conn @ [EvMessage body r])))"

subsection \<open>Judging replies\<close>

text \<open>A failed step: the outcome, and whether the channel is still open for \<open>QUIT\<close>.\<close>

type_synonym smtp_failure = "submit_error \<times> bool"

definition by_code :: "nat \<Rightarrow> submit_error" where
  "by_code code = (if 400 \<le> code \<and> code < 500 then Temporary else Permanent)"

definition failure_of :: "lettre_error \<Rightarrow> smtp_failure" where
  "failure_of e =
     (case err_code e of
        Some code \<Rightarrow> (by_code code, code \<noteq> 421)
      | None \<Rightarrow> (Temporary, err_client e))"

definition require :: "nat \<Rightarrow> nat list \<Rightarrow> smtp_failure + unit" where
  "require code wanted = (if code \<in> set wanted then Ok () else Err (Permanent, True))"

text \<open>\<open>require(&reply.map_err(failure)?, wanted)?\<close>.\<close>

definition judge :: "reply \<Rightarrow> nat list \<Rightarrow> smtp_failure + unit" where
  "judge r wanted = and_then (map_err failure_of r) (\<lambda>code. require code wanted)"

subsection \<open>The session\<close>

fun login_loop ::
  "('a, 'c) lettre \<Rightarrow> smtp_credentials \<Rightarrow> mechanism list \<Rightarrow> 'c conn \<Rightarrow> (smtp_failure + unit) \<times> 'c conn"
where
  "login_loop L cr [] conn = (Err (Permanent, True), conn)"
| "login_loop L cr (m # ms) conn =
     (case do_auth L m cr conn of
        (Inr code, conn') \<Rightarrow> if code = 235 then (Ok (), conn') else login_loop L cr ms conn'
      | (Inl e, conn') \<Rightarrow>
          if err_code e = None \<or> err_code e = Some 421 then (Err (failure_of e), conn')
          else login_loop L cr ms conn')"

definition login ::
  "('a, 'c) lettre \<Rightarrow> smtp_config \<Rightarrow> 'c conn \<Rightarrow> (smtp_failure + unit) \<times> 'c conn" where
  "login L cfg conn =
     (let offered = filter (supports_auth_mechanism L (fst conn)) [Plain, Login]
      in if offered = [] then (Err (Temporary, True), conn)
         else login_loop L (sc_credentials cfg) offered conn)"

text \<open>The loop over the recipients: how many were accepted, who was refused, whether by 421.\<close>

fun rcpt_loop ::
  "('a, 'c) lettre \<Rightarrow> (smtp_address \<times> rstr) list \<Rightarrow> nat \<Rightarrow> refusal list \<Rightarrow> 'c conn
   \<Rightarrow> (smtp_failure + nat \<times> refusal list \<times> bool) \<times> 'c conn" where
  "rcpt_loop L [] accepted refused conn = (Ok (accepted, refused, False), conn)"
| "rcpt_loop L ((address, raw) # rest) accepted refused conn =
     (case do_command L (RCPT address) conn of
        (r, conn') \<Rightarrow>
          (case (case r of Inr code \<Rightarrow> Ok code
                 | Inl e \<Rightarrow> (case err_code e of Some code \<Rightarrow> Ok code | None \<Rightarrow> Err (failure_of e))) of
             Inl f \<Rightarrow> (Err f, conn')
           | Inr reply \<Rightarrow>
               if reply = 250 \<or> reply = 251 then rcpt_loop L rest (accepted + 1) refused conn'
               else
                 (let refused' = refused @ [\<lparr>refused_address = raw, refused_code = Some reply\<rparr>]
                  in if reply = 421 then (Ok (accepted, refused', True), conn')
                     else rcpt_loop L rest accepted refused' conn')))"

definition MESSAGE_CHUNK :: nat where "MESSAGE_CHUNK = 64 * 1024"

function chunks :: "'b list \<Rightarrow> 'b list list" where
  "chunks xs = (if xs = [] then [] else take MESSAGE_CHUNK xs # chunks (drop MESSAGE_CHUNK xs))"
  by pat_completeness auto
termination by (relation "measure length") (auto simp: MESSAGE_CHUNK_def)

declare chunks.simps [simp del]

definition refusals_error :: "refusal list \<Rightarrow> submit_error" where
  "refusals_error refused =
     (if list_ex (\<lambda>r. case refused_code r of None \<Rightarrow> False | Some c \<Rightarrow> 400 \<le> c \<and> c < 500) refused
      then Temporary else Permanent)"

definition deliver ::
  "('a, 'c) lettre \<Rightarrow> built_message \<Rightarrow> refusal list \<Rightarrow> 'c conn \<Rightarrow> (smtp_failure + refusal list) \<times> 'c conn"
where
  "deliver L m refused conn =
     (case do_command L DATA conn of
        (r, conn') \<Rightarrow>
          (case judge r [354] of
             Inl f \<Rightarrow> (Err f, conn')
           | Inr _ \<Rightarrow>
               (let body = (case strip_suffix CRLF (formatted m) of Some b \<Rightarrow> b | None \<Rightarrow> formatted m)
                in case do_message L (chunks body) conn' of
                     (r', conn'') \<Rightarrow>
                       (case judge r' [250] of
                          Inl f \<Rightarrow> (Err f, conn'')
                        | Inr _ \<Rightarrow> (Ok refused, conn'')))))"

definition after_recipients ::
  "('a, 'c) lettre \<Rightarrow> built_message \<Rightarrow> nat \<times> refusal list \<times> bool \<Rightarrow> 'c conn
   \<Rightarrow> (smtp_failure + refusal list) \<times> 'c conn" where
  "after_recipients L m result conn =
     (case result of (accepted, refused, gone) \<Rightarrow>
        if accepted = 0 \<or> gone then (Err (refusals_error refused, \<not> gone), conn)
        else deliver L m refused conn)"

definition mail_and_recipients ::
  "('a, 'c) lettre \<Rightarrow> smtp_config \<Rightarrow> (smtp_address \<times> rstr) list \<Rightarrow> built_message \<Rightarrow> 'c conn
   \<Rightarrow> (smtp_failure + refusal list) \<times> 'c conn" where
  "mail_and_recipients L cfg recipients m conn =
     (case do_command L (MAIL (sc_sender cfg)) conn of
        (r, conn') \<Rightarrow>
          (case judge r [250] of
             Inl f \<Rightarrow> (Err f, conn')
           | Inr _ \<Rightarrow>
               (case rcpt_loop L recipients 0 [] conn' of
                  (Inl f, conn'') \<Rightarrow> (Err f, conn'')
                | (Inr result, conn'') \<Rightarrow> after_recipients L m result conn'')))"

definition secured ::
  "('a, 'c) lettre \<Rightarrow> smtp_config \<Rightarrow> (smtp_address \<times> rstr) list \<Rightarrow> built_message \<Rightarrow> 'c conn
   \<Rightarrow> (smtp_failure + refusal list) \<times> 'c conn" where
  "secured L cfg recipients m conn =
     (if \<not> is_encrypted L (fst conn) then (Err (Permanent, True), conn)
      else (case login L cfg conn of
              (Inl f, conn') \<Rightarrow> (Err f, conn')
            | (Inr _, conn') \<Rightarrow> mail_and_recipients L cfg recipients m conn'))"

definition transaction ::
  "('a, 'c) lettre \<Rightarrow> smtp_config \<Rightarrow> (smtp_address \<times> rstr) list \<Rightarrow> built_message \<Rightarrow> 'c conn
   \<Rightarrow> (smtp_failure + refusal list) \<times> 'c conn" where
  "transaction L cfg recipients m conn =
     (if sc_tls cfg then
        (case do_starttls L conn of
           (Some e, conn') \<Rightarrow>
             (Err (if is_encrypted L (fst conn') then (Temporary, False) else failure_of e), conn')
         | (None, conn') \<Rightarrow> secured L cfg recipients m conn')
      else secured L cfg recipients m conn)"

definition ehlo_failure :: "smtp_config \<Rightarrow> lettre_error \<Rightarrow> submit_error" where
  "ehlo_failure cfg e =
     (if err_code e \<noteq> None \<and> \<not> sc_tls cfg then Permanent else Temporary)"

text \<open>The class logged as \<open>smtp_cleanup_failed\<close>, if any.\<close>

definition quit :: "('a, 'c) lettre \<Rightarrow> 'c conn \<Rightarrow> rstr option \<times> 'c conn" where
  "quit L conn =
     (case do_command L QUIT conn of
        (r, conn') \<Rightarrow>
          ((case r of
              Inr code \<Rightarrow> if code = 221 then None else Some (lit ''UnexpectedReply'')
            | Inl e \<Rightarrow> if err_code e \<noteq> None then Some (lit ''NegativeReply'')
                else if err_timeout e then Some (lit ''Timeout'') else Some (lit ''Disconnected'')), conn'))"

fun try_addresses :: "('a, 'c) lettre \<Rightarrow> f64 \<Rightarrow> 'a list \<Rightarrow> 'c option" where
  "try_addresses L timeout [] = None"
| "try_addresses L timeout (a # as) =
     (case tcp_connect L a timeout of Some c \<Rightarrow> Some c | None \<Rightarrow> try_addresses L timeout as)"

definition connect :: "('a, 'c) lettre \<Rightarrow> smtp_config \<Rightarrow> 'c option" where
  "connect L cfg =
     (case lookup_host L (sc_host cfg) (sc_port cfg) of
        None \<Rightarrow> None
      | Some addresses \<Rightarrow> try_addresses L (sc_timeout cfg) addresses)"

fun envelope_addresses :: "rstr list \<Rightarrow> (smtp_address \<times> rstr) list option" where
  "envelope_addresses [] = Some []"
| "envelope_addresses (a # as) =
     (case envelope_address a of
        None \<Rightarrow> None
      | Some p \<Rightarrow> map_option (\<lambda>ps. (p, a) # ps) (envelope_addresses as))"

record session_result =
  outcome :: "submit_error + refusal list"
  history :: "smtp_event list"
  cleanup_failed :: "rstr option"

definition session :: "('a, 'c) lettre \<Rightarrow> smtp_config \<Rightarrow> built_message \<Rightarrow> session_result" where
  "session L cfg m =
     (let failed = (\<lambda>e. \<lparr>outcome = Err e, history = [], cleanup_failed = None\<rparr>)
      in case envelope_addresses (envelope m) of
           None \<Rightarrow> failed Temporary
         | Some recipients \<Rightarrow>
             (case connect L cfg of
                None \<Rightarrow> failed Temporary
              | Some stream \<Rightarrow>
                  (case connect_with_transport L stream of
                     Inl (e, written) \<Rightarrow>
                       failed (if \<not> written then fst (failure_of e) else ehlo_failure cfg e)
                   | Inr c \<Rightarrow>
                       (case transaction L cfg recipients m (c, []) of
                          (result, conn) \<Rightarrow>
                            (let open_channel = (case result of Inr _ \<Rightarrow> True | Inl f \<Rightarrow> snd f);
                                 final = (if open_channel \<and> \<not> has_broken L (fst conn)
                                          then quit L conn else (None, conn))
                             in \<lparr>outcome = map_err fst result, history = snd (snd final),
                                 cleanup_failed = fst final\<rparr>)))))"

subsection \<open>The abstract protocol\<close>

text \<open>
  The phases a client may be in, and which event may happen in which phase.  \<open>Stopped\<close> allows
  only \<open>QUIT\<close>, \<open>Closed\<close> (the connection is gone) and \<open>Ended\<close> (after \<open>QUIT\<close>) nothing.
\<close>

datatype phase = Open | LoggedIn | Envelope nat | DataReady | Delivered | Stopped | Closed | Ended

definition after_failure :: "reply \<Rightarrow> phase" where
  "after_failure r = (case r of Inr _ \<Rightarrow> Stopped | Inl e \<Rightarrow> if snd (failure_of e) then Stopped else Closed)"

definition reply_code :: "reply \<Rightarrow> nat option" where
  "reply_code r = (case r of Inr code \<Rightarrow> Some code | Inl e \<Rightarrow> err_code e)"

inductive smtp_step :: "phase \<Rightarrow> smtp_event \<Rightarrow> phase \<Rightarrow> bool" where
  tls_ok: "smtp_step Open (EvStartTls None enc) Open"
| tls_failed: "\<not> enc \<Longrightarrow> smtp_step Open (EvStartTls (Some e) enc) (after_failure (Inl e))"
| tls_half: "smtp_step Open (EvStartTls (Some e) True) Closed"
| auth_ok: "smtp_step Open (EvAuth m True (Inr 235)) LoggedIn"
| auth_refused: "reply_code r = Some code \<Longrightarrow> r \<noteq> Inr 235 \<Longrightarrow> r = Inr code \<or> code \<noteq> 421 \<Longrightarrow>
    smtp_step Open (EvAuth m True r) Open"
| auth_failed: "err_code e = None \<or> err_code e = Some 421 \<Longrightarrow>
    smtp_step Open (EvAuth m True (Inl e)) (after_failure (Inl e))"
| mail_ok: "smtp_step LoggedIn (EvCommand (MAIL s) (Inr 250)) (Envelope 0)"
| mail_failed: "r \<noteq> Inr 250 \<Longrightarrow> smtp_step LoggedIn (EvCommand (MAIL s) r) (after_failure r)"
| rcpt_ok: "reply_code r = Some 250 \<or> reply_code r = Some 251 \<Longrightarrow>
    smtp_step (Envelope n) (EvCommand (RCPT a) r) (Envelope (Suc n))"
| rcpt_refused: "reply_code r = Some code \<Longrightarrow> code \<notin> {250, 251, 421} \<Longrightarrow>
    smtp_step (Envelope n) (EvCommand (RCPT a) r) (Envelope n)"
| rcpt_closed: "reply_code r = Some 421 \<Longrightarrow> smtp_step (Envelope n) (EvCommand (RCPT a) r) Closed"
| rcpt_failed: "err_code e = None \<Longrightarrow>
    smtp_step (Envelope n) (EvCommand (RCPT a) (Inl e)) (after_failure (Inl e))"
| data_ok: "smtp_step (Envelope (Suc n)) (EvCommand DATA (Inr 354)) DataReady"
| data_failed: "r \<noteq> Inr 354 \<Longrightarrow> smtp_step (Envelope (Suc n)) (EvCommand DATA r) (after_failure r)"
| message_ok: "smtp_step DataReady (EvMessage body (Inr 250)) Delivered"
| message_failed: "r \<noteq> Inr 250 \<Longrightarrow> smtp_step DataReady (EvMessage body r) (after_failure r)"
| quit: "p \<in> {Open, Stopped, Envelope 0, Delivered} \<Longrightarrow> smtp_step p (EvCommand QUIT r) Ended"

inductive_cases smtp_step_authE: "smtp_step p (EvAuth m enc r) q"
inductive_cases smtp_step_dataE: "smtp_step p (EvCommand DATA r) q"
inductive_cases smtp_step_messageE: "smtp_step p (EvMessage body r) q"
inductive_cases smtp_step_quitE: "smtp_step p (EvCommand QUIT r) q"
inductive_cases smtp_step_closedE: "smtp_step Closed e q"
inductive_cases smtp_step_rcptE: "smtp_step p (EvCommand (RCPT a) r) q"

inductive smtp_run :: "smtp_event list \<Rightarrow> phase \<Rightarrow> bool" where
  start: "smtp_run [] Open"
| step: "smtp_run h p \<Longrightarrow> smtp_step p e q \<Longrightarrow> smtp_run (h @ [e]) q"

definition may_quit :: "phase \<Rightarrow> bool" where
  "may_quit p \<longleftrightarrow> p \<in> {Open, Stopped, Envelope 0, Delivered}"

subsection \<open>Each operation is a run of the protocol\<close>

text \<open>Where a failed operation leaves the protocol: \<open>QUIT\<close> is allowed when the channel is open.\<close>

definition stops :: "smtp_failure \<Rightarrow> smtp_event list \<Rightarrow> bool" where
  "stops f h \<longleftrightarrow> (\<exists>p. smtp_run h p \<and> p \<noteq> Delivered \<and> p \<noteq> Ended \<and> (snd f \<longrightarrow> may_quit p))"

lemma stopsI: "smtp_run h p \<Longrightarrow> p \<noteq> Delivered \<Longrightarrow> p \<noteq> Ended \<Longrightarrow> (snd f \<Longrightarrow> may_quit p) \<Longrightarrow> stops f h"
  by (auto simp: stops_def)

lemma after_failure_phase [simp]: "after_failure r \<noteq> Delivered" "after_failure r \<noteq> Ended"
  by (auto simp: after_failure_def split: sum.splits)

lemma stops_after_failure: "smtp_run h (after_failure (Inl e)) \<Longrightarrow> stops (failure_of e) h"
  by (rule stopsI, assumption, (rule after_failure_phase)+) (simp add: after_failure_def may_quit_def)

lemma judge_Inr: "judge r [code] = Inr u \<longleftrightarrow> r = Inr code"
  by (cases r) (auto simp: judge_def require_def)

lemma judge_Inl:
  assumes "judge r [code] = Inl f"
  shows "r \<noteq> Inr code \<and> (snd f \<longrightarrow> may_quit (after_failure r))"
  using assms by (cases r) (auto simp: judge_def require_def after_failure_def may_quit_def split: if_splits)

lemma login_loop_run:
  assumes L: "stays_encrypted L"
  shows "login_loop L cr ms conn = (res, conn') \<Longrightarrow> smtp_run (snd conn) Open \<Longrightarrow>
    is_encrypted L (fst conn) \<Longrightarrow>
    (case res of Inr _ \<Rightarrow> smtp_run (snd conn') LoggedIn | Inl f \<Rightarrow> stops f (snd conn'))"
proof (induction ms arbitrary: conn)
  case Nil
  then show ?case by (auto simp: may_quit_def intro!: stopsI)
next
  case (Cons m ms)
  obtain r c' where a: "auth_op L m cr (fst conn) = (r, c')" by fastforce
  let ?h = "snd conn @ [EvAuth m True r]"
  have d: "do_auth L m cr conn = (r, (c', ?h))"
    using Cons.prems(3) by (simp add: do_auth_def a)
  have enc: "is_encrypted L c'"
    using L Cons.prems(3) a by (metis snd_conv stays_encrypted_def)
  consider (ok) "r = Inr 235" | (bad) e where "r = Inl e" "err_code e = None \<or> err_code e = Some 421"
    | (again) code where "reply_code r = Some code" "r \<noteq> Inr 235" "r = Inr code \<or> code \<noteq> 421"
    by (cases r; cases "reply_code r") (auto simp: reply_code_def)
  then show ?case
  proof cases
    case ok
    with Cons.prems(1) d have "res = Ok ()" "conn' = (c', ?h)" by auto
    with ok show ?thesis
      using smtp_run.step [OF Cons.prems(2) smtp_step.auth_ok] by simp
  next
    case bad
    with Cons.prems(1) d have res: "res = Err (failure_of e)" "conn' = (c', ?h)" by auto
    have "smtp_run ?h (after_failure r)"
      using smtp_run.step [OF Cons.prems(2) smtp_step.auth_failed] bad by simp
    with res bad show ?thesis by (auto simp: stops_after_failure)
  next
    case again
    then have "login_loop L cr (m # ms) conn = login_loop L cr ms (c', ?h)"
      by (auto simp: d reply_code_def split: sum.splits)
    moreover have "smtp_run ?h Open"
      by (rule smtp_run.step [OF Cons.prems(2) smtp_step.auth_refused [OF again]])
    ultimately show ?thesis using Cons.IH [of "(c', ?h)"] Cons.prems(1) enc by simp
  qed
qed

lemma login_run:
  assumes "stays_encrypted L" "login L cfg conn = (res, conn')" "smtp_run (snd conn) Open"
    "is_encrypted L (fst conn)"
  shows "case res of Inr _ \<Rightarrow> smtp_run (snd conn') LoggedIn | Inl f \<Rightarrow> stops f (snd conn')"
proof (cases "filter (supports_auth_mechanism L (fst conn)) [Plain, Login] = []")
  case True
  with assms(2,3) show ?thesis
    by (auto simp: login_def may_quit_def intro!: stopsI split: if_splits)
next
  case False
  then have "login_loop L (sc_credentials cfg)
      (filter (supports_auth_mechanism L (fst conn)) [Plain, Login]) conn = (res, conn')"
    using assms(2) unfolding login_def Let_def by simp
  then show ?thesis by (rule login_loop_run [OF assms(1) _ assms(3,4)])
qed

lemma rcpt_loop_run:
  "rcpt_loop L rs accepted refused conn = (res, conn') \<Longrightarrow> smtp_run (snd conn) (Envelope accepted) \<Longrightarrow>
   (case res of
      Inr (n, refused', gone) \<Rightarrow> smtp_run (snd conn') (if gone then Closed else Envelope n)
    | Inl f \<Rightarrow> stops f (snd conn'))"
proof (induction rs arbitrary: accepted refused conn)
  case (Cons p rs)
  obtain address raw where p: "p = (address, raw)" by (cases p)
  obtain r c' where a: "command_op L (RCPT address) (fst conn) = (r, c')" by fastforce
  let ?h = "snd conn @ [EvCommand (RCPT address) r]"
  have d: "do_command L (RCPT address) conn = (r, (c', ?h))" by (simp add: do_command_def a)
  consider (lost) e where "r = Inl e" "err_code e = None"
    | (ok) "reply_code r = Some 250 \<or> reply_code r = Some 251"
    | (gone) "reply_code r = Some 421"
    | (refused) code where "reply_code r = Some code" "code \<notin> {250, 251, 421}"
    by (cases r; cases "reply_code r") (auto simp: reply_code_def)
  then show ?case
  proof cases
    case lost
    with Cons.prems(1) d p have res: "res = Err (failure_of e)" "conn' = (c', ?h)" by auto
    have "smtp_run ?h (after_failure r)"
      using smtp_run.step [OF Cons.prems(2) smtp_step.rcpt_failed] lost by simp
    with res lost show ?thesis by (simp add: stops_after_failure)
  next
    case ok
    then have "rcpt_loop L (p # rs) accepted refused conn = rcpt_loop L rs (accepted + 1) refused (c', ?h)"
      by (auto simp: p d reply_code_def split: sum.splits)
    with Cons.IH [of "accepted + 1" refused "(c', ?h)"] Cons.prems(1) show ?thesis
      using smtp_run.step [OF Cons.prems(2) smtp_step.rcpt_ok [OF ok]] by simp
  next
    case gone
    with Cons.prems(1) d p have
      "res = Ok (accepted, refused @ [\<lparr>refused_address = raw, refused_code = Some 421\<rparr>], True)"
      "conn' = (c', ?h)"
      by (auto simp: reply_code_def split: sum.splits)
    then show ?thesis
      using smtp_run.step [OF Cons.prems(2) smtp_step.rcpt_closed [OF gone]] by simp
  next
    case refused
    then have "rcpt_loop L (p # rs) accepted refused conn
        = rcpt_loop L rs accepted (refused @ [\<lparr>refused_address = raw, refused_code = Some code\<rparr>]) (c', ?h)"
      by (auto simp: p d reply_code_def split: sum.splits)
    with Cons.IH [of accepted "refused @ [\<lparr>refused_address = raw, refused_code = Some code\<rparr>]" "(c', ?h)"] Cons.prems(1)
    show ?thesis
      using smtp_run.step [OF Cons.prems(2) smtp_step.rcpt_refused [OF refused]] by simp
  qed
qed auto

lemma step_run: "smtp_run h p \<Longrightarrow> smtp_step p e q \<Longrightarrow> smtp_run (h @ [e]) q"
  by (rule smtp_run.step)

lemma deliver_run:
  assumes "deliver L m refused conn = (res, conn')" "smtp_run (snd conn) (Envelope (Suc n))"
  shows "case res of Inr _ \<Rightarrow> smtp_run (snd conn') Delivered | Inl f \<Rightarrow> stops f (snd conn')"
proof -
  let ?body = "case strip_suffix CRLF (formatted m) of Some b \<Rightarrow> b | None \<Rightarrow> formatted m"
  obtain r c' where a: "command_op L DATA (fst conn) = (r, c')" by fastforce
  let ?h = "snd conn @ [EvCommand DATA r]"
  have d: "do_command L DATA conn = (r, (c', ?h))" by (simp add: do_command_def a)
  obtain r' c'' where b: "message_op L (chunks ?body) c' = (r', c'')" by fastforce
  let ?h' = "?h @ [EvMessage (chunks ?body) r']"
  have e: "do_message L (chunks ?body) (c', ?h) = (r', (c'', ?h'))" by (simp add: do_message_def b)
  show ?thesis
  proof (cases "judge r [354]")
    case (Inl f)
    then have "r \<noteq> Inr 354" "snd f \<longrightarrow> may_quit (after_failure r)" by (auto dest: judge_Inl)
    moreover have "res = Inl f" "conn' = (c', ?h)"
      using assms(1) by (simp_all add: deliver_def d Inl)
    ultimately show ?thesis
      using step_run [OF assms(2) smtp_step.data_failed] by (auto intro!: stopsI)
  next
    case (Inr u)
    then have r: "r = Inr 354" by (simp add: judge_Inr)
    have run: "smtp_run ?h DataReady"
      using step_run [OF assms(2) smtp_step.data_ok] r by simp
    show ?thesis
    proof (cases "judge r' [250]")
      case (Inl f)
      then have "r' \<noteq> Inr 250" "snd f \<longrightarrow> may_quit (after_failure r')" by (auto dest: judge_Inl)
      moreover have "res = Inl f" "conn' = (c'', ?h')"
        using assms(1) Inl unfolding deliver_def Let_def d by (simp_all add: Inr e)
      ultimately show ?thesis
        using step_run [OF run smtp_step.message_failed] by (auto intro!: stopsI)
    next
      case (Inr u')
      then have "r' = Inr 250" by (simp add: judge_Inr)
      moreover have "res = Inr refused" "conn' = (c'', ?h')"
        using assms(1) Inr unfolding deliver_def Let_def d by (simp_all add: \<open>judge r [354] = Inr u\<close> e)
      ultimately show ?thesis
        using step_run [OF run smtp_step.message_ok] by simp
    qed
  qed
qed

lemma after_recipients_run:
  assumes "after_recipients L m (n, refused, gone) conn = (res, conn')"
    "smtp_run (snd conn) (if gone then Closed else Envelope n)"
  shows "case res of Inr _ \<Rightarrow> smtp_run (snd conn') Delivered | Inl f \<Rightarrow> stops f (snd conn')"
proof (cases "n = 0 \<or> gone")
  case True
  with assms show ?thesis
    by (auto simp: after_recipients_def may_quit_def intro!: stopsI split: if_splits)
next
  case False
  then obtain k where "n = Suc k" "\<not> gone" by (cases n) auto
  with assms show ?thesis by (intro deliver_run) (auto simp: after_recipients_def)
qed

lemma mail_and_recipients_run:
  assumes "mail_and_recipients L cfg recipients m conn = (res, conn')" "smtp_run (snd conn) LoggedIn"
  shows "case res of Inr _ \<Rightarrow> smtp_run (snd conn') Delivered | Inl f \<Rightarrow> stops f (snd conn')"
proof -
  let ?mail = "MAIL (sc_sender cfg)"
  obtain r c' where a: "command_op L ?mail (fst conn) = (r, c')" by fastforce
  let ?h = "snd conn @ [EvCommand ?mail r]"
  have d: "do_command L ?mail conn = (r, (c', ?h))" by (simp add: do_command_def a)
  show ?thesis
  proof (cases "judge r [250]")
    case (Inl f)
    then have "r \<noteq> Inr 250" "snd f \<longrightarrow> may_quit (after_failure r)" by (auto dest: judge_Inl)
    moreover have "res = Inl f" "conn' = (c', ?h)"
      using assms(1) by (simp_all add: mail_and_recipients_def d Inl)
    ultimately show ?thesis
      using step_run [OF assms(2) smtp_step.mail_failed] by (auto intro!: stopsI)
  next
    case (Inr u)
    then have "r = Inr 250" by (simp add: judge_Inr)
    then have run: "smtp_run (snd (c', ?h)) (Envelope 0)"
      using step_run [OF assms(2) smtp_step.mail_ok] by simp
    obtain res' conn'' where l: "rcpt_loop L recipients 0 [] (c', ?h) = (res', conn'')"
      by (cases "rcpt_loop L recipients 0 [] (c', ?h)")
    note after = rcpt_loop_run [OF l run]
    show ?thesis
    proof (cases res')
      case (Inl f)
      with assms(1) l after show ?thesis
        by (auto simp: mail_and_recipients_def d \<open>judge r [250] = Inr u\<close>)
    next
      case (Inr result)
      moreover obtain n refused gone where "result = (n, refused, gone)" by (cases result)
      ultimately show ?thesis
        using assms(1) l after by (intro after_recipients_run) (auto simp: mail_and_recipients_def d \<open>judge r [250] = Inr u\<close>)
    qed
  qed
qed

lemma secured_run:
  assumes "stays_encrypted L" "secured L cfg recipients m conn = (res, conn')" "smtp_run (snd conn) Open"
  shows "case res of Inr _ \<Rightarrow> smtp_run (snd conn') Delivered | Inl f \<Rightarrow> stops f (snd conn')"
proof (cases "is_encrypted L (fst conn)")
  case False
  with assms show ?thesis by (auto simp: secured_def may_quit_def intro!: stopsI)
next
  case True
  obtain res' conn'' where l: "login L cfg conn = (res', conn'')"
    by (cases "login L cfg conn")
  note after = login_run [OF assms(1) l assms(3) True]
  show ?thesis
  proof (cases res')
    case (Inl f)
    with assms(2) l after True show ?thesis by (auto simp: secured_def)
  next
    case (Inr u)
    with assms(2) l after True show ?thesis
      by (intro mail_and_recipients_run) (auto simp: secured_def)
  qed
qed

lemma transaction_run:
  assumes "stays_encrypted L" "transaction L cfg recipients m (c, []) = (res, conn')"
  shows "case res of Inr _ \<Rightarrow> smtp_run (snd conn') Delivered | Inl f \<Rightarrow> stops f (snd conn')"
proof (cases "sc_tls cfg")
  case False
  with assms show ?thesis
    by (intro secured_run [OF assms(1)]) (auto simp: transaction_def intro: smtp_run.start)
next
  case True
  obtain r c' where a: "starttls_op L c = (r, c')" by fastforce
  let ?h = "[EvStartTls r (is_encrypted L c')]"
  have d: "do_starttls L (c, []) = (r, (c', ?h))" by (simp add: do_starttls_def a)
  have run: "smtp_step Open (EvStartTls r (is_encrypted L c')) q \<Longrightarrow> smtp_run ?h q" for q
    using step_run [OF smtp_run.start] by fastforce
  show ?thesis
  proof (cases r)
    case None
    with True assms run [of Open] show ?thesis
      by (intro secured_run [OF assms(1)]) (auto simp: transaction_def d smtp_step.tls_ok)
  next
    case (Some e)
    show ?thesis
    proof (cases "is_encrypted L c'")
      case True
      with Some have "smtp_run ?h Closed"
        by (intro run) (auto intro: smtp_step.tls_half)
      moreover have "res = Err (Temporary, False)" "conn' = (c', ?h)"
        using assms(2) Some True \<open>sc_tls cfg\<close> by (auto simp: transaction_def d)
      ultimately show ?thesis by (auto intro!: stopsI)
    next
      case False
      with Some have "smtp_run ?h (after_failure (Inl e))"
        by (intro run) (auto intro: smtp_step.tls_failed)
      moreover have "res = Err (failure_of e)" "conn' = (c', ?h)"
        using assms(2) True Some False by (auto simp: transaction_def d)
      ultimately show ?thesis by (simp add: stops_after_failure)
    qed
  qed
qed


subsection \<open>The refinement, and what it gives\<close>

lemma chunks_concat: "concat (chunks xs) = xs"
proof (induction xs rule: chunks.induct)
  case (1 xs)
  then show ?case by (subst chunks.simps) simp
qed

lemma chunks_length: "\<forall>c \<in> set (chunks xs). 0 < length c \<and> length c \<le> MESSAGE_CHUNK"
proof (induction xs rule: chunks.induct)
  case (1 xs)
  then show ?case by (subst chunks.simps) (auto simp: MESSAGE_CHUNK_def)
qed

text \<open>A session whose transaction ran: what it returns, from the result and the connection.\<close>

lemma session_cases:
  obtains (failed) e where "session L cfg m = \<lparr>outcome = Err e, history = [], cleanup_failed = None\<rparr>"
  | (ran) recipients c result conn final where
      "envelope_addresses (envelope m) = Some recipients"
      "transaction L cfg recipients m (c, []) = (result, conn)"
      "final = (if (case result of Inr _ \<Rightarrow> True | Inl f \<Rightarrow> snd f) \<and> \<not> has_broken L (fst conn)
                then quit L conn else (None, conn))"
      "session L cfg m = \<lparr>outcome = map_err fst result, history = snd (snd final),
         cleanup_failed = fst final\<rparr>"
proof (cases "envelope_addresses (envelope m)")
  case None
  then show ?thesis using failed by (simp add: session_def)
next
  case (Some recipients)
  show ?thesis
  proof (cases "connect L cfg")
    case None
    with Some show ?thesis using failed by (simp add: session_def)
  next
    case stream: (Some stream)
    show ?thesis
    proof (cases "connect_with_transport L stream")
      case (Inl a)
      with Some stream show ?thesis using failed by (cases a) (simp add: session_def)
    next
      case (Inr c)
      obtain result conn where t: "transaction L cfg recipients m (c, []) = (result, conn)"
        by (cases "transaction L cfg recipients m (c, [])")
      from Some stream Inr show ?thesis
        by (intro ran [OF Some t refl]) (simp add: session_def t Let_def)
    qed
  qed
qed

lemma accepted_phase:
  "smtp_run h p \<Longrightarrow> EvMessage body (Inr 250) \<in> set h \<Longrightarrow> p = Delivered \<or> p = Ended"
proof (induction rule: smtp_run.induct)
  case (step h p e q)
  then show ?case by (auto elim: smtp_step.cases)
qed simp

lemma delivered_phase:
  "smtp_run h p \<Longrightarrow> p = Delivered \<Longrightarrow> \<exists>body. EvMessage body (Inr 250) \<in> set h"
proof (induction rule: smtp_run.induct)
  case (step h p e q)
  from step.hyps(2) step.prems show ?case
    by (cases rule: smtp_step.cases) auto
qed simp

text \<open>The history of a session, seen from the run of its transaction.\<close>

lemma session_run:
  assumes "stays_encrypted L"
  shows "\<exists>p h. smtp_run h p \<and> p \<noteq> Ended
    \<and> (p = Delivered \<longleftrightarrow> (\<exists>refused. outcome (session L cfg m) = Inr refused))
    \<and> (history (session L cfg m) = h
        \<or> (\<exists>r. may_quit p \<and> history (session L cfg m) = h @ [EvCommand QUIT r]))"
proof (cases rule: session_cases [of L cfg m])
  case failed
  then show ?thesis by (intro exI [of _ Open] exI [of _ "[]"]) (auto intro: smtp_run.start)
next
  case (ran recipients c result conn final)
  note run = transaction_run [OF assms ran(2)]
  obtain r c' where q: "command_op L QUIT (fst conn) = (r, c')" by fastforce
  have hist: "history (session L cfg m) =
      (if (case result of Inr _ \<Rightarrow> True | Inl f \<Rightarrow> snd f) \<and> \<not> has_broken L (fst conn)
       then snd conn @ [EvCommand QUIT r] else snd conn)"
    by (simp add: ran(3,4) quit_def do_command_def q)
  show ?thesis
  proof (cases result)
    case (Inl f)
    with run obtain p where p: "smtp_run (snd conn) p" "p \<noteq> Delivered" "p \<noteq> Ended" "snd f \<longrightarrow> may_quit p"
      by (auto simp: stops_def)
    show ?thesis
      by (intro exI [of _ p] exI [of _ "snd conn"]) (use p hist Inl ran(4) in auto)
  next
    case (Inr ok)
    with run have "smtp_run (snd conn) Delivered" by simp
    with hist Inr ran(4) show ?thesis
      by (intro exI [of _ Delivered] exI [of _ "snd conn"]) (auto simp: may_quit_def)
  qed
qed

lemma session_run_ends:
  assumes "stays_encrypted L"
  shows "\<exists>p. smtp_run (history (session L cfg m)) p"
proof -
  from session_run [OF assms, of cfg m] obtain p h where
    "smtp_run h p" "history (session L cfg m) = h
        \<or> (\<exists>r. may_quit p \<and> history (session L cfg m) = h @ [EvCommand QUIT r])" by blast
  moreover have "smtp_run (h @ [EvCommand QUIT r]) Ended" if "may_quit p" for r
    using \<open>smtp_run h p\<close> that by (intro step_run [OF _ smtp_step.quit]) (auto simp: may_quit_def)
  ultimately show ?thesis by metis
qed

text \<open>What the phases mean for the events before them.\<close>

definition authenticated :: "smtp_event list \<Rightarrow> bool" where
  "authenticated h \<longleftrightarrow> (\<exists>m. EvAuth m True (Inr 235) \<in> set h)"

definition some_rcpt_accepted :: "smtp_event list \<Rightarrow> bool" where
  "some_rcpt_accepted h \<longleftrightarrow>
     (\<exists>a r. EvCommand (RCPT a) r \<in> set h \<and> (reply_code r = Some 250 \<or> reply_code r = Some 251))"

lemma run_meaning:
  "smtp_run h p \<Longrightarrow>
    (p \<in> {LoggedIn, DataReady, Delivered} \<or> (\<exists>n. p = Envelope n) \<longrightarrow> authenticated h) \<and>
    (p \<in> {DataReady, Delivered} \<or> (\<exists>n. p = Envelope (Suc n)) \<longrightarrow> some_rcpt_accepted h) \<and>
    (p \<in> {DataReady, Delivered} \<longrightarrow> EvCommand DATA (Inr 354) \<in> set h)"
proof (induction rule: smtp_run.induct)
  case (step h p e q)
  from step.hyps(2) step.IH show ?case
    by (cases rule: smtp_step.cases)
      (auto simp: authenticated_def some_rcpt_accepted_def after_failure_def split: sum.splits if_splits)
qed simp

lemma run_prefix:
  "smtp_run h p \<Longrightarrow> h = pre @ e # post \<Longrightarrow> \<exists>q q'. smtp_run pre q \<and> smtp_step q e q'"
proof (induction arbitrary: post rule: smtp_run.induct)
  case (step h p e' q)
  then show ?case
  proof (cases post rule: rev_cases)
    case Nil
    with step show ?thesis by auto
  next
    case (snoc ys y)
    with step.prems have "h = pre @ e # ys" by simp
    then show ?thesis by (rule step.IH)
  qed
qed simp

lemma session_event:
  assumes "stays_encrypted L" "history (session L cfg m) = pre @ e # post"
  shows "\<exists>q q'. smtp_run pre q \<and> smtp_step q e q'"
  using session_run_ends [OF assms(1)] run_prefix assms(2) by blast

text \<open>The replies to \<open>RCPT\<close> in a history.\<close>

fun rcpt_replies :: "smtp_event list \<Rightarrow> (smtp_address \<times> nat option) list" where
  "rcpt_replies [] = []"
| "rcpt_replies (EvCommand (RCPT a) r # es) = (a, reply_code r) # rcpt_replies es"
| "rcpt_replies (e # es) = rcpt_replies es"

lemma rcpt_replies_append [simp]: "rcpt_replies (h @ h') = rcpt_replies h @ rcpt_replies h'"
  by (induction h rule: rcpt_replies.induct) auto

definition refusals_of :: "(rstr \<times> nat) list \<Rightarrow> refusal list" where
  "refusals_of answers =
     map (\<lambda>(raw, code). \<lparr>refused_address = raw, refused_code = Some code\<rparr>)
       (filter (\<lambda>(raw, code). code \<noteq> 250 \<and> code \<noteq> 251) answers)"

lemma refusals_of_simps [simp]:
  "refusals_of [] = []"
  "refusals_of ((raw, code) # rest) =
     (if code = 250 \<or> code = 251 then refusals_of rest
      else \<lparr>refused_address = raw, refused_code = Some code\<rparr> # refusals_of rest)"
  by (simp_all add: refusals_of_def)

lemma rcpt_loop_answers:
  "rcpt_loop L rs accepted refused conn = (Inr (n, refused', False), conn') \<Longrightarrow>
   \<exists>codes. length codes = length rs
     \<and> rcpt_replies (snd conn') = rcpt_replies (snd conn) @ zip (map fst rs) (map Some codes)
     \<and> refused' = refused @ refusals_of (zip (map snd rs) codes)
     \<and> n + length refused' = accepted + length refused + length rs"
proof (induction rs arbitrary: accepted refused conn)
  case (Cons p rs)
  obtain address raw where p: "p = (address, raw)" by (cases p)
  obtain r c' where a: "command_op L (RCPT address) (fst conn) = (r, c')" by fastforce
  let ?h = "snd conn @ [EvCommand (RCPT address) r]"
  have d: "do_command L (RCPT address) conn = (r, (c', ?h))" by (simp add: do_command_def a)
  obtain code where code: "reply_code r = Some code"
    using Cons.prems by (auto simp: p d reply_code_def split: sum.splits option.splits)
  let ?refused = "if code = 250 \<or> code = 251 then refused
    else refused @ [\<lparr>refused_address = raw, refused_code = Some code\<rparr>]"
  let ?accepted = "if code = 250 \<or> code = 251 then accepted + 1 else accepted"
  have "rcpt_loop L rs ?accepted ?refused (c', ?h) = (Inr (n, refused', False), conn')"
    using Cons.prems code
    by (auto simp: p d reply_code_def Let_def split: sum.splits option.splits if_splits)
  from Cons.IH [OF this] obtain codes where
    "length codes = length rs"
    "rcpt_replies (snd conn') = rcpt_replies ?h @ zip (map fst rs) (map Some codes)"
    "refused' = ?refused @ refusals_of (zip (map snd rs) codes)"
    "n + length refused' = ?accepted + length ?refused + length rs" by auto
  then show ?case
    by (intro exI [of _ "code # codes"]) (simp add: p code split: if_splits)
qed auto

lemma envelope_addresses_spec:
  "envelope_addresses as = Some rs \<Longrightarrow> map snd rs = as \<and> map envelope_address as = map (Some \<circ> fst) rs"
  by (induction as arbitrary: rs) (auto split: option.splits)

lemma deliver_ok:
  assumes "deliver L m refused conn = (Inr refused', conn')"
  shows "refused' = refused \<and>
    (\<exists>body. snd conn' = snd conn @ [EvCommand DATA (Inr 354), EvMessage (chunks body) (Inr 250)]
       \<and> body = (case strip_suffix CRLF (formatted m) of Some b \<Rightarrow> b | None \<Rightarrow> formatted m))"
  using assms unfolding deliver_def Let_def do_command_def do_message_def
  by (auto simp: judge_Inr split: prod.splits sum.splits)

lemma do_command_history: "snd (snd (do_command L cmd conn)) = snd conn @ [EvCommand cmd (fst (do_command L cmd conn))]"
  by (simp add: do_command_def split: prod.splits)

lemma login_loop_rcpt: "login_loop L cr ms conn = (res, conn') \<Longrightarrow> rcpt_replies (snd conn') = rcpt_replies (snd conn)"
proof (induction ms arbitrary: conn)
  case (Cons m ms)
  obtain r c' where "do_auth L m cr conn = (r, (c', snd conn @ [EvAuth m (is_encrypted L (fst conn)) r]))"
    by (cases "auth_op L m cr (fst conn)") (simp add: do_auth_def)
  with Cons show ?case by (fastforce split: sum.splits if_splits)
qed simp

lemma login_rcpt: "login L cfg conn = (res, conn') \<Longrightarrow> rcpt_replies (snd conn') = rcpt_replies (snd conn)"
  unfolding login_def Let_def by (auto split: if_split_asm dest: login_loop_rcpt simp del: filter.simps)

lemma transaction_ok:
  assumes "transaction L cfg rs m (c, []) = (Inr refused, conn)"
  shows "\<exists>codes body h. length codes = length rs
    \<and> snd conn = h @ [EvCommand DATA (Inr 354), EvMessage (chunks body) (Inr 250)]
    \<and> body = (case strip_suffix CRLF (formatted m) of Some b \<Rightarrow> b | None \<Rightarrow> formatted m)
    \<and> rcpt_replies h = zip (map fst rs) (map Some codes)
    \<and> refused = refusals_of (zip (map snd rs) codes)
    \<and> length refused < length rs"
proof -
  obtain conn1 where s: "secured L cfg rs m conn1 = (Inr refused, conn)" "rcpt_replies (snd conn1) = []"
    using assms
    by (auto simp: transaction_def do_starttls_def split: if_splits prod.splits option.splits)
  then obtain u conn2 where l: "login L cfg conn1 = (Inr u, conn2)"
    "mail_and_recipients L cfg rs m conn2 = (Inr refused, conn)"
    by (auto simp: secured_def split: if_splits prod.splits sum.splits)
  from login_rcpt [OF l(1)] s(2) have none: "rcpt_replies (snd conn2) = []" by simp
  obtain r c3 where d: "do_command L (MAIL (sc_sender cfg)) conn2
      = (r, (c3, snd conn2 @ [EvCommand (MAIL (sc_sender cfg)) r]))"
    by (cases "command_op L (MAIL (sc_sender cfg)) (fst conn2)") (simp add: do_command_def)
  obtain n refused' gone conn4 where loop:
    "rcpt_loop L rs 0 [] (c3, snd conn2 @ [EvCommand (MAIL (sc_sender cfg)) r])
       = (Inr (n, refused', gone), conn4)"
    "after_recipients L m (n, refused', gone) conn4 = (Inr refused, conn)"
    using l(2) by (auto simp: mail_and_recipients_def d split: sum.splits prod.splits)
  then have open_: "\<not> gone" "n \<noteq> 0" and del: "deliver L m refused' conn4 = (Inr refused, conn)"
    by (auto simp: after_recipients_def split: if_splits)
  from rcpt_loop_answers loop(1) open_ obtain codes where
    "length codes = length rs" "rcpt_replies (snd conn4) = zip (map fst rs) (map Some codes)"
    "refused' = refusals_of (zip (map snd rs) codes)" "n + length refused' = length rs"
    by (fastforce simp: none)
  with deliver_ok [OF del] open_ show ?thesis
    by (intro exI [of _ codes] exI [of _ "snd conn4"] exI) auto
qed

lemma refusals_of_subseq: "subseq (map refused_address (refusals_of ps)) (map fst ps)"
  by (induction ps) (auto simp: refusals_of_def)

lemma refusals_of_code: "r \<in> set (refusals_of ps) \<Longrightarrow> \<exists>c. refused_code r = Some c \<and> c \<noteq> 250 \<and> c \<noteq> 251"
  by (auto simp: refusals_of_def)

lemma session_ok:
  assumes "outcome (session L cfg m) = Inr refused"
  shows "\<exists>codes h tail body. history (session L cfg m)
        = h @ [EvCommand DATA (Inr 354), EvMessage (chunks body) (Inr 250)] @ tail
    \<and> (tail = [] \<or> (\<exists>r. tail = [EvCommand QUIT r]))
    \<and> body = (case strip_suffix CRLF (formatted m) of Some b \<Rightarrow> b | None \<Rightarrow> formatted m)
    \<and> map (Some \<circ> fst) (rcpt_replies h) = map envelope_address (envelope m)
    \<and> map snd (rcpt_replies h) = map Some codes
    \<and> refused = refusals_of (zip (envelope m) codes)
    \<and> length refused < length (envelope m)"
proof (cases rule: session_cases [of L cfg m])
  case failed
  with assms show ?thesis by simp
next
  case (ran rs c result conn final)
  then have result: "result = Inr refused" using assms by (cases result) auto
  from transaction_ok [OF ran(2) [unfolded result]] obtain codes body h where t:
    "length codes = length rs"
    "snd conn = h @ [EvCommand DATA (Inr 354), EvMessage (chunks body) (Inr 250)]"
    "body = (case strip_suffix CRLF (formatted m) of Some b \<Rightarrow> b | None \<Rightarrow> formatted m)"
    "rcpt_replies h = zip (map fst rs) (map Some codes)"
    "refused = refusals_of (zip (map snd rs) codes)" "length refused < length rs" by blast
  from envelope_addresses_spec [OF ran(1)] have e: "map snd rs = envelope m"
    "map envelope_address (envelope m) = map (Some \<circ> fst) rs" by auto
  from e(1) have "length rs = length (envelope m)" by (metis length_map)
  have tail: "\<exists>tail. history (session L cfg m) = snd conn @ tail \<and> (tail = [] \<or> (\<exists>r. tail = [EvCommand QUIT r]))"
    using ran(3,4) by (auto simp: quit_def do_command_history split: prod.splits if_splits) (metis do_command_history snd_conv)
  then obtain tail where "history (session L cfg m) = snd conn @ tail"
    "tail = [] \<or> (\<exists>r. tail = [EvCommand QUIT r])" by blast
  moreover have "map (Some \<circ> fst) (rcpt_replies h) = map envelope_address (envelope m)"
    "map snd (rcpt_replies h) = map Some codes"
    using e t(1,4) by (simp_all flip: map_map)
  moreover have "refused = refusals_of (zip (envelope m) codes)" "length refused < length (envelope m)"
    using t(5,6) e \<open>length rs = length (envelope m)\<close> by simp_all
  ultimately show ?thesis using t(2,3)
    by (intro exI [of _ codes] exI [of _ h] exI [of _ tail] exI [of _ body]) simp
qed

subsection \<open>The interface for the pipeline\<close>

text \<open>
  What the request handling relies on: a message is submitted, and a partial refusal names some of
  its recipients, not all of them, in order, each with the code that refused it.
\<close>

locale submitter =
  fixes submit :: "built_message \<Rightarrow> submit_error + refusal list"
  assumes some_accepted: "submit m = Inr refused \<Longrightarrow> length refused < length (envelope m)"
    and in_envelope: "submit m = Inr refused \<Longrightarrow> subseq (map refused_address refused) (envelope m)"
    and code_known: "submit m = Inr refused \<Longrightarrow> r \<in> set refused \<Longrightarrow> refused_code r \<noteq> None"
begin

lemma refused_in_envelope: "submit m = Inr refused \<Longrightarrow> r \<in> set refused \<Longrightarrow> refused_address r \<in> set (envelope m)"
  using in_envelope by (fastforce elim: list_emb_set)

lemma envelope_not_empty: "submit m = Inr refused \<Longrightarrow> envelope m \<noteq> []"
  using some_accepted by fastforce

lemma accepted_recipient:
  assumes "submit m = Inr refused" "distinct (envelope m)"
  shows "\<exists>a \<in> set (envelope m). a \<notin> refused_address ` set refused"
proof (rule ccontr)
  assume "\<not> ?thesis"
  then have "set (envelope m) \<subseteq> set (map refused_address refused)" by auto
  then have "card (set (envelope m)) \<le> length refused"
    by (metis List.finite_set card_length card_mono length_map order_trans)
  with assms(2) some_accepted [OF assms(1)] show False by (simp add: distinct_card)
qed

end

interpretation smtp_session: submitter "\<lambda>m. outcome (session L cfg m)" for L cfg
proof
  fix m refused
  assume ok: "outcome (session L cfg m) = Inr refused"
  from session_ok [OF this] obtain codes h where h: "map snd (rcpt_replies h) = map Some codes"
    "map (Some \<circ> fst) (rcpt_replies h) = map envelope_address (envelope m)"
    "refused = refusals_of (zip (envelope m) codes)" "length refused < length (envelope m)" by blast
  from h(1,2) have "length codes = length (envelope m)" by (metis length_map)
  with h show "length refused < length (envelope m)"
    "subseq (map refused_address refused) (envelope m)"
    using refusals_of_subseq [of "zip (envelope m) codes"] by simp_all
  show "refused_code r \<noteq> None" if "r \<in> set refused" for r
    using refusals_of_code that h(3) by fastforce
qed

text \<open>The outcome, by what the server answered to the message.\<close>

lemma accepted_outcome:
  assumes "stays_encrypted L"
  shows "(\<exists>refused. outcome (session L cfg m) = Inr refused) \<longleftrightarrow>
     (\<exists>body. EvMessage body (Inr 250) \<in> set (history (session L cfg m)))"
proof -
  from session_run [OF assms, of cfg m] obtain p h where run: "smtp_run h p" "p \<noteq> Ended"
    "(p = Delivered) = (\<exists>refused. outcome (session L cfg m) = Inr refused)"
    "history (session L cfg m) = h
        \<or> (\<exists>r. may_quit p \<and> history (session L cfg m) = h @ [EvCommand QUIT r])" by blast
  from run(4) have "EvMessage body (Inr 250) \<in> set (history (session L cfg m))
      \<longleftrightarrow> EvMessage body (Inr 250) \<in> set h" for body by auto
  with run accepted_phase [OF run(1)] delivered_phase [OF run(1)] show ?thesis by blast
qed

subsection \<open>Properties\<close>

text \<open>A server that accepts every command except the recipient \<open>nobody\<close>.\<close>

definition demo_server :: "(unit, bool) lettre" where
  "demo_server =
     \<lparr>lookup_host = \<lambda>_ _. Some [()], tcp_connect = \<lambda>_ _. Some False,
      connect_with_transport = Inr, starttls_op = \<lambda>_. (None, True), is_encrypted = \<lambda>c. c,
      supports_auth_mechanism = \<lambda>_ m. m = Plain, auth_op = \<lambda>_ _ c. (Inr 235, c),
      command_op = \<lambda>cmd c. (Inr (case cmd of
          MAIL _ \<Rightarrow> 250 | RCPT a \<Rightarrow> if fst a = lit ''nobody'' then 550 else 250
        | DATA \<Rightarrow> 354 | QUIT \<Rightarrow> 221), c),
      message_op = \<lambda>_ c. (Inr 250, c), has_broken = \<lambda>_. False\<rparr>"

definition demo_config :: smtp_config where
  "demo_config = \<lparr>sc_host = lit ''smtp'', sc_port = 587, sc_tls = True,
     sc_credentials = \<lparr>username = lit ''u'', password = lit ''p''\<rparr>, sc_timeout = Finite 30, sc_sender = None\<rparr>"

definition demo_message :: built_message where
  "demo_message = \<lparr>message_id = lit ''<1@x>'', envelope = [lit ''nobody@b.c'', lit ''a@b.c''],
     formatted = [72, 105, 13, 10]\<rparr>"

definition demo_history :: "smtp_event list" where
  "demo_history = [EvStartTls None True, EvAuth Plain True (Inr 235), EvCommand (MAIL None) (Inr 250),
     EvCommand (RCPT (lit ''nobody'', lit ''b.c'')) (Inr 550),
     EvCommand (RCPT (lit ''a'', lit ''b.c'')) (Inr 250),
     EvCommand DATA (Inr 354), EvMessage [[72, 105]] (Inr 250), EvCommand QUIT (Inr 221)]"

lemma stays_encrypted_demo: "stays_encrypted demo_server"
  by (simp add: stays_encrypted_def demo_server_def)

lemma chunks_short: "xs \<noteq> [] \<Longrightarrow> length xs \<le> MESSAGE_CHUNK \<Longrightarrow> chunks xs = [xs]"
  by (subst chunks.simps) (simp add: chunks.simps [of "[]"])

lemma chunks_code [code]:
  "chunks xs = (if xs = [] then [] else if int (length xs) \<le> 65536 then [xs]
     else take MESSAGE_CHUNK xs # chunks (drop MESSAGE_CHUNK xs))"
  using chunks_short [of xs] by (subst chunks.simps) (auto simp: MESSAGE_CHUNK_def chunks.simps [of "[]"])

lemma demo_session:
  "session demo_server demo_config demo_message =
     \<lparr>outcome = Inr [\<lparr>refused_address = lit ''nobody@b.c'', refused_code = Some 550\<rparr>],
      history = demo_history, cleanup_failed = None\<rparr>"
proof -
  have e: "envelope_addresses (envelope demo_message)
      = Some [((lit ''nobody'', lit ''b.c''), lit ''nobody@b.c''), ((lit ''a'', lit ''b.c''), lit ''a@b.c'')]"
    by code_simp
  have b: "(case strip_suffix CRLF (formatted demo_message) of Some b \<Rightarrow> b | None \<Rightarrow> formatted demo_message)
      = [72, 105]" by code_simp
  have c: "chunks [72, 105 :: u8] = [[72, 105]]" by (rule chunks_short) (simp_all add: MESSAGE_CHUNK_def)
  have n: "lit ''a'' \<noteq> lit ''nobody''" by code_simp
  show ?thesis
    unfolding session_def Let_def e deliver_def b transaction_def secured_def
      mail_and_recipients_def after_recipients_def
    by (simp add: demo_config_def demo_server_def connect_def do_starttls_def login_def do_auth_def
        do_command_def do_message_def judge_def require_def n b c quit_def demo_history_def)
qed

text \<open>C9: refinement: whatever the server answers, the commands of a session with their replies are
  a run of the protocol automaton: STARTTLS, then AUTH, MAIL, RCPT for the recipients, DATA only
  when at least one was accepted, the message only after 354, QUIT only on an open channel, at
  most once and last, and nothing after the server closed with 421.\<close>

theorem session_conforms:
  assumes "stays_encrypted L"
  shows "\<exists>p. smtp_run (history (session L cfg m)) p"
  by (rule session_run_ends [OF assms])

theorem session_conforms_witness: "\<exists>p. smtp_run demo_history p"
  using session_conforms [OF stays_encrypted_demo, of demo_config demo_message] by (simp add: demo_session)

text \<open>C11: the credentials are never sent in cleartext: every AUTH of a session happens on an
  encrypted connection, also when STARTTLS is switched off or fails half-way.\<close>

theorem credentials_encrypted:
  assumes "stays_encrypted L" "EvAuth mech enc r \<in> set (history (session L cfg m))"
  shows "enc"
proof -
  from assms(2) obtain pre post where "history (session L cfg m) = pre @ EvAuth mech enc r # post"
    by (meson split_list)
  from session_event [OF assms(1) this] show ?thesis by (auto elim: smtp_step_authE)
qed

theorem credentials_encrypted_witness:
  "EvAuth Plain True (Inr 235) \<in> set (history (session demo_server demo_config demo_message)) \<and> True"
  using credentials_encrypted [OF stays_encrypted_demo, of Plain True "Inr 235" demo_config demo_message]
  by (simp add: demo_session demo_history_def)

text \<open>The message itself is only sent to a server that accepted the credentials, at least one
  recipient, and DATA.\<close>

lemma message_after_acceptance:
  assumes "stays_encrypted L" "history (session L cfg m) = pre @ EvMessage body r # post"
  shows "authenticated pre \<and> some_rcpt_accepted pre \<and> EvCommand DATA (Inr 354) \<in> set pre"
proof -
  from session_event [OF assms] obtain q q' where q: "smtp_run pre q" "smtp_step q (EvMessage body r) q'"
    by blast
  then have "q = DataReady" by (auto elim: smtp_step_messageE)
  with run_meaning [OF q(1)] show ?thesis by simp
qed

text \<open>The outcome is a success exactly when the server answered 250 to the message, so a caller
  that retries after a reported failure never duplicates a message the server took.\<close>

lemma accepted_iff_delivered:
  assumes "stays_encrypted L"
  shows "(\<exists>refused. outcome (session L cfg m) = Inr refused) \<longleftrightarrow>
     (\<exists>body. EvMessage body (Inr 250) \<in> set (history (session L cfg m)))"
  by (rule accepted_outcome [OF assms])

text \<open>C10: on success the session asked for every recipient of the envelope once, in order; the
  refusals returned are exactly those not answered with 250 or 251, each with its code, and not
  all of them; and the bytes sent are the message less the CRLF that ends it, in chunks.\<close>

theorem session_success:
  assumes "outcome (session L cfg m) = Inr refused"
  shows "\<exists>codes h tail body. history (session L cfg m)
        = h @ [EvCommand DATA (Inr 354), EvMessage (chunks body) (Inr 250)] @ tail
    \<and> (tail = [] \<or> (\<exists>r. tail = [EvCommand QUIT r]))
    \<and> concat (chunks body) = (case strip_suffix CRLF (formatted m) of Some b \<Rightarrow> b | None \<Rightarrow> formatted m)
    \<and> map (Some \<circ> fst) (rcpt_replies h) = map envelope_address (envelope m)
    \<and> map snd (rcpt_replies h) = map Some codes
    \<and> refused = refusals_of (zip (envelope m) codes)
    \<and> length refused < length (envelope m)"
  using session_ok [OF assms] unfolding chunks_concat by blast

theorem session_success_witness:
  "length [\<lparr>refused_address = lit ''nobody@b.c'', refused_code = Some 550\<rparr>] < length (envelope demo_message)"
  using session_success [of demo_server demo_config demo_message
      "[\<lparr>refused_address = lit ''nobody@b.c'', refused_code = Some 550\<rparr>]"]
  by (simp only: demo_session session_result.simps simp_thms) blast

subsection \<open>Addresses of parsed mailboxes\<close>

text \<open>
  Every address the parser accepts can be an SMTP envelope address: the session finds the local
  part and the domain again.
\<close>

lemma envelope_address_addr_spec:
  assumes "idna_ok X" and m: "wf_mailbox X m"
  shows "envelope_address (addr_spec m) = Some (mb_local m, mb_domain m)"
proof -
  have ldh: "mb_domain m \<noteq> [] \<and> list_all is_ldh (mb_domain m)"
    using wf_mailbox_domain assms(1) m by blast
  have local_: "dot_atom (mb_local m)" using m by (simp add: wf_mailbox_def)
  have good: "33 \<le> c \<and> c \<le> 126 \<and> c \<noteq> 60 \<and> c \<noteq> 62" if "c \<in> set (addr_spec m)" for c
    using addr_spec_char [OF assms(1) m that] by (auto simp: is_addr_char_def lit_def)
  have printable: "is_envelope_printable s" if "s \<noteq> []" "set s \<subseteq> set (addr_spec m)" for s
  proof -
    have g: "33 \<le> c \<and> c \<le> 126 \<and> c \<noteq> 60 \<and> c \<noteq> 62" if "c \<in> set s" for c
      using good that \<open>set s \<subseteq> _\<close> by blast
    then have "is_ascii s" by (force simp: is_ascii_def list_all_iff is_ascii_char_def)
    moreover have "(of_nat c :: u8) \<noteq> 60 \<and> (of_nat c :: u8) \<noteq> 62 \<and> unat (of_nat c :: u8) = c"
      if "c \<in> set s" for c
    proof -
      have "unat (of_nat c :: u8) = c" using g [OF that] by (simp add: unat_of_nat)
      with g [OF that] show ?thesis by auto
    qed
    ultimately show ?thesis
      using g \<open>s \<noteq> []\<close> by (auto simp: is_envelope_printable_def utf8_encode_ascii list_all_iff)
  qed
  have "64 \<notin> set (mb_domain m)"
    using ldh by (auto simp: list_all_iff is_ldh_def ascii_defs)
  then have "rsplit_once 64 (addr_spec m) = Some (mb_local m, mb_domain m)"
    by (simp add: rsplit_once_Some_iff addr_spec_def)
  moreover have "mb_local m \<noteq> []" using local_ by (auto simp: dot_atom_def)
  ultimately show ?thesis
    using ldh printable [of "mb_local m"] printable [of "mb_domain m"]
    by (auto simp: envelope_address_def addr_spec_def)
qed

lemma envelope_addresses_wf:
  "idna_ok X \<Longrightarrow> \<forall>m \<in> set ms. wf_mailbox X m \<Longrightarrow>
   envelope_addresses (map addr_spec ms) = Some (map (\<lambda>m. ((mb_local m, mb_domain m), addr_spec m)) ms)"
  by (induction ms) (simp_all add: envelope_address_addr_spec)

end
