(* ===== verification/Pipeline.thy ===== *)
theory Pipeline
  imports Policy Auth Form_Multipart Smtp "HOL-Library.List_Lexorder" "HOL-Library.Product_Lexorder"
begin

text \<open>
  \<open>rust/src/pipeline.rs\<close>: the decisions on a request, in their order, with the response, the
  \<open>event=request\<close> record and everything the request causes: the body frames it reads, the message
  it submits and the lines it logs are the actions of the model, in order.  The message builder
  (theory \<open>Mime\<close>) and the submitter (the locale of theory \<open>Smtp\<close>) are arguments of the decision.
\<close>

definition FORM_FIELD_HEADROOM :: int where "FORM_FIELD_HEADROOM = 100"
definition FROM_LOG_MAX_LEN :: nat where "FROM_LOG_MAX_LEN = 320"

definition KNOWN_FIELDS :: "rstr list" where
  "KNOWN_FIELDS = map lit [''from'', ''to'', ''cc'', ''bcc'', ''subject'', ''text'', ''html'',
     ''amp-html'', ''attachment'', ''inline'']"

subsection \<open>Failures and responses\<close>

record failure =
  f_status :: nat
  f_result :: rstr
  f_class :: rstr
  f_message :: rstr

definition bad_request :: "rstr \<Rightarrow> rstr \<Rightarrow> failure" where
  "bad_request class message =
     \<lparr>f_status = 400, f_result = lit ''bad_request'', f_class = class, f_message = message\<rparr>"

definition too_large :: "rstr \<Rightarrow> failure" where
  "too_large message = \<lparr>f_status = 413, f_result = lit ''too_large'',
     f_class = lit ''PayloadTooLargeError'', f_message = message\<rparr>"

text \<open>A response with its headers; the body is the JSON object of string fields \<open>rs_json\<close>.\<close>

record response =
  rs_status :: nat
  rs_headers :: "(rstr \<times> rstr) list"
  rs_json :: "(rstr \<times> rstr) list"

definition json_response :: "nat \<Rightarrow> (rstr \<times> rstr) list \<Rightarrow> response" where
  "json_response status body =
     \<lparr>rs_status = status, rs_headers = [(lit ''content-type'', lit ''application/json'')],
      rs_json = body\<rparr>"

definition error_response :: "nat \<Rightarrow> rstr \<Rightarrow> response" where
  "error_response status message = json_response status [(lit ''message'', message)]"

subsection \<open>The request record and the actions of a request\<close>

record request_record =
  request_id :: rstr
  token_label :: rstr
  path_domain :: rstr
  rr_from :: rstr
  recipient_count :: nat
  refused_count :: nat
  rr_message_id :: "rstr option"
  rr_result :: rstr
  status_code :: nat
  error_class :: "rstr option"

record recipients_refused =
  pr_request_id :: rstr
  pr_token_label :: rstr
  pr_path_domain :: rstr
  pr_message_id :: rstr
  pr_recipient_count :: nat
  pr_refused_count :: nat
  pr_refused :: "(rstr \<times> nat option) list"

text \<open>\<open>Read n\<close>: that many frames of the body were asked for.\<close>

datatype action =
    Read nat
  | Submit built_message
  | LogRefused recipients_refused
  | LogRequest request_record

record relay =
  r_settings :: settings
  r_tokens :: "token_policy list"
  r_slots :: nat

text \<open>\<open>Relay::new\<close>: the number of concurrent SMTP sessions.\<close>

definition new_relay :: "nat \<Rightarrow> settings \<Rightarrow> token_policy list \<Rightarrow> relay" where
  "new_relay max_permits s policies =
     \<lparr>r_settings = s, r_tokens = policies, r_slots = min (unat (smtp_max_concurrency s)) max_permits\<rparr>"

subsection \<open>Reading the body\<close>

datatype body_frame = Data "u8 list" | Trailers | ReadError

definition body_too_large :: "int \<Rightarrow> failure" where
  "body_too_large max_bytes =
     too_large (lit ''request body exceeds '' @ show_int max_bytes @ lit '' bytes'')"

text \<open>The frames of the body, the result, and how many frames were taken.\<close>

fun read_frames :: "body_frame list \<Rightarrow> u8 list \<Rightarrow> int \<Rightarrow> nat \<Rightarrow> (failure + u8 list) \<times> nat" where
  "read_frames [] bytes max_bytes n =
     ((if exceeds (length bytes) max_bytes then Err (body_too_large max_bytes) else Ok bytes), n)"
| "read_frames (ReadError # frames) bytes max_bytes n =
     (Err (bad_request (lit ''BadRequestError'') (lit ''malformed form'')), n + 1)"
| "read_frames (Trailers # frames) bytes max_bytes n = read_frames frames bytes max_bytes (n + 1)"
| "read_frames (Data data # frames) bytes max_bytes n =
     (let bytes' = bytes @ data
      in if exceeds (length bytes') max_bytes then (Err (body_too_large max_bytes), n + 1)
         else read_frames frames bytes' max_bytes (n + 1))"

definition read_body :: "body_frame list \<Rightarrow> int \<Rightarrow> (failure + u8 list) \<times> nat" where
  "read_body body max_bytes = read_frames body [] max_bytes 0"

definition form_failure :: "form_error \<Rightarrow> failure" where
  "form_failure e = (case e of
     form_error.BadRequest \<Rightarrow> bad_request (lit ''BadRequestError'') (lit ''malformed form'')
   | TooLarge \<Rightarrow> too_large (lit ''request exceeds multipart limits''))"

subsection \<open>The form\<close>

definition require_text :: "crates \<Rightarrow> rstr \<Rightarrow> form_value \<Rightarrow> failure + rstr" where
  "require_text X key v = (case v of
     Text t \<Rightarrow> Ok t
   | File _ \<Rightarrow> Err (bad_request (lit ''BadRequestError'')
       (lit ''field '' @ std_debug X key @ lit '' must be a string'')))"

definition read_upload :: "form_value \<Rightarrow> settings \<Rightarrow> failure + attachment" where
  "read_upload v s = (case v of
     Text _ \<Rightarrow> Err (bad_request (lit ''BadRequestError'') (lit ''attachment/inline must be an uploaded file''))
   | File u \<Rightarrow>
       if exceeds (length (up_data u)) (max_attachment_bytes s)
       then Err (too_large (lit ''attachment exceeds max size''))
       else Ok \<lparr>att_filename = (if filename u = [] then lit ''attachment'' else filename u),
         att_content_type = (case up_content_type u of
             Some t \<Rightarrow> if t \<noteq> [] then t else lit ''application/octet-stream''
           | None \<Rightarrow> lit ''application/octet-stream''),
         att_data = up_data u\<rparr>)"

record parsed_form =
  pf_from :: "rstr list"
  pf_to :: "rstr list"
  pf_cc :: "rstr list"
  pf_bcc :: "rstr list"
  pf_subject :: "rstr option"
  pf_text :: "rstr option"
  pf_html :: "rstr option"
  pf_amp_html :: "rstr option"
  pf_headers :: "(rstr \<times> rstr) list"
  pf_attachments :: "attachment list"
  pf_inline :: "attachment list"

definition empty_form :: parsed_form where
  "empty_form = \<lparr>pf_from = [], pf_to = [], pf_cc = [], pf_bcc = [], pf_subject = None, pf_text = None,
     pf_html = None, pf_amp_html = None, pf_headers = [], pf_attachments = [], pf_inline = []\<rparr>"

text \<open>First position, last value.\<close>

fun set_header :: "rstr \<Rightarrow> rstr \<Rightarrow> (rstr \<times> rstr) list \<Rightarrow> (rstr \<times> rstr) list" where
  "set_header name val [] = [(name, val)]"
| "set_header name val ((n, v) # hs) =
     (if n = name then (n, val) # hs else (n, v) # set_header name val hs)"

definition aggregate :: "settings \<Rightarrow> nat \<Rightarrow> failure + unit" where
  "aggregate s bytes_so_far =
     (if exceeds bytes_so_far (max_body_bytes s)
      then Err (too_large (lit ''aggregate body size exceeds '' @ show_int (max_body_bytes s) @ lit '' bytes''))
      else Ok ())"

definition is_unsupported_field :: "rstr \<Rightarrow> bool" where
  "is_unsupported_field key \<longleftrightarrow>
     starts_with (lit ''v:'') key \<or> starts_with (lit ''o:'') key \<or> starts_with (lit ''t:'') key
     \<or> key = lit ''recipient-variables'' \<or> key = lit ''template''"

text \<open>The \<open>text\<close>, \<open>html\<close> and \<open>amp-html\<close> arms, and the arms for uploads.\<close>

definition body_field ::
  "crates \<Rightarrow> settings \<Rightarrow> rstr \<Rightarrow> form_value \<Rightarrow> parsed_form \<Rightarrow> nat \<Rightarrow> failure + parsed_form \<times> nat" where
  "body_field X s key v parsed bytes_so_far =
     and_then (require_text X key v) (\<lambda>t.
       (let bytes_so_far' = bytes_so_far + byte_len t in
        and_then (aggregate s bytes_so_far') (\<lambda>_.
          Ok ((if key = lit ''text'' then parsed\<lparr>pf_text := Some t\<rparr>
               else if key = lit ''html'' then parsed\<lparr>pf_html := Some t\<rparr>
               else parsed\<lparr>pf_amp_html := Some t\<rparr>), bytes_so_far'))))"

definition upload_field ::
  "settings \<Rightarrow> rstr \<Rightarrow> form_value \<Rightarrow> parsed_form \<Rightarrow> nat \<Rightarrow> failure + parsed_form \<times> nat" where
  "upload_field s key v parsed bytes_so_far =
     and_then (read_upload v s) (\<lambda>a.
       (let bytes_so_far' = bytes_so_far + length (att_data a) in
        and_then (aggregate s bytes_so_far') (\<lambda>_.
          (let parsed' = (if key = lit ''attachment''
               then parsed\<lparr>pf_attachments := pf_attachments parsed @ [a]\<rparr>
               else parsed\<lparr>pf_inline := pf_inline parsed @ [a]\<rparr>)
           in if exceeds (length (pf_attachments parsed') + length (pf_inline parsed')) (max_attachments s)
              then Err (too_large (lit ''too many attachments+inline (max '' @ show_int (max_attachments s) @ [41]))
              else Ok (parsed', bytes_so_far')))))"

definition known_field ::
  "crates \<Rightarrow> settings \<Rightarrow> rstr \<Rightarrow> form_value \<Rightarrow> parsed_form \<Rightarrow> nat \<Rightarrow> failure + parsed_form \<times> nat" where
  "known_field X s key v parsed bytes_so_far =
     (let add = (\<lambda>put. map_ok (\<lambda>t. (put t, bytes_so_far)) (require_text X key v)) in
      if key = lit ''from'' then add (\<lambda>t. parsed\<lparr>pf_from := pf_from parsed @ [t]\<rparr>)
      else if key = lit ''to'' then add (\<lambda>t. parsed\<lparr>pf_to := pf_to parsed @ [t]\<rparr>)
      else if key = lit ''cc'' then add (\<lambda>t. parsed\<lparr>pf_cc := pf_cc parsed @ [t]\<rparr>)
      else if key = lit ''bcc'' then add (\<lambda>t. parsed\<lparr>pf_bcc := pf_bcc parsed @ [t]\<rparr>)
      else if key = lit ''subject'' then add (\<lambda>t. parsed\<lparr>pf_subject := Some t\<rparr>)
      else if key = lit ''text'' \<or> key = lit ''html'' \<or> key = lit ''amp-html''
      then body_field X s key v parsed bytes_so_far
      else upload_field s key v parsed bytes_so_far)"

definition form_field ::
  "crates \<Rightarrow> settings \<Rightarrow> rstr \<Rightarrow> form_value \<Rightarrow> parsed_form \<Rightarrow> nat \<Rightarrow> failure + parsed_form \<times> nat" where
  "form_field X s key v parsed bytes_so_far =
     (if is_unsupported_field key
      then Err (bad_request (lit ''BadRequestError'') (lit ''unsupported field: '' @ key))
      else (case strip_prefix (lit ''h:'') key of
        Some name \<Rightarrow>
          (case v of
             Text t \<Rightarrow> Ok (parsed\<lparr>pf_headers := set_header name t (pf_headers parsed)\<rparr>, bytes_so_far)
           | File _ \<Rightarrow> Err (bad_request (lit ''BadRequestError'') (lit ''header '' @ key @ lit '' must be a string'')))
      | None \<Rightarrow>
          if key \<notin> set KNOWN_FIELDS
          then Err (bad_request (lit ''BadRequestError'') (lit ''unknown field: '' @ key))
          else known_field X s key v parsed bytes_so_far))"

fun form_fields ::
  "crates \<Rightarrow> settings \<Rightarrow> form_items \<Rightarrow> parsed_form \<Rightarrow> nat \<Rightarrow> failure + parsed_form" where
  "form_fields X s [] parsed bytes_so_far = Ok parsed"
| "form_fields X s ((key, v) # items) parsed bytes_so_far =
     and_then (form_field X s key v parsed bytes_so_far) (\<lambda>(parsed', bytes_so_far').
       form_fields X s items parsed' bytes_so_far')"

definition parse_form :: "crates \<Rightarrow> form_items \<Rightarrow> settings \<Rightarrow> failure + parsed_form" where
  "parse_form X items s =
     and_then (form_fields X s items empty_form 0) (\<lambda>parsed.
       if length (pf_from parsed) \<noteq> 1
       then Err (bad_request (lit ''BadRequestError'') (lit ''exactly one '' @ [39] @ lit ''from'' @ [39] @ lit '' is required''))
       else if pf_subject parsed = None
       then Err (bad_request (lit ''BadRequestError'') (lit ''subject is required''))
       else if pf_text parsed = None \<and> pf_html parsed = None
       then Err (bad_request (lit ''BadRequestError'') (lit ''at least one of '' @ [39] @ lit ''text'' @ [39]
         @ lit '' or '' @ [39] @ lit ''html'' @ [39] @ lit '' is required''))
       else Ok parsed)"

subsection \<open>The log line of a partial refusal\<close>

definition refused_domain :: "crates \<Rightarrow> rstr \<Rightarrow> rstr" where
  "refused_domain X address =
     (case rsplit_once 64 address of
        Some (_, domain) \<Rightarrow> if domain \<noteq> [] then std_lower X domain else [45]
      | None \<Rightarrow> [45])"

text \<open>\<open>sort_by_key\<close> compares strings by their UTF-8 bytes, which is the order of the code points.\<close>

definition refusal_key :: "rstr \<times> nat option \<Rightarrow> nat list \<times> int" where
  "refusal_key entry = (case entry of (domain, code) \<Rightarrow>
     (domain, case code of None \<Rightarrow> - 1 | Some c \<Rightarrow> int c))"

definition refused_entries :: "crates \<Rightarrow> refusal list \<Rightarrow> (rstr \<times> nat option) list" where
  "refused_entries X refused =
     remdups_adj (sort_key refusal_key
       (map (\<lambda>r. (refused_domain X (refused_address r), refused_code r)) refused))"

definition log_partial_refusal ::
  "crates \<Rightarrow> request_record \<Rightarrow> rstr \<Rightarrow> refusal list \<Rightarrow> action" where
  "log_partial_refusal X rec mid refused =
     LogRefused \<lparr>pr_request_id = request_id rec, pr_token_label = token_label rec,
       pr_path_domain = path_domain rec, pr_message_id = mid,
       pr_recipient_count = recipient_count rec, pr_refused_count = length refused,
       pr_refused = refused_entries X refused\<rparr>"

subsection \<open>The decision\<close>

text \<open>The message builder: \<open>None\<close> is a panic inside it.\<close>

type_synonym build_fun = "message_input \<Rightarrow> (invalid_message + built_message) option"
type_synonym submit_fun = "built_message \<Rightarrow> submit_error + refusal list"

definition auth_failure :: failure where
  "auth_failure = \<lparr>f_status = 401, f_result = lit ''auth_error'', f_class = lit ''AuthError'',
     f_message = lit ''Unauthorized''\<rparr>"

text \<open>Step 3: the content type decides whether and how the body is read.\<close>

definition read_form ::
  "crates \<Rightarrow> settings \<Rightarrow> u8 list option \<Rightarrow> body_frame list \<Rightarrow> (failure + form_items) \<times> action list" where
  "read_form X s content_type body =
     (case encoding_of X content_type of
        Inl e \<Rightarrow> (Err (form_failure e), [])
      | Inr enc \<Rightarrow>
          (let limits = \<lparr>max_files = saturating_add (max_attachments s) 1,
                 max_fields = saturating_add (max_recipients s) FORM_FIELD_HEADROOM,
                 max_part_size = max_body_bytes s\<rparr>;
               parsed = (\<lambda>bytes. map_err form_failure (parse X enc bytes limits))
           in if enc = NoEncoding then (parsed [], [])
              else (case read_body body (max_body_bytes s) of
                      (Inl f, n) \<Rightarrow> (Err f, [Read n])
                    | (Inr bytes, n) \<Rightarrow> (parsed bytes, [Read n]))))"

definition policy_failure :: "policy_error \<Rightarrow> failure" where
  "policy_failure e = (case e of
     policy_error.BadRequest \<Rightarrow> bad_request (lit ''InvalidAddressError'') (lit ''invalid address'')
   | Forbidden message \<Rightarrow> \<lparr>f_status = 403, f_result = lit ''policy_error'', f_class = lit ''PolicyError'',
       f_message = message\<rparr>)"

definition header_failure :: "header_error \<Rightarrow> failure" where
  "header_failure e = bad_request (header_error_class e) (lit ''invalid header'')"

definition form_from :: "parsed_form \<Rightarrow> rstr" where
  "form_from parsed = (case pf_from parsed of f # _ \<Rightarrow> f | [] \<Rightarrow> [])"

text \<open>Steps 5 to 8, and the input of step 9.\<close>

definition message_of ::
  "crates \<Rightarrow> settings \<Rightarrow> token_policy \<Rightarrow> rstr \<Rightarrow> parsed_form \<Rightarrow> failure + message_input" where
  "message_of X s policy domain parsed =
     and_then (map_err policy_failure (enforce_policy X policy domain (form_from parsed))) (\<lambda>m.
     and_then (map_err header_failure
       (validate_subject (case pf_subject parsed of Some t \<Rightarrow> t | None \<Rightarrow> []) (max_header_value_length s))) (\<lambda>subject.
     and_then (map_err header_failure
       (validate_custom_headers X (pf_headers parsed) (max_header_value_length s))) (\<lambda>_.
       (let envelope_count = length (pf_to parsed) + length (pf_cc parsed) + length (pf_bcc parsed)
        in if envelope_count = 0
           then Err (bad_request (lit ''BadRequestError'') (lit ''at least one of to/cc/bcc is required''))
           else if exceeds envelope_count (max_recipients s)
           then Err (too_large (lit ''too many recipients (max '' @ show_int (max_recipients s) @ [41]))
           else Ok \<lparr>in_from = m, in_to = pf_to parsed, in_cc = pf_cc parsed, in_bcc = pf_bcc parsed,
             in_subject = subject, in_text = pf_text parsed, in_html = pf_html parsed,
             in_amp_html = pf_amp_html parsed, in_headers = pf_headers parsed,
             in_attachments = pf_attachments parsed, in_inline = pf_inline parsed,
             in_public_host = public_host s\<rparr>))))"

definition build_message :: "build_fun \<Rightarrow> message_input \<Rightarrow> failure + built_message" where
  "build_message build input =
     (case build input of
        None \<Rightarrow> Err \<lparr>f_status = 500, f_result = lit ''internal_error'', f_class = lit ''Panic'',
          f_message = lit ''Internal Server Error''\<rparr>
      | Some r \<Rightarrow> map_err (\<lambda>_. bad_request (lit ''HeaderInjectionError'') (lit ''invalid message'')) r)"

definition submit_failure :: "submit_error \<Rightarrow> failure" where
  "submit_failure e = (case e of
     Temporary \<Rightarrow> \<lparr>f_status = 503, f_result = lit ''smtp_temporary'', f_class = lit ''SmtpSubmitError'',
       f_message = lit ''Upstream SMTP temporarily unavailable''\<rparr>
   | Permanent \<Rightarrow> \<lparr>f_status = 502, f_result = lit ''smtp_permanent'', f_class = lit ''SmtpSubmitError'',
       f_message = lit ''Upstream SMTP rejected the message''\<rparr>)"

definition queued :: "rstr \<Rightarrow> response" where
  "queued mid = json_response 200 [(lit ''id'', mid), (lit ''message'', lit ''Queued. Thank you.'')]"

type_synonym decision = "(failure + response) \<times> request_record \<times> action list"

text \<open>Step 11.\<close>

definition answer ::
  "crates \<Rightarrow> settings \<Rightarrow> rstr \<Rightarrow> refusal list \<Rightarrow> request_record \<Rightarrow> decision" where
  "answer X s mid refused rec =
     (if refused = [] then (Ok (queued mid), rec\<lparr>rr_result := lit ''ok''\<rparr>, [])
      else
        (let rec1 = rec\<lparr>rr_result := lit ''ok'', refused_count := length refused\<rparr>;
             logged = log_partial_refusal X rec1 mid refused;
             rec2 = rec1\<lparr>rr_result := lit ''partial_refusal''\<rparr>
         in if fail_on_partial_refusal s
            then (Ok (error_response 502 (lit ''Upstream SMTP refused '' @ show_nat (refused_count rec2)
                @ lit '' of '' @ show_nat (recipient_count rec2)
                @ lit '' recipients; the message was sent to the others'')), rec2, [logged])
            else (Ok (queued mid), rec2, [logged])))"

text \<open>Steps 9 and 10.\<close>

definition build_and_submit ::
  "crates \<Rightarrow> settings \<Rightarrow> build_fun \<Rightarrow> submit_fun \<Rightarrow> message_input \<Rightarrow> request_record \<Rightarrow> decision" where
  "build_and_submit X s build submit input rec =
     (case build_message build input of
        Inl f \<Rightarrow> (Err f, rec, [])
      | Inr m \<Rightarrow>
          (let rec' = rec\<lparr>rr_message_id := Some (message_id m), recipient_count := length (envelope m)\<rparr>
           in case submit m of
                Inl e \<Rightarrow> (Err (submit_failure e), rec', [Submit m])
              | Inr refused \<Rightarrow>
                  (case answer X s (message_id m) refused rec' of
                     (r, rec'', acts) \<Rightarrow> (r, rec'', Submit m # acts))))"

record request =
  rq_domain :: rstr
  rq_authorization :: "u8 list option"
  rq_content_type :: "u8 list option"
  rq_body :: "body_frame list"

text \<open>Steps 4 to 11.\<close>

definition decide_items ::
  "crates \<Rightarrow> settings \<Rightarrow> build_fun \<Rightarrow> submit_fun \<Rightarrow> token_policy \<Rightarrow> rstr \<Rightarrow> form_items \<Rightarrow> request_record
   \<Rightarrow> decision" where
  "decide_items X s build submit policy domain items rec =
     (case parse_form X items s of
        Inl f \<Rightarrow> (Err f, rec, [])
      | Inr parsed \<Rightarrow>
          (let rec' = rec\<lparr>rr_from := take FROM_LOG_MAX_LEN (form_from parsed)\<rparr>
           in case message_of X s policy domain parsed of
                Inl f \<Rightarrow> (Err f, rec', [])
              | Inr input \<Rightarrow> build_and_submit X s build submit input rec'))"

definition decide ::
  "crates \<Rightarrow> relay \<Rightarrow> build_fun \<Rightarrow> submit_fun \<Rightarrow> request \<Rightarrow> request_record \<Rightarrow> decision" where
  "decide X R build submit rq rec =
     (let s = r_settings R
      in case authenticate X (rq_authorization rq) (r_tokens R) of
           Inl _ \<Rightarrow> (Err auth_failure, rec, [])
         | Inr policy \<Rightarrow>
             (let rec' = rec\<lparr>token_label := label policy\<rparr>
              in case read_form X s (rq_content_type rq) (rq_body rq) of
                   (Inl f, acts) \<Rightarrow> (Err f, rec', acts)
                 | (Inr items, acts) \<Rightarrow>
                     (case decide_items X s build submit policy (rq_domain rq) items rec' of
                        (r, rec'', acts') \<Rightarrow> (r, rec'', acts @ acts'))))"

definition new_record :: "crates \<Rightarrow> rstr \<Rightarrow> rstr \<Rightarrow> request_record" where
  "new_record X rid domain =
     \<lparr>request_id = rid, token_label = [45],
      path_domain = (case normalize_domain X domain of Inr d \<Rightarrow> d | Inl _ \<Rightarrow> domain),
      rr_from = [45], recipient_count = 0, refused_count = 0, rr_message_id = None,
      rr_result = lit ''internal_error'', status_code = 500, error_class = Some (lit ''Panic'')\<rparr>"

text \<open>The route: the response, and everything that happened; the record is logged when it is dropped.\<close>

definition process ::
  "crates \<Rightarrow> relay \<Rightarrow> build_fun \<Rightarrow> submit_fun \<Rightarrow> rstr \<Rightarrow> request \<Rightarrow> response \<times> action list" where
  "process X R build submit rid rq =
     (case decide X R build submit rq (new_record X rid (rq_domain rq)) of
        (result, rec, acts) \<Rightarrow>
          (let (resp, rec') =
             (case result of
                Inr r \<Rightarrow> (r, rec\<lparr>error_class := None\<rparr>)
              | Inl f \<Rightarrow>
                  (let r = error_response (f_status f) (f_message f)
                   in (if f_status f = 401
                       then r\<lparr>rs_headers := rs_headers r
                              @ [(lit ''www-authenticate'', lit ''Basic realm='' @ [34] @ lit ''MG API'' @ [34])]\<rparr>
                       else r,
                       rec\<lparr>rr_result := f_result f, error_class := Some (f_class f)\<rparr>)))
           in (resp, acts @ [LogRequest (rec'\<lparr>status_code := rs_status resp\<rparr>)])))"

subsection \<open>Reading the body is bounded\<close>

fun frame_data :: "body_frame \<Rightarrow> u8 list" where
  "frame_data (Data data) = data"
| "frame_data f = []"

definition frames_data :: "body_frame list \<Rightarrow> u8 list" where
  "frames_data frames = concat (map frame_data frames)"

lemma frames_data_simps [simp]:
  "frames_data [] = []" "frames_data (f # fs) = frame_data f @ frames_data fs"
  by (simp_all add: frames_data_def)

lemma exceeds_False: "\<not> exceeds n limit \<longleftrightarrow> int n \<le> limit \<and> int n \<le> i64_max"
  by (auto simp: exceeds_def)

lemma read_frames_Ok_iff:
  "fst (read_frames frames bytes mx n) = Ok r \<longleftrightarrow>
     ReadError \<notin> set frames \<and> r = bytes @ frames_data frames \<and> \<not> exceeds (length r) mx"
proof (induction frames bytes mx n rule: read_frames.induct)
  case (4 data frames bytes mx n)
  have "exceeds (length (bytes @ data)) mx \<Longrightarrow> exceeds (length (bytes @ data) + length (frames_data frames)) mx"
    by (erule exceeds_mono) simp
  with 4 show ?case by (auto simp: Let_def add.assoc)
qed auto

lemma read_frames_taken:
  assumes "\<not> exceeds (length bytes) mx"
  shows "\<exists>k. snd (read_frames frames bytes mx n) = n + k \<and> k \<le> length frames
    \<and> \<not> exceeds (length (bytes @ frames_data (take (k - 1) frames))) mx"
  using assms
proof (induction frames bytes mx n rule: read_frames.induct)
  case (1 bytes mx n)
  then show ?case by (intro exI [of _ 0]) simp
next
  case (2 frames bytes mx n)
  then show ?case by (intro exI [of _ 1]) simp
next
  case (3 frames bytes mx n)
  from 3(1) [OF 3(2)] obtain k where "snd (read_frames frames bytes mx (n + 1)) = n + 1 + k"
    "k \<le> length frames" "\<not> exceeds (length (bytes @ frames_data (take (k - 1) frames))) mx" by blast
  then show ?case by (intro exI [of _ "Suc k"]) (cases k; simp)
next
  case (4 data frames bytes mx n)
  show ?case
  proof (cases "exceeds (length (bytes @ data)) mx")
    case True
    with 4(2) show ?thesis by (intro exI [of _ 1]) (simp add: Let_def)
  next
    case False
    from 4(1) [OF refl False False] obtain k where
      "snd (read_frames frames (bytes @ data) mx (n + 1)) = n + 1 + k"
      "k \<le> length frames" "\<not> exceeds (length ((bytes @ data) @ frames_data (take (k - 1) frames))) mx" by blast
    with False 4(2) show ?thesis by (intro exI [of _ "Suc k"]) (cases k; simp add: Let_def)
  qed
qed

subsection \<open>What the form parser keeps\<close>

lemma map_of_set_header: "map_of (set_header n v hs) = (map_of hs)(n \<mapsto> v)"
  by (induction n v hs rule: set_header.induct) auto

lemma map_fst_set_header:
  "map fst (set_header n v hs) = (if n \<in> fst ` set hs then map fst hs else map fst hs @ [n])"
  by (induction n v hs rule: set_header.induct) auto

lemma distinct_set_header: "distinct (map fst hs) \<Longrightarrow> distinct (map fst (set_header n v hs))"
  unfolding map_fst_set_header by auto

fun opt_len :: "rstr option \<Rightarrow> nat" where
  "opt_len None = 0"
| "opt_len (Some t) = byte_len t"

definition uploads :: "parsed_form \<Rightarrow> attachment list" where
  "uploads parsed = pf_attachments parsed @ pf_inline parsed"

definition form_size :: "parsed_form \<Rightarrow> nat" where
  "form_size parsed = opt_len (pf_text parsed) + opt_len (pf_html parsed) + opt_len (pf_amp_html parsed)
     + sum_list (map (length \<circ> att_data) (uploads parsed))"

text \<open>The invariant of the loop over the fields.\<close>

definition form_inv :: "settings \<Rightarrow> parsed_form \<Rightarrow> nat \<Rightarrow> bool" where
  "form_inv s parsed n \<longleftrightarrow>
     form_size parsed \<le> n
     \<and> (pf_text parsed = None \<and> pf_html parsed = None \<and> pf_amp_html parsed = None \<and> uploads parsed = []
        \<or> \<not> exceeds n (max_body_bytes s))
     \<and> (uploads parsed = [] \<or> \<not> exceeds (length (uploads parsed)) (max_attachments s))
     \<and> (\<forall>a \<in> set (uploads parsed). \<not> exceeds (length (att_data a)) (max_attachment_bytes s)
          \<and> att_filename a \<noteq> [] \<and> att_content_type a \<noteq> [])
     \<and> distinct (map fst (pf_headers parsed))"

lemma form_inv_empty: "form_inv s empty_form 0"
  by (simp add: form_inv_def empty_form_def form_size_def uploads_def)

lemma read_upload_ok:
  "read_upload v s = Ok a \<Longrightarrow> \<not> exceeds (length (att_data a)) (max_attachment_bytes s)
     \<and> att_filename a \<noteq> [] \<and> att_content_type a \<noteq> []"
  by (auto simp: read_upload_def lit_def split: form_value.splits if_splits option.splits)

lemma body_field_inv:
  assumes "form_inv s parsed n" "body_field X s key v parsed n = Ok (parsed', n')"
  shows "form_inv s parsed' n'"
proof -
  obtain t where t: "n' = n + byte_len t" "\<not> exceeds n' (max_body_bytes s)"
    "parsed' = (if key = lit ''text'' then parsed\<lparr>pf_text := Some t\<rparr>
       else if key = lit ''html'' then parsed\<lparr>pf_html := Some t\<rparr> else parsed\<lparr>pf_amp_html := Some t\<rparr>)"
    using assms(2)
    by (auto simp: body_field_def aggregate_def Let_def and_then_Inr_iff simp del: split_paired_Ex split: if_split_asm)
  have "uploads parsed' = uploads parsed" "pf_headers parsed' = pf_headers parsed"
    "form_size parsed' \<le> form_size parsed + byte_len t"
    by (auto simp: t(3) uploads_def form_size_def)
  with assms(1) t show ?thesis unfolding form_inv_def by auto
qed

lemma upload_field_inv:
  assumes "form_inv s parsed n" "upload_field s key v parsed n = Ok (parsed', n')"
  shows "form_inv s parsed' n'"
proof -
  obtain a where a: "read_upload v s = Ok a" "n' = n + length (att_data a)"
    "\<not> exceeds n' (max_body_bytes s)"
    "parsed' = (if key = lit ''attachment''
               then parsed\<lparr>pf_attachments := pf_attachments parsed @ [a]\<rparr>
               else parsed\<lparr>pf_inline := pf_inline parsed @ [a]\<rparr>)"
    "\<not> exceeds (length (uploads parsed')) (max_attachments s)"
    using assms(2)
    by (auto simp: upload_field_def aggregate_def Let_def and_then_Inr_iff uploads_def
        simp del: split_paired_Ex split: if_split_asm)
  have "set (uploads parsed') = insert a (set (uploads parsed))" "pf_headers parsed' = pf_headers parsed"
    "form_size parsed' = form_size parsed + length (att_data a)"
    by (auto simp: a(4) uploads_def form_size_def)
  with assms(1) a read_upload_ok [OF a(1)] show ?thesis unfolding form_inv_def by auto
qed

lemma form_inv_add:
  assumes "form_inv s parsed n"
  shows "form_inv s (parsed\<lparr>pf_from := f\<rparr>) n" "form_inv s (parsed\<lparr>pf_to := f\<rparr>) n"
    "form_inv s (parsed\<lparr>pf_cc := f\<rparr>) n" "form_inv s (parsed\<lparr>pf_bcc := f\<rparr>) n"
    "form_inv s (parsed\<lparr>pf_subject := g\<rparr>) n"
    "form_inv s (parsed\<lparr>pf_headers := set_header name val (pf_headers parsed)\<rparr>) n"
  using assms by (simp_all add: form_inv_def form_size_def uploads_def distinct_set_header)

lemma known_field_inv:
  assumes "form_inv s parsed n" "known_field X s key v parsed n = Ok (parsed', n')"
  shows "form_inv s parsed' n'"
  using assms
  by (auto simp: known_field_def Let_def map_ok_Inr_iff form_inv_add split: if_split_asm
      intro: body_field_inv upload_field_inv)

lemma form_field_inv:
  assumes "form_inv s parsed n" "form_field X s key v parsed n = Ok (parsed', n')"
  shows "form_inv s parsed' n'"
  using assms
  by (auto simp: form_field_def form_inv_add intro: known_field_inv
      split: if_split_asm option.splits form_value.splits)

lemma form_fields_inv:
  "form_inv s parsed n \<Longrightarrow> form_fields X s items parsed n = Ok parsed' \<Longrightarrow> \<exists>n'. form_inv s parsed' n'"
proof (induction X s items parsed n rule: form_fields.induct)
  case (2 X s key v items parsed n)
  from 2(3) obtain parsed1 n1 where f: "form_field X s key v parsed n = Ok (parsed1, n1)"
    "form_fields X s items parsed1 n1 = Ok parsed'"
    by (auto simp: and_then_Inr_iff)
  show ?case by (rule 2(1) [OF f(1) refl form_field_inv [OF 2(2) f(1)] f(2)])
qed auto

text \<open>C17: reading a body succeeds exactly when no frame failed and all the data is within
  \<open>max_body_bytes\<close>, and returns that data; in every case the frames before the last one taken
  are within the limit, so a chunked body without a declared length cannot grow past it.\<close>

theorem read_body_bounded:
  assumes "in_i64 mx" "0 \<le> mx"
  shows "(fst (read_body body mx) = Ok bytes \<longleftrightarrow>
       ReadError \<notin> set body \<and> bytes = frames_data body \<and> int (length bytes) \<le> mx)
     \<and> int (length (frames_data (take (snd (read_body body mx) - 1) body))) \<le> mx"
proof -
  have "mx \<le> i64_max" using assms(1) by (simp add: in_i64_def)
  then have le: "\<not> exceeds n mx \<longleftrightarrow> int n \<le> mx" for n by (auto simp: exceeds_False)
  from assms(2) have "\<not> exceeds (length []) mx" by (simp add: le)
  from read_frames_taken [OF this, of body 0] show ?thesis
    by (auto simp: read_body_def read_frames_Ok_iff le)
qed

theorem read_body_bounded_witness:
  "fst (read_body [Data [1, 2], Trailers, Data [3]] 3) = Ok [1, 2, 3]
   \<and> snd (read_body [Data [1, 2], Data [3, 4], Data [5]] 3) = 2"
  using read_body_bounded [of 3 "[Data [1, 2], Trailers, Data [3]]" "[1, 2, 3]"]
  by (simp add: in_i64_def i64_min_def i64_max_def read_body_def exceeds_def)

text \<open>C16: an accepted form has exactly one \<open>from\<close>, a subject, a text or an HTML body, header names
  that are distinct, at most \<open>max_attachments\<close> files, each named, typed and within
  \<open>max_attachment_bytes\<close>, and bodies and files together within \<open>max_body_bytes\<close>.\<close>

theorem parse_form_sound:
  assumes "parse_form X items s = Ok parsed"
  shows "length (pf_from parsed) = 1 \<and> pf_subject parsed \<noteq> None
     \<and> (pf_text parsed \<noteq> None \<or> pf_html parsed \<noteq> None)
     \<and> int (form_size parsed) \<le> max_body_bytes s
     \<and> (uploads parsed = [] \<or> int (length (uploads parsed)) \<le> max_attachments s)
     \<and> (\<forall>a \<in> set (uploads parsed). int (length (att_data a)) \<le> max_attachment_bytes s
          \<and> att_filename a \<noteq> [] \<and> att_content_type a \<noteq> [])
     \<and> distinct (map fst (pf_headers parsed))"
proof -
  from assms have f: "form_fields X s items empty_form 0 = Ok parsed"
    and rest: "length (pf_from parsed) = 1" "pf_subject parsed \<noteq> None"
      "pf_text parsed \<noteq> None \<or> pf_html parsed \<noteq> None"
    by (auto simp: parse_form_def and_then_Inr_iff split: if_split_asm)
  from form_fields_inv [OF form_inv_empty f] obtain n where "form_inv s parsed n" ..
  with rest show ?thesis by (auto simp: form_inv_def exceeds_False)
qed

definition demo_settings :: settings where
  "demo_settings = \<lparr>bind_host = lit ''127.0.0.1'', bind_port = 8085, public_host = lit ''relay.example'',
     secrets_path = [], smtp_host = lit ''smtp'', smtp_port = 587, smtp_starttls = True,
     smtp_timeout_s = Finite 30, smtp_ca_file = [], smtp_max_concurrency = 8, envelope_sender = [],
     fail_on_partial_refusal = False, max_body_bytes = 26214400, max_attachments = 10,
     max_attachment_bytes = 10485760, max_recipients = 100, max_header_value_length = 998,
     log_level = Info\<rparr>"

definition demo_items :: form_items where
  "demo_items = [(lit ''from'', Text (lit ''J <j@example.com>'')), (lit ''to'', Text (lit ''a@b.c'')),
     (lit ''subject'', Text (lit ''Hi'')), (lit ''text'', Text (lit ''Hello'')),
     (lit ''h:X-Tag'', Text (lit ''1'')), (lit ''h:X-Tag'', Text (lit ''2''))]"

definition demo_form :: parsed_form where
  "demo_form = \<lparr>pf_from = [lit ''J <j@example.com>''], pf_to = [lit ''a@b.c''], pf_cc = [], pf_bcc = [],
     pf_subject = Some (lit ''Hi''), pf_text = Some (lit ''Hello''), pf_html = None, pf_amp_html = None,
     pf_headers = [(lit ''X-Tag'', lit ''2'')], pf_attachments = [], pf_inline = []\<rparr>"

lemma demo_parse_form: "parse_form ascii_crates demo_items demo_settings = Ok demo_form"
  by code_simp

theorem parse_form_sound_witness:
  "length (pf_from demo_form) = 1 \<and> int (form_size demo_form) \<le> 26214400"
  using parse_form_sound [OF demo_parse_form] by (simp add: demo_settings_def)

text \<open>The list of refusals that is logged.\<close>

lemma refusal_key_inj: "inj refusal_key"
  by (rule injI) (auto simp: refusal_key_def split: option.splits)

lemma sorted_remdups_adj_distinct:
  assumes "inj f" "sorted (map f xs)"
  shows "distinct (remdups_adj xs)"
  using assms(2)
proof (induction xs rule: remdups_adj.induct)
  case (3 x y xs)
  show ?case
  proof (cases "x = y")
    case False
    have "x \<notin> set (y # xs)"
    proof
      assume "x \<in> set (y # xs)"
      then have "f y \<le> f x" using 3(3) by auto
      with 3(3) have "f x = f y" by auto
      with assms(1) False show False by (auto dest: injD)
    qed
    with False 3 show ?thesis by simp
  qed (use 3 in auto)
qed simp_all

text \<open>The line about a partial refusal lists each refused domain with its code once, sorted by
  domain and code, nothing else: no entry is lost, and no local part of an address is logged.\<close>

lemma refused_entries_sorted:
  "sorted (map refusal_key (refused_entries X refused)) \<and> distinct (refused_entries X refused)
   \<and> set (refused_entries X refused)
     = (\<lambda>r. (refused_domain X (refused_address r), refused_code r)) ` set refused"
proof -
  let ?xs = "map (\<lambda>r. (refused_domain X (refused_address r), refused_code r)) refused"
  have "sorted (map refusal_key (sort_key refusal_key ?xs))" by simp
  then have "sorted (map refusal_key (remdups_adj (sort_key refusal_key ?xs)))"
    by (metis remdups_adj_map_injective refusal_key_inj sorted_remdups_adj)
  moreover have "distinct (remdups_adj (sort_key refusal_key ?xs))"
    by (rule sorted_remdups_adj_distinct [OF refusal_key_inj]) simp
  ultimately show ?thesis by (simp add: refused_entries_def)
qed

subsection \<open>What a request does\<close>

fun submitted :: "action list \<Rightarrow> built_message list" where
  "submitted [] = []"
| "submitted (Submit m # acts) = m # submitted acts"
| "submitted (_ # acts) = submitted acts"

lemma submitted_append [simp]: "submitted (a @ b) = submitted a @ submitted b"
  by (induction a rule: submitted.induct) auto

fun is_request_line :: "action \<Rightarrow> bool" where
  "is_request_line (LogRequest _) = True"
| "is_request_line _ = False"

text \<open>The checks a message has passed when it is submitted.\<close>

definition accepted_request ::
  "crates \<Rightarrow> relay \<Rightarrow> build_fun \<Rightarrow> request \<Rightarrow> token_policy \<Rightarrow> parsed_form \<Rightarrow> message_input \<Rightarrow> built_message \<Rightarrow> bool"
where
  "accepted_request X R build rq policy parsed input m \<longleftrightarrow>
     authenticate X (rq_authorization rq) (r_tokens R) = Ok policy
     \<and> (\<exists>items. fst (read_form X (r_settings R) (rq_content_type rq) (rq_body rq)) = Ok items
          \<and> parse_form X items (r_settings R) = Ok parsed)
     \<and> message_of X (r_settings R) policy (rq_domain rq) parsed = Ok input
     \<and> build input = Some (Ok m)"

lemma answer_cases:
  obtains "refused = []" "answer X s mid refused rec = (Ok (queued mid), rec\<lparr>rr_result := lit ''ok''\<rparr>, [])"
  | p where "refused \<noteq> []" "answer X s mid refused rec =
      (Ok (if fail_on_partial_refusal s
           then error_response 502 (lit ''Upstream SMTP refused '' @ show_nat (length refused)
                @ lit '' of '' @ show_nat (recipient_count rec)
                @ lit '' recipients; the message was sent to the others'') else queued mid),
       rec\<lparr>rr_result := lit ''partial_refusal'', refused_count := length refused\<rparr>, [LogRefused p])"
      "pr_refused_count p = length refused" "pr_recipient_count p = recipient_count rec"
      "pr_refused p = refused_entries X refused"
  by (cases "refused = []") (auto simp: answer_def Let_def log_partial_refusal_def)

lemma build_message_Ok_iff: "build_message build input = Ok m \<longleftrightarrow> build input = Some (Ok m)"
  by (auto simp: build_message_def map_err_Inr_iff split: option.splits)

lemma read_form_actions:
  "submitted (snd (read_form X s ct body)) = [] \<and> list_all (\<lambda>a. \<exists>n. a = Read n) (snd (read_form X s ct body))"
  by (auto simp: read_form_def Let_def split: sum.splits prod.splits)

text \<open>The failures of steps 3 to 9.\<close>

definition rejection :: "failure \<Rightarrow> bool" where
  "rejection f \<longleftrightarrow> f_status f \<in> {400, 403, 413, 500} \<and> f_result f \<notin> {lit ''ok'', lit ''partial_refusal''}"

lemma rejection_simps [simp]:
  "rejection (bad_request a b)" "rejection (too_large b)" "rejection (form_failure fe)"
  "rejection (policy_failure pe)" "rejection (header_failure he)" "rejection (body_too_large n)"
  by (auto simp: rejection_def bad_request_def too_large_def form_failure_def policy_failure_def
      header_failure_def body_too_large_def lit_def split: form_error.splits policy_error.splits)

lemma read_frames_rejection: "fst (read_frames frames bytes mx n) = Inl f \<Longrightarrow> rejection f"
  by (induction frames bytes mx n rule: read_frames.induct) (auto simp: Let_def split: if_splits)

lemma read_form_rejection: "fst (read_form X s ct body) = Inl f \<Longrightarrow> rejection f"
  using read_frames_rejection [of body "[]" "max_body_bytes s" 0 f]
  by (auto simp: read_form_def read_body_def Let_def map_err_Inl_iff split: sum.splits prod.splits if_splits)

lemma require_text_rejection: "require_text X key v = Inl f \<Longrightarrow> rejection f"
  by (auto simp: require_text_def split: form_value.splits)

lemma read_upload_rejection: "read_upload v s = Inl f \<Longrightarrow> rejection f"
  by (auto simp: read_upload_def split: form_value.splits if_splits)

lemma aggregate_rejection: "aggregate s n = Inl f \<Longrightarrow> rejection f"
  by (auto simp: aggregate_def split: if_splits)

lemma body_field_rejection: "body_field X s key v parsed n = Inl f \<Longrightarrow> rejection f"
  by (auto simp: body_field_def Let_def and_then_Inl_iff dest: require_text_rejection aggregate_rejection)

lemma upload_field_rejection: "upload_field s key v parsed n = Inl f \<Longrightarrow> rejection f"
  by (auto simp: upload_field_def Let_def and_then_Inl_iff split: if_split_asm
      dest: read_upload_rejection aggregate_rejection)

lemma known_field_rejection: "known_field X s key v parsed n = Inl f \<Longrightarrow> rejection f"
  by (auto simp: known_field_def Let_def map_ok_Inl_iff split: if_split_asm
      dest: require_text_rejection body_field_rejection upload_field_rejection)

lemma form_field_rejection: "form_field X s key v parsed n = Inl f \<Longrightarrow> rejection f"
  by (auto simp: form_field_def split: if_split_asm option.splits form_value.splits dest: known_field_rejection)

lemma form_fields_rejection: "form_fields X s items parsed n = Inl f \<Longrightarrow> rejection f"
  by (induction X s items parsed n rule: form_fields.induct)
    (auto simp: and_then_Inl_iff dest: form_field_rejection)

lemma parse_form_rejection: "parse_form X items s = Inl f \<Longrightarrow> rejection f"
  by (auto simp: parse_form_def and_then_Inl_iff split: if_split_asm dest: form_fields_rejection)

lemma message_of_rejection: "message_of X s policy domain parsed = Inl f \<Longrightarrow> rejection f"
  by (auto simp: message_of_def and_then_Inl_iff map_err_Inl_iff Let_def split: if_split_asm)

lemma build_message_rejection: "build_message build input = Inl f \<Longrightarrow> rejection f"
  by (auto simp: build_message_def map_err_Inl_iff rejection_def bad_request_def lit_def split: option.splits)

text \<open>Every way a decision can go: not authenticated, rejected before anything is sent, or submitted.\<close>

lemma decide_cases:
  obtains (unauthorized) e where "authenticate X (rq_authorization rq) (r_tokens R) = Err e"
      "decide X R build submit rq rec = (Err auth_failure, rec, [])"
  | (rejected) f rec' acts where "decide X R build submit rq rec = (Err f, rec', acts)"
      "\<forall>a \<in> set acts. \<exists>n. a = Read n" "rejection f"
  | (sent) policy parsed input m rec1 reads where
      "accepted_request X R build rq policy parsed input m"
      "\<forall>a \<in> set reads. \<exists>n. a = Read n"
      "recipient_count rec1 = length (envelope m)" "rr_message_id rec1 = Some (message_id m)"
      "decide X R build submit rq rec =
        (case submit m of
           Inl e \<Rightarrow> (Err (submit_failure e), rec1, reads @ [Submit m])
         | Inr refused \<Rightarrow> (case answer X (r_settings R) (message_id m) refused rec1 of
              (r, rec2, acts) \<Rightarrow> (r, rec2, reads @ Submit m # acts)))"
proof (cases "authenticate X (rq_authorization rq) (r_tokens R)")
  case (Inl e)
  then show thesis by (intro unauthorized) (simp_all add: decide_def Let_def)
next
  case auth: (Inr policy)
  let ?s = "r_settings R"
  obtain r reads where rf: "read_form X ?s (rq_content_type rq) (rq_body rq) = (r, reads)"
    by (cases "read_form X ?s (rq_content_type rq) (rq_body rq)")
  have reads: "\<forall>a \<in> set reads. \<exists>n. a = Read n"
    using read_form_actions [of X ?s "rq_content_type rq" "rq_body rq"] by (auto simp: rf list_all_iff)
  let ?rec = "rec\<lparr>token_label := label policy\<rparr>"
  show thesis
  proof (cases r)
    case (Inl f)
    with rf have "rejection f"
      using read_form_rejection [of X ?s "rq_content_type rq" "rq_body rq" f] by simp
    with auth rf Inl reads show thesis
      by (intro rejected [of f ?rec reads]) (simp_all add: decide_def Let_def)
  next
    case items: (Inr items)
    have d: "decide X R build submit rq rec =
        (case decide_items X ?s build submit policy (rq_domain rq) items ?rec of
           (r, rec'', acts) \<Rightarrow> (r, rec'', reads @ acts))"
      by (simp add: decide_def auth rf items Let_def)
    show thesis
    proof (cases "parse_form X items ?s")
      case (Inl f)
      then show thesis using d reads parse_form_rejection [OF Inl]
        by (intro rejected [of f ?rec reads]) (simp_all add: decide_items_def)
    next
      case parsed: (Inr parsed)
      let ?rec' = "?rec\<lparr>rr_from := take FROM_LOG_MAX_LEN (form_from parsed)\<rparr>"
      show thesis
      proof (cases "message_of X ?s policy (rq_domain rq) parsed")
        case (Inl f)
        then show thesis using d reads parsed message_of_rejection [OF Inl]
          by (intro rejected [of f ?rec' reads]) (simp_all add: decide_items_def Let_def)
      next
        case input: (Inr input)
        show thesis
        proof (cases "build_message build input")
          case (Inl f)
          then show thesis using d reads parsed input build_message_rejection [OF Inl]
            by (intro rejected [of f ?rec' reads]) (simp_all add: decide_items_def Let_def build_and_submit_def)
        next
          case (Inr m)
          have "accepted_request X R build rq policy parsed input m"
            using auth rf items parsed input Inr [unfolded build_message_Ok_iff]
            by (auto simp: accepted_request_def)
          then show thesis
            by (rule sent [OF _ reads,
                  of _ _ _ _ "?rec'\<lparr>rr_message_id := Some (message_id m), recipient_count := length (envelope m)\<rparr>"])
              (simp_all add: d decide_items_def parsed input build_and_submit_def Inr Let_def split: sum.splits prod.splits)
        qed
      qed
    qed
  qed
qed

lemma submitted_reads: "\<forall>a \<in> set acts. \<exists>n. a = Read n \<Longrightarrow> submitted acts = []"
  by (induction acts rule: submitted.induct) auto

lemma not_request_line: "\<forall>a \<in> set acts. \<exists>n. a = Read n \<Longrightarrow> \<not> list_ex is_request_line acts"
  by (induction acts) auto

text \<open>The same cases, for the whole route.\<close>

lemma process_cases:
  assumes "process X R build submit rid rq = (resp, acts)"
  obtains (unauthorized) e rec where "authenticate X (rq_authorization rq) (r_tokens R) = Err e"
      "rs_status resp = 401" "acts = [LogRequest rec]" "status_code rec = 401"
      "rr_result rec = lit ''auth_error''"
      "(lit ''www-authenticate'', lit ''Basic realm='' @ [34] @ lit ''MG API'' @ [34]) \<in> set (rs_headers resp)"
      "error_class rec \<noteq> None"
  | (rejected) f reads rec where "rejection f" "rs_status resp = f_status f"
      "acts = reads @ [LogRequest rec]" "\<forall>a \<in> set reads. \<exists>n. a = Read n"
      "status_code rec = f_status f" "rr_result rec = f_result f" "error_class rec \<noteq> None"
      "\<exists>policy. authenticate X (rq_authorization rq) (r_tokens R) = Ok policy"
  | (failed) policy parsed input m e reads rec where
      "accepted_request X R build rq policy parsed input m"
      "submit m = Err e" "\<forall>a \<in> set reads. \<exists>n. a = Read n"
      "rs_status resp = f_status (submit_failure e)"
      "acts = reads @ [Submit m, LogRequest rec]"
      "status_code rec = rs_status resp" "rr_result rec = f_result (submit_failure e)" "error_class rec \<noteq> None"
      "rr_message_id rec = Some (message_id m)"
  | (sent) policy parsed input m refused reads rec logged where
      "accepted_request X R build rq policy parsed input m"
      "submit m = Ok refused" "\<forall>a \<in> set reads. \<exists>n. a = Read n"
      "rs_status resp = (if refused \<noteq> [] \<and> fail_on_partial_refusal (r_settings R) then 502 else 200)"
      "rs_status resp = 200 \<longrightarrow> resp = queued (message_id m)"
      "acts = reads @ Submit m # logged @ [LogRequest rec]"
      "(refused = [] \<and> logged = []) \<or> (refused \<noteq> [] \<and> (\<exists>p. logged = [LogRefused p]))"
      "\<forall>p. LogRefused p \<in> set logged \<longrightarrow> pr_refused_count p = length refused
         \<and> pr_recipient_count p = length (envelope m) \<and> pr_refused p = refused_entries X refused"
      "status_code rec = rs_status resp" "error_class rec = None"
      "rr_result rec = (if refused = [] then lit ''ok'' else lit ''partial_refusal'')"
      "rr_message_id rec = Some (message_id m)"
      "recipient_count rec = length (envelope m)"
proof -
  let ?rec = "new_record X rid (rq_domain rq)"
  show thesis
  proof (cases rule: decide_cases [of X rq R build submit ?rec])
    case (unauthorized e)
    show thesis
      by (rule that(1) [OF unauthorized(1)])
        (use assms unauthorized(2) in \<open>auto simp: process_def auth_failure_def error_response_def json_response_def\<close>)
  next
    case (rejected f rec' reads)
    then have st: "f_status f \<noteq> 401" by (auto simp: rejection_def)
    have auth: "\<exists>policy. authenticate X (rq_authorization rq) (r_tokens R) = Ok policy"
    proof (cases "authenticate X (rq_authorization rq) (r_tokens R)")
      case (Inl e)
      with rejected(1) have "f = auth_failure" by (simp add: decide_def Let_def)
      with st show ?thesis by (simp add: auth_failure_def)
    qed blast
    show thesis
      by (rule that(2) [OF rejected(3) _ _ rejected(2) _ _ _ auth])
        (use assms rejected(1) st in \<open>auto simp: process_def Let_def error_response_def json_response_def\<close>)
  next
    case (sent policy parsed input m rec1 reads)
    show thesis
    proof (cases "submit m")
      case (Inl e)
      have st: "f_status (submit_failure e) \<noteq> 401" by (simp add: submit_failure_def split: submit_error.splits)
      show thesis
        by (rule that(3) [OF sent(1) Inl sent(2), where rec = "rec1\<lparr>rr_result := f_result (submit_failure e),
              error_class := Some (f_class (submit_failure e)), status_code := f_status (submit_failure e)\<rparr>"])
          (use assms sent(4,5) Inl st in \<open>auto simp: process_def Let_def error_response_def json_response_def\<close>)
    next
      case (Inr refused)
      show thesis
      proof (cases rule: answer_cases [of refused X "r_settings R" "message_id m" rec1])
        case 1
        show thesis
          by (rule that(4) [OF sent(1) Inr sent(2), where logged = "[]" and
                  rec = "rec1\<lparr>rr_result := lit ''ok'', error_class := None, status_code := 200\<rparr>"])
            (use assms sent(3,4,5) Inr 1 in \<open>auto simp: process_def Let_def queued_def json_response_def\<close>)
      next
        case (2 p)
        show thesis
          by (rule that(4) [OF sent(1) Inr sent(2), where logged = "[LogRefused p]" and
                  rec = "rec1\<lparr>rr_result := lit ''partial_refusal'', refused_count := length refused,
                    error_class := None,
                    status_code := if fail_on_partial_refusal (r_settings R) then 502 else 200\<rparr>"])
            (use assms sent(3,4,5) Inr 2 in
              \<open>auto simp: process_def Let_def queued_def json_response_def error_response_def split: if_splits\<close>)
      qed
    qed
  qed
qed

subsection \<open>Properties of the route\<close>

definition demo_build :: build_fun where
  "demo_build input = Some (Ok \<lparr>message_id = lit ''<1@relay>'', envelope = in_to input, formatted = [72]\<rparr>)"

definition demo_relay :: relay where
  "demo_relay = new_relay 100 demo_settings
     [\<lparr>label = lit ''site'', token_sha256 = hex_lower (sha256 ascii_crates (blit ''t'')),
       mailgun_domains = {lit ''example.com''}, allowed_from_domains = {lit ''example.com''},
       allowed_from_addresses = None\<rparr>]"

definition demo_request :: request where
  "demo_request = \<lparr>rq_domain = lit ''Example.com'', rq_authorization = Some (blit ''Basic YXBpOnQ=''),
     rq_content_type = Some (blit ''application/x-www-form-urlencoded''),
     rq_body = [Data (blit ''from=J+%3Cj%40example.com%3E&to=a%40b.c&''), Data (blit ''subject=Hi&text=Hello'')]\<rparr>"

definition demo_sent :: built_message where
  "demo_sent = \<lparr>message_id = lit ''<1@relay>'', envelope = [lit ''a@b.c''], formatted = [72]\<rparr>"

lemma demo_process:
  "case process ascii_crates demo_relay demo_build (\<lambda>_. Ok []) (lit ''r1'') demo_request of
     (resp, acts) \<Rightarrow> resp = queued (lit ''<1@relay>'') \<and> submitted acts = [demo_sent] \<and> length acts = 3"
  by code_simp

lemma demo_process_submitted:
  obtains resp acts where
    "process ascii_crates demo_relay demo_build (\<lambda>_. Ok []) (lit ''r1'') demo_request = (resp, acts)"
    "resp = queued (lit ''<1@relay>'')" "submitted acts = [demo_sent]"
  using demo_process by (auto split: prod.splits)

lemma submitted_logged:
  "(refused = [] \<and> logged = []) \<or> (refused \<noteq> [] \<and> (\<exists>p. logged = [LogRefused p])) \<Longrightarrow> submitted logged = []"
  by auto

text \<open>C1: a request submits at most one message, and only one that passed every check: the token is
  valid, its policy permits the path domain and the \<open>from\<close> address that the message is built
  with, the subject and the custom headers hold no control characters, and there are recipients,
  within \<open>max_recipients\<close>.\<close>

theorem submission_authorised:
  assumes "process X R build submit rid rq = (resp, acts)" "m \<in> set (submitted acts)"
  shows "submitted acts = [m] \<and> (\<exists>policy parsed input path.
     accepted_request X R build rq policy parsed input m
     \<and> normalize_domain X (rq_domain rq) = Ok path
     \<and> parse_mailbox X (form_from parsed) = Ok (in_from input)
     \<and> permits policy path (in_from input)
     \<and> \<not> contains_forbidden_control_chars (in_subject input)
     \<and> validate_custom_headers X (in_headers input) (max_header_value_length (r_settings R)) = Ok ()
     \<and> 0 < length (in_to input @ in_cc input @ in_bcc input)
     \<and> int (length (in_to input @ in_cc input @ in_bcc input)) \<le> max_recipients (r_settings R))"
proof -
  have "\<exists>policy parsed input. accepted_request X R build rq policy parsed input m \<and> submitted acts = [m]"
    using assms(1)
  proof (cases rule: process_cases)
    case (failed policy parsed input m' e reads rec)
    then show ?thesis using assms(2) by (auto simp: submitted_reads)
  next
    case (sent policy parsed input m' refused reads rec logged)
    then show ?thesis using assms(2) submitted_logged [OF sent(7)] by (auto simp: submitted_reads)
  qed (use assms(2) in \<open>auto simp: submitted_reads\<close>)
  then obtain policy parsed input where ok: "accepted_request X R build rq policy parsed input m"
    "submitted acts = [m]" by blast
  from ok(1) obtain path where
    "normalize_domain X (rq_domain rq) = Ok path" "parse_mailbox X (form_from parsed) = Ok (in_from input)"
    "permits policy path (in_from input)" "\<not> contains_forbidden_control_chars (in_subject input)"
    "validate_custom_headers X (in_headers input) (max_header_value_length (r_settings R)) = Ok ()"
    "0 < length (in_to input @ in_cc input @ in_bcc input)"
    "int (length (in_to input @ in_cc input @ in_bcc input)) \<le> max_recipients (r_settings R)"
    by (auto simp: accepted_request_def message_of_def and_then_Inr_iff map_err_Inr_iff Let_def
        enforce_policy_Ok_iff exceeds_False validate_subject_def split: if_split_asm)
  with ok show ?thesis by blast
qed

theorem submission_authorised_witness:
  "\<exists>policy parsed input path. accepted_request ascii_crates demo_relay demo_build demo_request policy parsed input demo_sent
     \<and> permits policy path (in_from input)"
proof -
  obtain resp acts where p: "process ascii_crates demo_relay demo_build (\<lambda>_. Ok []) (lit ''r1'') demo_request = (resp, acts)"
    "submitted acts = [demo_sent]" by (rule demo_process_submitted)
  from submission_authorised [OF p(1), of demo_sent] p(2) show ?thesis by auto
qed

text \<open>C12: the status tells what happened: a message that was never handed over is answered with a
  400, 401, 403, 413 or 500; 503 and 502 report the class of the failed submission; 200 is
  answered, with the message id, exactly when the server accepted the message, unless some
  recipients were refused and \<open>fail_on_partial_refusal\<close> asks for the 502.\<close>

theorem status_reports_submission:
  assumes "process X R build submit rid rq = (resp, acts)"
  shows "(submitted acts = [] \<and> rs_status resp \<in> {400, 401, 403, 413, 500})
     \<or> (\<exists>m. submitted acts = [m] \<and> (case submit m of
          Inl Temporary \<Rightarrow> rs_status resp = 503
        | Inl Permanent \<Rightarrow> rs_status resp = 502
        | Inr refused \<Rightarrow>
            if refused \<noteq> [] \<and> fail_on_partial_refusal (r_settings R) then rs_status resp = 502
            else resp = queued (message_id m)))"
  using assms
proof (cases rule: process_cases)
  case (rejected f reads rec)
  then show ?thesis by (auto simp: submitted_reads rejection_def)
next
  case (failed policy parsed input m e reads rec)
  then show ?thesis
    by (auto simp: submitted_reads submit_failure_def split: submit_error.splits)
next
  case (sent policy parsed input m refused reads rec logged)
  then show ?thesis using submitted_logged [OF sent(7)]
    by (auto simp: submitted_reads split: if_splits)
qed auto

theorem status_reports_submission_witness:
  "fst (process ascii_crates demo_relay demo_build (\<lambda>_. Err Temporary) (lit ''r1'') demo_request)
     = error_response 503 (lit ''Upstream SMTP temporarily unavailable'')
   \<and> (\<exists>resp acts. process ascii_crates demo_relay demo_build (\<lambda>_. Ok []) (lit ''r1'') demo_request = (resp, acts)
        \<and> submitted acts = [demo_sent] \<and> resp = queued (message_id demo_sent))"
proof
  show "fst (process ascii_crates demo_relay demo_build (\<lambda>_. Err Temporary) (lit ''r1'') demo_request)
     = error_response 503 (lit ''Upstream SMTP temporarily unavailable'')" by code_simp
  obtain resp acts where p: "process ascii_crates demo_relay demo_build (\<lambda>_. Ok []) (lit ''r1'') demo_request = (resp, acts)"
    "submitted acts = [demo_sent]" by (rule demo_process_submitted)
  from status_reports_submission [OF p(1)] p show "\<exists>resp acts. process ascii_crates demo_relay demo_build (\<lambda>_. Ok []) (lit ''r1'') demo_request = (resp, acts)
        \<and> submitted acts = [demo_sent] \<and> resp = queued (message_id demo_sent)" by auto
qed

text \<open>C13: every request is logged exactly once, last, with the status of the response; the line names
  an error class exactly when no server accepted the message; and a request with a refused
  recipient, and only that, logs the refusals first.\<close>

theorem one_request_line:
  assumes "process X R build submit rid rq = (resp, acts)"
  shows "\<exists>rec before. acts = before @ [LogRequest rec] \<and> \<not> list_ex is_request_line before
     \<and> status_code rec = rs_status resp
     \<and> (error_class rec = None \<longleftrightarrow> (\<exists>m refused. submitted acts = [m] \<and> submit m = Ok refused))
     \<and> ((\<exists>p. LogRefused p \<in> set before) \<longleftrightarrow>
          (\<exists>m refused. submitted acts = [m] \<and> submit m = Ok refused \<and> refused \<noteq> []))"
  using assms
proof (cases rule: process_cases)
  case (rejected f reads rec)
  then show ?thesis
    by (intro exI [of _ rec] exI [of _ reads]) (fastforce simp: submitted_reads not_request_line)
next
  case (failed policy parsed input m e reads rec)
  then show ?thesis
    by (intro exI [of _ rec] exI [of _ "reads @ [Submit m]"]) (fastforce simp: submitted_reads not_request_line)
next
  case (sent policy parsed input m refused reads rec logged)
  then show ?thesis using submitted_logged [OF sent(7)]
    by (intro exI [of _ rec] exI [of _ "reads @ Submit m # logged"])
      (fastforce simp: submitted_reads not_request_line)
qed auto

theorem one_request_line_witness:
  "\<exists>rec before. snd (process ascii_crates demo_relay demo_build (\<lambda>_. Ok []) (lit ''r1'') demo_request) = before @ [LogRequest rec]
     \<and> error_class rec = None"
proof -
  obtain resp acts where p: "process ascii_crates demo_relay demo_build (\<lambda>_. Ok []) (lit ''r1'') demo_request = (resp, acts)"
    "submitted acts = [demo_sent]" by (rule demo_process_submitted)
  from one_request_line [OF p(1)] p show ?thesis by auto
qed

text \<open>C15: 401 is answered exactly when the credentials do not authenticate; then the body is not read,
  nothing is sent, and the response carries the \<open>WWW-Authenticate\<close> challenge.\<close>

theorem unauthorized_reads_nothing:
  assumes "process X R build submit rid rq = (resp, acts)"
  shows "(rs_status resp = 401 \<longleftrightarrow> (\<exists>e. authenticate X (rq_authorization rq) (r_tokens R) = Err e))
     \<and> (rs_status resp = 401 \<longrightarrow> (\<exists>rec. acts = [LogRequest rec])
          \<and> (lit ''www-authenticate'', lit ''Basic realm='' @ [34] @ lit ''MG API'' @ [34]) \<in> set (rs_headers resp))"
  using assms
proof (cases rule: process_cases)
  case (rejected f reads rec)
  then show ?thesis by (auto simp: rejection_def)
next
  case (failed policy parsed input m e reads rec)
  then show ?thesis by (auto simp: accepted_request_def submit_failure_def split: submit_error.splits)
next
  case (sent policy parsed input m refused reads rec logged)
  then show ?thesis by (auto simp: accepted_request_def)
qed auto

theorem unauthorized_reads_nothing_witness:
  "\<exists>rec. snd (process ascii_crates demo_relay demo_build (\<lambda>_. Ok []) (lit ''r1'')
     (demo_request\<lparr>rq_authorization := None\<rparr>)) = [LogRequest rec]"
proof -
  let ?p = "process ascii_crates demo_relay demo_build (\<lambda>_. Ok []) (lit ''r1'') (demo_request\<lparr>rq_authorization := None\<rparr>)"
  have "authenticate ascii_crates (rq_authorization (demo_request\<lparr>rq_authorization := None\<rparr>)) (r_tokens demo_relay) = Err AuthError"
    by (simp add: authenticate_def)
  moreover obtain resp acts where p: "?p = (resp, acts)" by (cases ?p)
  ultimately show ?thesis using unauthorized_reads_nothing [OF p] by auto
qed

end
