(* ===== verification/Http.thy ===== *)
theory Http
  imports Pipeline
begin

text \<open>
  \<open>rust/src/http.rs\<close>: the layer that refuses a declared length over the limit, routing on the
  percent-decoded path, the fallbacks 405, 404 and 307, and the redirect to the path without its
  trailing slashes.  A request is its method, raw path, query, headers (names in lower case, in order,
  as the \<open>http\<close> crate keeps them), body frames and, when known, the two ends of its connection.
\<close>

subsection \<open>Addresses\<close>

datatype ip_addr = V4 u8 u8 u8 u8 | V6 "16 word list"

definition LOCALHOST :: ip_addr where "LOCALHOST = V4 127 0 0 1"

definition show_v4 :: "u8 \<Rightarrow> u8 \<Rightarrow> u8 \<Rightarrow> u8 \<Rightarrow> rstr" where
  "show_v4 a b c d = join [46] (map (show_nat \<circ> unat) [a, b, c, d])"

fun show_hex :: "nat \<Rightarrow> rstr" where
  "show_hex n = (if n < 16 then [hex_char n] else show_hex (n div 16) @ [hex_char (n mod 16)])"

declare show_hex.simps [simp del]

definition show_segments :: "16 word list \<Rightarrow> rstr" where
  "show_segments ws = join [58] (map (show_hex \<circ> unat) ws)"

text \<open>The longest run of zeros, the first of several: its start and length.\<close>

fun zero_runs :: "nat \<Rightarrow> 16 word list \<Rightarrow> nat \<Rightarrow> (nat \<times> nat) \<Rightarrow> nat \<times> nat" where
  "zero_runs i [] run best = best"
| "zero_runs i (w # ws) run best =
     (let run' = (if w = 0 then run + 1 else 0)
      in zero_runs (i + 1) ws run' (if snd best < run' then (i + 1 - run', run') else best))"

text \<open>\<open>Ipv6Addr\<close>'s \<open>Display\<close>.\<close>

definition show_v6 :: "16 word list \<Rightarrow> rstr" where
  "show_v6 ws =
     (if take 6 ws = [0, 0, 0, 0, 0, 0xFFFF]
      then lit ''::ffff:'' @ join [46] (map show_nat (concat (map (\<lambda>w. [unat w div 256, unat w mod 256]) (drop 6 ws))))
      else (case zero_runs 0 ws 0 (0, 0) of (start, len) \<Rightarrow>
        if len > 1 then show_segments (take start ws) @ lit ''::'' @ show_segments (drop (start + len) ws)
        else show_segments ws))"

fun show_ip :: "ip_addr \<Rightarrow> rstr" where
  "show_ip (V4 a b c d) = show_v4 a b c d"
| "show_ip (V6 ws) = show_v6 ws"

record connection =
  remote :: "ip_addr \<times> 16 word"
  local_addr :: "(ip_addr \<times> 16 word) option"

record http_request =
  hr_method :: rstr
  hr_path :: rstr
  hr_query :: "rstr option"
  hr_headers :: "(rstr \<times> u8 list) list"
  hr_connection :: "connection option"
  hr_body :: "body_frame list"

definition header :: "http_request \<Rightarrow> string \<Rightarrow> u8 list option" where
  "header rq name = map_of (hr_headers rq) (lit name)"

definition all_headers :: "http_request \<Rightarrow> string \<Rightarrow> u8 list list" where
  "all_headers rq name = map snd (filter (\<lambda>(n, _). n = lit name) (hr_headers rq))"

text \<open>\<open>HeaderValue::to_str\<close>: only visible ASCII, space and tab; and \<open>HeaderValue::from_str\<close>.\<close>

definition to_str :: "u8 list \<Rightarrow> rstr option" where
  "to_str v = (if list_all (\<lambda>b. 32 \<le> unat b \<and> unat b < 127 \<or> b = 9) v then Some (latin1_chars v) else None)"

definition header_value :: "rstr \<Rightarrow> rstr option" where
  "header_value s = (if list_all (\<lambda>b. 32 \<le> unat b \<and> b \<noteq> 127 \<or> b = 9) (utf8_encode s) then Some s else None)"

subsection \<open>The declared length\<close>

text \<open>\<open>str::parse::<u64>\<close>: an optional plus sign, then digits.\<close>

definition parse_u64 :: "rstr \<Rightarrow> nat option" where
  "parse_u64 s =
     (let digits = (case s of c # r \<Rightarrow> if c = 43 then r else s | [] \<Rightarrow> s)
      in if digits \<noteq> [] \<and> list_all is_ascii_digit digits \<and> digits_value digits < 2 ^ 64
         then Some (digits_value digits) else None)"

definition declared_too_large :: "settings \<Rightarrow> http_request \<Rightarrow> bool" where
  "declared_too_large s rq =
     (case header rq ''content-length'' of
        None \<Rightarrow> False
      | Some v \<Rightarrow>
          (case (case to_str v of None \<Rightarrow> None | Some t \<Rightarrow> parse_u64 (trim t)) of
             None \<Rightarrow> True
           | Some n \<Rightarrow> int n > max_body_bytes s))"

subsection \<open>Routing\<close>

datatype route = Health | Messages rstr

fun allowed :: "route \<Rightarrow> rstr list" where
  "allowed Health = [lit ''GET'']"
| "allowed (Messages _) = [lit ''POST'']"

definition match_route :: "rstr \<Rightarrow> route option" where
  "match_route path =
     (let p = (case strip_suffix [LF] path of Some q \<Rightarrow> q | None \<Rightarrow> path)
      in if p = lit ''/health'' then Some Health
         else (case strip_prefix (lit ''/v3/'') p of
           None \<Rightarrow> None
         | Some rest \<Rightarrow>
             (case strip_suffix (lit ''/messages'') rest of
                None \<Rightarrow> None
              | Some domain \<Rightarrow>
                  if domain \<noteq> [] \<and> 47 \<notin> set domain then Some (Messages domain) else None)))"

text \<open>\<open>percent_decode\<close> on the bytes.\<close>

fun percent_bytes :: "u8 list \<Rightarrow> u8 list" where
  "percent_bytes (b # h # l # bs) =
     (case (hex_digit (unat h), hex_digit (unat l)) of
        (Some high, Some low) \<Rightarrow>
          if b = 37 then of_nat (high * 16 + low) # percent_bytes bs else b # percent_bytes (h # l # bs)
      | _ \<Rightarrow> b # percent_bytes (h # l # bs))"
| "percent_bytes bs = bs"

definition percent_decode :: "rstr \<Rightarrow> rstr" where
  "percent_decode path = from_utf8_lossy (percent_bytes (utf8_encode path))"

definition SAFE :: "u8 list" where
  "SAFE = blit '':/%#?=@[]!$&'' @ [39] @ blit ''()*+,;_.-~''"

definition hex_upper :: "nat \<Rightarrow> rchar" where
  "hex_upper n = (if n < 10 then 48 + n else 55 + n)"

definition quote_char :: "u8 \<Rightarrow> rstr" where
  "quote_char b =
     (if byte_is_ascii_alphanumeric b \<or> b \<in> set SAFE then [unat b]
      else [37, hex_upper (unat b div 16), hex_upper (unat b mod 16)])"

definition quote :: "rstr \<Rightarrow> rstr" where
  "quote url = concat (map quote_char (utf8_encode url))"

definition hex_class :: "(rchar \<times> rchar) list" where
  "hex_class = [(97, 102), (65, 70), (48, 57)]"

definition HOST_RE :: rexp where
  "HOST_RE = cats
     [Alt (plus1 (Class [(97, 122), (65, 90), (48, 57), (46, 46), (45, 45)]))
        (cats [chr 91, Star (Class hex_class), chr 58, plus1 (Class (hex_class @ [(46, 46), (58, 58)])), chr 93]),
      opt (cats [chr 58, plus1 (Class [(48, 57)])])]"

definition redirect_scheme :: "http_request \<Rightarrow> rstr" where
  "redirect_scheme rq =
     (case (hr_connection rq, all_headers rq ''x-forwarded-proto'') of
        (Some c, [v]) \<Rightarrow>
          if fst (remote c) = LOCALHOST
             \<and> py_strip (latin1_chars v) \<in> set (map lit [''http'', ''https'', ''ws'', ''wss''])
          then py_strip (latin1_chars v) else lit ''http''
      | _ \<Rightarrow> lit ''http'')"

definition usable_host :: "http_request \<Rightarrow> rstr option" where
  "usable_host rq =
     (case header rq ''host'' of
        None \<Rightarrow> None
      | Some h \<Rightarrow>
          (case to_str h of
             None \<Rightarrow> None
           | Some t \<Rightarrow> if full_match HOST_RE t then Some t else None))"

definition netloc :: "http_request \<Rightarrow> rstr \<Rightarrow> rstr option" where
  "netloc rq scheme =
     (case (usable_host rq, case hr_connection rq of None \<Rightarrow> None | Some c \<Rightarrow> local_addr c) of
        (Some host, _) \<Rightarrow> Some host
      | (None, Some (ip, port)) \<Rightarrow>
          (let default_port = (if scheme = lit ''https'' \<or> scheme = lit ''wss'' then 443 else 80)
           in Some (if port = default_port then show_ip ip
                    else show_ip ip @ [58] @ show_nat (unat port)))
      | (None, None) \<Rightarrow> None)"

definition redirect_url :: "http_request \<Rightarrow> rstr \<Rightarrow> rstr" where
  "redirect_url rq path =
     (let scheme = redirect_scheme rq;
          url = (case netloc rq scheme of
                   Some n \<Rightarrow> scheme @ lit ''://'' @ n @ path
                 | None \<Rightarrow> path)
      in case hr_query rq of
           Some q \<Rightarrow> if q \<noteq> [] then url @ [63] @ q else url
         | None \<Rightarrow> url)"

definition redirect :: "http_request \<Rightarrow> rstr \<Rightarrow> response" where
  "redirect rq path =
     \<lparr>rs_status = 307,
      rs_headers = (case header_value (quote (redirect_url rq path)) of
          Some v \<Rightarrow> [(lit ''location'', v)] | None \<Rightarrow> []),
      rs_json = []\<rparr>"

definition method_not_allowed :: "route \<Rightarrow> response" where
  "method_not_allowed r =
     (let resp = json_response 405 [(lit ''detail'', lit ''Method Not Allowed'')]
      in case header_value (join (lit '', '') (allowed r)) of
           Some v \<Rightarrow> resp\<lparr>rs_headers := rs_headers resp @ [(lit ''allow'', v)]\<rparr>
         | None \<Rightarrow> resp)"

definition pipeline_request :: "http_request \<Rightarrow> rstr \<Rightarrow> request" where
  "pipeline_request rq domain =
     \<lparr>rq_domain = domain, rq_authorization = header rq ''authorization'',
      rq_content_type = header rq ''content-type'', rq_body = hr_body rq\<rparr>"

definition dispatch ::
  "crates \<Rightarrow> relay \<Rightarrow> build_fun \<Rightarrow> submit_fun \<Rightarrow> rstr \<Rightarrow> http_request \<Rightarrow> response \<times> action list" where
  "dispatch X R build submit rid rq =
     (let path = percent_decode (hr_path rq)
      in case match_route path of
           Some r \<Rightarrow>
             if hr_method rq \<in> set (allowed r) then
               (case r of
                  Health \<Rightarrow> (json_response 200 [(lit ''status'', lit ''ok'')], [])
                | Messages domain \<Rightarrow> process X R build submit rid (pipeline_request rq domain))
             else (method_not_allowed r, [])
         | None \<Rightarrow>
             (let stripped = trim_end_matches (\<lambda>c. c = 47) path
              in if path \<noteq> [47] \<and> length path \<noteq> length stripped \<and> match_route stripped \<noteq> None
                 then (redirect rq stripped, [])
                 else (json_response 404 [(lit ''detail'', lit ''Not Found'')], [])))"

text \<open>\<open>body_limit\<close> around the dispatcher.\<close>

definition serve_request ::
  "crates \<Rightarrow> relay \<Rightarrow> build_fun \<Rightarrow> submit_fun \<Rightarrow> rstr \<Rightarrow> http_request \<Rightarrow> response \<times> action list" where
  "serve_request X R build submit rid rq =
     (if declared_too_large (r_settings R) rq
      then (json_response 413 [(lit ''message'', lit ''Payload Too Large'')], [])
      else dispatch X R build submit rid rq)"

subsection \<open>Which requests reach the pipeline\<close>

lemma strip_prefix_None_iff: "strip_prefix p s = None \<longleftrightarrow> (\<nexists>r. s = p @ r)"
  using strip_prefix_Some_iff [of p s] by (cases "strip_prefix p s") auto

lemma strip_suffix_None_iff: "strip_suffix p s = None \<longleftrightarrow> (\<nexists>r. s = r @ p)"
  using strip_suffix_Some_iff [of p s] by (cases "strip_suffix p s") auto

lemma strip_newline: "(case strip_suffix [LF] path of Some q \<Rightarrow> q | None \<Rightarrow> path) = p \<longleftrightarrow>
    path = p @ [LF] \<or> path = p \<and> (p = [] \<or> last p \<noteq> LF)"
proof (cases "strip_suffix [LF] path")
  case None
  then have "\<nexists>q. path = q @ [LF]" by (auto simp: strip_suffix_None_iff)
  with None show ?thesis by (cases path rule: rev_cases) auto
next
  case (Some q)
  then have "path = q @ [LF]" by (simp add: strip_suffix_Some_iff)
  with Some show ?thesis by auto
qed

lemma match_route_Messages_iff:
  "match_route path = Some (Messages d) \<longleftrightarrow> d \<noteq> [] \<and> 47 \<notin> set d
     \<and> (path = lit ''/v3/'' @ d @ lit ''/messages'' \<or> path = lit ''/v3/'' @ d @ lit ''/messages'' @ [LF])"
proof -
  let ?p = "case strip_suffix [LF] path of Some q \<Rightarrow> q | None \<Rightarrow> path"
  have h: "lit ''/v3/'' @ d @ lit ''/messages'' \<noteq> lit ''/health''" by (simp add: lit_def)
  have "match_route path = Some (Messages d) \<longleftrightarrow> d \<noteq> [] \<and> 47 \<notin> set d \<and> ?p = lit ''/v3/'' @ d @ lit ''/messages''"
    unfolding match_route_def Let_def
    using h by (auto simp: strip_prefix_Some_iff strip_suffix_Some_iff strip_prefix_None_iff strip_suffix_None_iff
        split: option.splits if_splits)
  then show ?thesis unfolding strip_newline by (auto simp: lit_def)
qed

lemma process_logs_something: "snd (process X R build submit rid rq) \<noteq> []"
  by (simp add: process_def Let_def split: prod.splits)

lemma redirect_status: "rs_status (redirect rq path) = 307"
  by (simp add: redirect_def)

text \<open>C34: a request gets beyond the routing, and so reads a body, logs or sends anything, exactly when
  its declared length is within \<open>max_body_bytes\<close>, its method is POST and its decoded path is
  \<open>/v3/<domain>/messages\<close> for a non-empty domain without a slash (a final newline aside).\<close>

theorem pipeline_reached_iff:
  "snd (serve_request X R build submit rid rq) \<noteq> [] \<longleftrightarrow>
     \<not> declared_too_large (r_settings R) rq \<and> hr_method rq = lit ''POST''
     \<and> (\<exists>d. d \<noteq> [] \<and> 47 \<notin> set d \<and> (percent_decode (hr_path rq) = lit ''/v3/'' @ d @ lit ''/messages''
          \<or> percent_decode (hr_path rq) = lit ''/v3/'' @ d @ lit ''/messages'' @ [LF]))"
proof -
  have "snd (serve_request X R build submit rid rq) \<noteq> [] \<longleftrightarrow>
     \<not> declared_too_large (r_settings R) rq \<and> hr_method rq = lit ''POST''
     \<and> (\<exists>d. match_route (percent_decode (hr_path rq)) = Some (Messages d))"
    using process_logs_something
    by (auto simp: serve_request_def dispatch_def Let_def split: option.splits route.splits if_split_asm)
  then show ?thesis by (simp add: match_route_Messages_iff)
qed

subsection \<open>Redirects\<close>

lemma hex_upper_range: "n < 16 \<Longrightarrow> 48 \<le> hex_upper n \<and> hex_upper n < 71 \<and> hex_digit (hex_upper n) = Some n"
  by (auto simp: hex_upper_def hex_digit_def is_ascii_digit_def)

lemma SAFE_range: "b \<in> set SAFE \<Longrightarrow> 33 \<le> unat b \<and> unat b < 127"
  by (auto simp: SAFE_def blit_def)

lemma quote_char_range: "c \<in> set (quote_char b) \<Longrightarrow> 33 \<le> c \<and> c < 127"
  using SAFE_range [of b] hex_upper_range [OF div16, of b] hex_upper_range [of "unat b mod 16"]
  by (auto simp: quote_char_def byte_is_ascii_alphanumeric_def ascii_defs split: if_splits)

lemma quote_range: "c \<in> set (quote url) \<Longrightarrow> 33 \<le> c \<and> c < 127"
  by (auto simp: quote_def dest: quote_char_range)

lemma quote_ascii: "is_ascii (quote url)"
  using quote_range [of _ url] by (force simp: is_ascii_def list_all_iff is_ascii_char_def)

lemma header_value_quote: "header_value (quote url) = Some (quote url)"
proof -
  have "32 \<le> unat b \<and> b \<noteq> 127" if "b \<in> set (utf8_encode (quote url))" for b
  proof -
    from that obtain c where c: "c \<in> set (quote url)" "b = of_nat c"
      by (auto simp: utf8_encode_ascii [OF quote_ascii])
    with quote_range [OF c(1)] have "unat b = c" by (simp add: unat_byte)
    with quote_range [OF c(1)] show ?thesis by auto
  qed
  then show ?thesis by (auto simp: header_value_def list_all_iff)
qed

text \<open>Decoding what \<open>quote\<close> wrote, for a text without a percent sign.\<close>

lemma percent_bytes_plain: "b \<noteq> 37 \<Longrightarrow> percent_bytes (b # bs) = b # percent_bytes bs"
  by (cases bs; cases "tl bs") (auto split: option.splits)

lemma percent_bytes_hex:
  "hex_digit (unat h) = Some a \<Longrightarrow> hex_digit (unat l) = Some b \<Longrightarrow>
   percent_bytes (37 # h # l # bs) = of_nat (a * 16 + b) # percent_bytes bs"
  by simp

lemma percent_bytes_quote_char:
  assumes "b \<noteq> 37"
  shows "percent_bytes (map of_nat (quote_char b) @ bs) = b # percent_bytes bs"
proof (cases "byte_is_ascii_alphanumeric b \<or> b \<in> set SAFE")
  case True
  then show ?thesis using assms by (auto simp: quote_char_def percent_bytes_plain simp del: percent_bytes.simps)
next
  case False
  let ?h = "hex_upper (unat b div 16)" and ?l = "hex_upper (unat b mod 16)"
  have r: "hex_digit ?h = Some (unat b div 16)" "hex_digit ?l = Some (unat b mod 16)" "?h < 256" "?l < 256"
    using hex_upper_range [OF div16, of b] hex_upper_range [of "unat b mod 16"] by auto
  have "(of_nat (unat b div 16 * 16 + unat b mod 16) :: u8) = b"
    by (simp only: div_mult_mod_eq of_nat_unat ucast_id)
  moreover have "percent_bytes (37 # of_nat ?h # of_nat ?l # bs)
      = of_nat (unat b div 16 * 16 + unat b mod 16) # percent_bytes bs"
    by (rule percent_bytes_hex) (simp_all only: unat_byte [OF r(3)] unat_byte [OF r(4)] r)
  ultimately show ?thesis using False by (simp add: quote_char_def del: percent_bytes.simps)
qed

text \<open>A byte below 128 is an ASCII character of its own.\<close>

lemma utf8_char_ascii_byte:
  assumes "b \<in> set (utf8_char c)" "unat b < 128" "is_scalar c"
  shows "c = unat b"
proof (cases "c < 128")
  case True
  with assms(1) show ?thesis by (simp add: utf8_char_def unat_byte)
next
  case False
  have c: "c < 0x110000" using assms(3) by (auto simp: is_scalar_def)
  have big: "128 \<le> unat (of_nat (n + k) :: u8)" if "128 \<le> n" "n + k < 256" for n k
    using that unat_byte [of "n + k"] by simp
  have "c div 64 < 32" if "c < 0x800" using that by (simp add: less_mult_imp_div_less)
  moreover have "c div 4096 < 16" if "c < 0x10000" using that by (simp add: less_mult_imp_div_less)
  moreover have "c div 262144 < 5" using c by (simp add: less_mult_imp_div_less)
  moreover have "x mod 64 < 64" for x :: nat by simp
  ultimately have "128 \<le> unat b"
    using False assms(1) big by (fastforce simp: utf8_char_def simp del: of_nat_add split: if_splits)
  with assms(2) show ?thesis by simp
qed

lemma utf8_char_percent:
  assumes "37 \<in> set (utf8_char c)" "is_scalar c"
  shows "c = 37"
  using utf8_char_ascii_byte [OF assms(1) _ assms(2)] by simp

lemma percent_bytes_quoted:
  "37 \<notin> set bs \<Longrightarrow> percent_bytes (map of_nat (concat (map quote_char bs))) = bs"
  by (induction bs) (auto simp: percent_bytes_quote_char simp del: percent_bytes.simps(1))

text \<open>Decoding a quoted path gives the path back, so a redirect leads to the resource the request
  named, for every path without a literal percent sign.\<close>

lemma percent_decode_quote:
  assumes "valid_str s" "37 \<notin> set s"
  shows "percent_decode (quote s) = s"
proof -
  have "37 \<notin> set (utf8_encode s)"
    using assms utf8_char_percent by (fastforce simp: utf8_encode_def valid_str_def list_all_iff)
  then have "percent_bytes (utf8_encode (quote s)) = utf8_encode s"
    unfolding utf8_encode_ascii [OF quote_ascii] by (simp add: quote_def percent_bytes_quoted)
  with assms(1) show ?thesis by (simp add: percent_decode_def from_utf8_lossy_encode)
qed

lemma process_not_redirect:
  assumes "process X R build submit rid rq = (resp, acts)"
  shows "rs_status resp \<noteq> 307"
  using assms
  by (cases rule: process_cases)
    (auto simp: rejection_def submit_failure_def split: submit_error.splits if_splits)

lemma trim_end_split: "\<exists>t. s = trim_end_matches p s @ t \<and> list_all p t"
proof (intro exI conjI)
  show "s = trim_end_matches p s @ rev (takeWhile p (rev s))"
    unfolding trim_end_matches_def by (metis rev_append rev_rev_ident takeWhile_dropWhile_id)
  show "list_all p (rev (takeWhile p (rev s)))"
    by (auto simp: list_all_iff dest: set_takeWhileD)
qed

text \<open>How a client takes a \<open>Location\<close> apart (RFC 3986): after the scheme and the authority, if there are
  any, the path ends at the first question mark or number sign; the query follows the former.\<close>

definition after_authority :: "rstr \<Rightarrow> rstr" where
  "after_authority url =
     (if starts_with [47] url then url
      else dropWhile (\<lambda>c. c \<noteq> 47) (drop 2 (dropWhile (\<lambda>c. c \<noteq> 47) url)))"

definition url_path :: "rstr \<Rightarrow> rstr" where
  "url_path url = takeWhile (\<lambda>c. c \<noteq> 63 \<and> c \<noteq> 35) (after_authority url)"

definition url_query :: "rstr \<Rightarrow> rstr option" where
  "url_query url = map_option snd (split_once 63 (after_authority url))"

lemma quote_append [simp]: "quote (a @ b) = quote a @ quote b"
  by (simp add: quote_def)

text \<open>A delimiter of a URL is in the quoted text only where it is in the text.\<close>

lemma quote_char_no_delimiter:
  assumes "d \<in> {35, 47, 63}" "d \<in> set (quote_char b)"
  shows "unat b = d"
  using assms hex_upper_range [OF div16, of b] hex_upper_range [of "unat b mod 16"]
  by (auto simp: quote_char_def hex_upper_def split: if_splits)

lemma quote_no_delimiter:
  assumes "d \<in> {35, 47, 63}" "valid_str s" "d \<notin> set s"
  shows "d \<notin> set (quote s)"
proof
  assume "d \<in> set (quote s)"
  then obtain c b where b: "c \<in> set s" "b \<in> set (utf8_char c)" "d \<in> set (quote_char b)"
    by (auto simp: quote_def utf8_encode_def)
  from quote_char_no_delimiter [OF assms(1) b(3)] assms(1) have "unat b = d" "unat b < 128" by auto
  moreover have "is_scalar c" using assms(2) b(1) by (auto simp: valid_str_def list_all_iff)
  ultimately have "c = d" using utf8_char_ascii_byte [OF b(2)] by simp
  with b(1) assms(3) show False by simp
qed

lemma quote_delimiter: "quote (47 # s) = 47 # quote s" "quote (63 # s) = 63 # quote s" "quote (58 # s) = 58 # quote s"
proof -
  have "quote_char 47 = [47]" "quote_char 63 = [63]" "quote_char 58 = [58]"
    by (simp_all add: quote_char_def SAFE_def blit_def)
  then show "quote (47 # s) = 47 # quote s" "quote (63 # s) = 63 # quote s" "quote (58 # s) = 58 # quote s"
    by (simp_all add: quote_def utf8_char_def)
qed

subsection \<open>The authority of a redirect\<close>

fun classes :: "rexp \<Rightarrow> (rchar \<times> rchar) list list" where
  "classes (Class ranges) = [ranges]"
| "classes (Alt a b) = classes a @ classes b"
| "classes (Cat a b) = classes a @ classes b"
| "classes (Star a) = classes a"
| "classes _ = []"

lemma lang_chars:
  "s \<in> lang r \<Longrightarrow> \<forall>ranges \<in> set (classes r). \<forall>c. in_class ranges c \<longrightarrow> P c \<Longrightarrow> \<forall>c \<in> set s. P c"
proof (induction r arbitrary: s)
  case (Star r)
  from Star.prems(1) have "s \<in> star_lang (lang r)" by simp
  then show ?case
  proof (induction rule: star_lang.induct)
    case (star_step u v)
    then show ?case using Star.IH [of u] Star.prems(2) by auto
  qed simp
next
  case (Cat a b)
  then obtain u v where "s = u @ v" "u \<in> lang a" "v \<in> lang b" by auto
  with Cat.IH(1) [of u] Cat.IH(2) [of v] Cat.prems(2) show ?case by auto
next
  case (Alt a b)
  with Alt.IH [of s] show ?case by auto
qed auto

definition netloc_char :: "rchar \<Rightarrow> bool" where
  "netloc_char c \<longleftrightarrow> c < 128 \<and> c \<noteq> 47"

lemma host_chars: "full_match HOST_RE t \<Longrightarrow> list_all netloc_char t"
proof -
  assume "full_match HOST_RE t"
  moreover have "\<forall>ranges \<in> set (classes HOST_RE). \<forall>c. in_class ranges c \<longrightarrow> netloc_char c"
    by (auto simp: HOST_RE_def hex_class_def plus1_def opt_def chr_def in_class_def netloc_char_def)
  ultimately show ?thesis
    using lang_chars [of t HOST_RE netloc_char] by (simp add: full_match_lang list_all_iff)
qed

lemma join_chars: "list_all P sep \<Longrightarrow> list_all (list_all P) xs \<Longrightarrow> list_all P (join sep xs)"
  by (induction sep xs rule: join.induct) auto

lemma show_nat_chars: "list_all netloc_char (show_nat n)"
  using show_nat_digits [of n] by (auto simp: list_all_iff is_ascii_digit_def netloc_char_def)

lemma hex_char_chars: "n < 16 \<Longrightarrow> netloc_char (hex_char n)"
  by (auto simp: hex_char_def netloc_char_def)

lemma show_hex_chars: "list_all netloc_char (show_hex n)"
proof (induction n rule: show_hex.induct)
  case (1 n)
  then show ?case by (subst show_hex.simps) (simp add: hex_char_chars)
qed

lemma netloc_char_separators: "netloc_char 46" "netloc_char 58" "list_all netloc_char (lit ''::'')"
  "list_all netloc_char (lit ''::ffff:'')"
  by (simp_all add: netloc_char_def lit_def)

lemma show_ip_chars: "list_all netloc_char (show_ip ip)"
proof (cases ip)
  case (V4 a b c d)
  then show ?thesis
    by (auto simp: show_v4_def netloc_char_separators show_nat_chars intro!: join_chars)
next
  case (V6 ws)
  have "list_all netloc_char (show_segments ws)" for ws
    unfolding show_segments_def
    by (rule join_chars) (simp_all add: netloc_char_separators list.pred_map comp_def show_hex_chars list.pred_True)
  moreover have "list_all netloc_char (join [46] (map show_nat ns))" for ns
    by (rule join_chars) (simp_all add: netloc_char_separators list.pred_map comp_def show_nat_chars list.pred_True)
  ultimately show ?thesis
    by (auto simp: V6 show_v6_def netloc_char_separators split: prod.split)
qed

lemma netloc_chars: "netloc rq scheme = Some n \<Longrightarrow> list_all netloc_char n"
proof -
  assume n: "netloc rq scheme = Some n"
  show "list_all netloc_char n"
  proof (cases "usable_host rq")
    case (Some host)
    then have "full_match HOST_RE host" by (auto simp: usable_host_def split: option.splits if_splits)
    with n Some show ?thesis by (auto simp: netloc_def host_chars)
  next
    case None
    with n show ?thesis
      by (auto simp: netloc_def Let_def show_ip_chars show_nat_chars netloc_char_separators
          split: option.splits if_splits)
  qed
qed

lemma netloc_char_quote: "list_all netloc_char n \<Longrightarrow> 47 \<notin> set (quote n)"
  by (rule quote_no_delimiter)
    (auto simp: valid_str_def list_all_iff netloc_char_def is_scalar_def)

lemma scheme_quote: "quote (redirect_scheme rq) \<noteq> [] \<and> 47 \<notin> set (quote (redirect_scheme rq))"
proof -
  have "redirect_scheme rq \<in> set (map lit [''http'', ''https'', ''ws'', ''wss''])"
    by (auto simp: redirect_scheme_def split: option.splits list.splits)
  moreover have "list_all (\<lambda>s. quote (lit s) \<noteq> [] \<and> 47 \<notin> set (quote (lit s))) [''http'', ''https'', ''ws'', ''wss'']"
    by code_simp
  ultimately show ?thesis by (auto simp: list_all_iff)
qed

text \<open>A client finds the quoted path, and behind it the quoted query, where they were put.\<close>

lemma after_authority_redirect:
  "after_authority (quote (redirect_url rq (47 # p)))
   = quote (47 # p) @ (case hr_query rq of Some q \<Rightarrow> if q \<noteq> [] then 63 # quote q else [] | None \<Rightarrow> [])"
proof -
  have skip: "47 \<notin> set u \<Longrightarrow> dropWhile (\<lambda>c. c \<noteq> 47) (u @ 47 # v) = 47 # v" for u v :: rstr
    by (induction u) auto
  let ?q = "case hr_query rq of Some q \<Rightarrow> if q \<noteq> [] then 63 # quote q else [] | None \<Rightarrow> []"
  let ?s = "quote (redirect_scheme rq)"
  have "quote (redirect_url rq (47 # p)) = (case netloc rq (redirect_scheme rq) of
      Some n \<Rightarrow> ?s @ 58 # 47 # 47 # quote n @ 47 # quote p @ ?q | None \<Rightarrow> 47 # quote p @ ?q)"
    by (simp add: redirect_url_def Let_def lit_def quote_delimiter split: option.split)
  moreover have "after_authority (?s @ 58 # 47 # 47 # quote n @ 47 # v) = 47 # v" if "47 \<notin> set (quote n)" for n v
  proof -
    have "dropWhile (\<lambda>c. c \<noteq> 47) ((?s @ [58]) @ 47 # 47 # quote n @ 47 # v) = 47 # 47 # quote n @ 47 # v"
      using scheme_quote [of rq] by (intro skip) auto
    moreover have "\<not> starts_with [47] (?s @ w)" for w
      using scheme_quote [of rq] by (cases ?s) (auto simp: starts_with_def)
    ultimately show ?thesis using that by (simp add: after_authority_def skip)
  qed
  moreover have "after_authority (47 # v) = 47 # v" for v by (simp add: after_authority_def starts_with_def)
  ultimately show ?thesis
    using netloc_chars [of rq "redirect_scheme rq"] netloc_char_quote
    by (auto simp: quote_delimiter split: option.split)
qed

lemma redirect_url_parts:
  assumes "valid_str (47 # p)" "35 \<notin> set (47 # p)" "63 \<notin> set (47 # p)"
  shows "url_path (quote (redirect_url rq (47 # p))) = quote (47 # p)
     \<and> url_query (quote (redirect_url rq (47 # p)))
        = (case hr_query rq of Some q \<Rightarrow> if q \<noteq> [] then Some (quote q) else None | None \<Rightarrow> None)"
proof -
  let ?p = "quote (47 # p)"
  have n: "35 \<notin> set ?p" "63 \<notin> set ?p" using assms quote_no_delimiter by blast+
  then have "takeWhile (\<lambda>c. c \<noteq> 63 \<and> c \<noteq> 35) ?p = ?p" "takeWhile (\<lambda>c. c \<noteq> 63 \<and> c \<noteq> 35) (?p @ 63 # v) = ?p" for v
    by (auto simp: takeWhile_eq_all_conv takeWhile_append)
  moreover have "split_once 63 (?p @ 63 # v) = Some (?p, v)" for v
    using n(2) by (simp add: split_once_Some_iff)
  moreover have "split_once 63 ?p = None"
    using n(2) by (rule split_once_absent)
  ultimately show ?thesis
    by (auto simp: url_path_def url_query_def after_authority_redirect split: option.split)
qed

lemma routed_not_redirected:
  "match_route (percent_decode (hr_path rq)) \<noteq> None \<Longrightarrow>
   rs_status (fst (serve_request X R build submit rid rq)) \<noteq> 307"
  using process_not_redirect
  by (auto simp: serve_request_def dispatch_def Let_def json_response_def method_not_allowed_def
      split: option.splits route.splits) (metis prod.collapse)+

lemma routed_path_slash: "match_route path \<noteq> None \<Longrightarrow> \<exists>p. path = 47 # p"
proof -
  assume r: "match_route path \<noteq> None"
  define q where "q = (case strip_suffix [LF] path of Some q \<Rightarrow> q | None \<Rightarrow> path)"
  from r have "\<exists>p. q = 47 # p"
    unfolding match_route_def q_def [symmetric] Let_def
    by (auto simp: strip_prefix_Some_iff lit_def split: if_splits option.splits)
  then show ?thesis
    by (auto simp: q_def strip_suffix_Some_iff split: option.splits)
qed

text \<open>C35: a redirect leads where the request wanted to go: it does nothing else, it goes to the decoded
  path without its trailing slashes, which is one the server routes, and its one header is a
  \<open>Location\<close> of printable ASCII, so that no path, query or \<open>Host\<close> can inject anything into the response.  If the
  decoded path has no \<open>?\<close>, \<open>#\<close> or \<open>%\<close>, a client that follows the \<open>Location\<close> asks for exactly this path, with the
  query of the request, whatever the \<open>Host\<close> header and the addresses of the connection are, and it
  is not redirected again.\<close>

theorem redirect_location:
  assumes "serve_request X R build submit rid rq = (resp, acts)" "rs_status resp = 307"
  shows "acts = [] \<and> (\<exists>location path slashes.
       percent_decode (hr_path rq) = path @ slashes \<and> set slashes = {47} \<and> match_route path \<noteq> None
     \<and> rs_headers resp = [(lit ''location'', location)] \<and> list_all (\<lambda>c. 33 \<le> c \<and> c < 127) location
     \<and> (set path \<inter> {35, 37, 63} = {} \<longrightarrow>
          percent_decode (url_path location) = path
        \<and> url_query location = (case hr_query rq of Some q \<Rightarrow> if q \<noteq> [] then Some (quote q) else None | None \<Rightarrow> None)
        \<and> (\<forall>rid' rq'. hr_path rq' = url_path location \<longrightarrow>
              rs_status (fst (serve_request X R build submit rid' rq')) \<noteq> 307)))"
proof -
  let ?path = "percent_decode (hr_path rq)"
  let ?stripped = "trim_end_matches (\<lambda>c. c = 47) ?path"
  have r: "acts = []" "resp = redirect rq ?stripped" "match_route ?stripped \<noteq> None" "length ?path \<noteq> length ?stripped"
    using assms process_not_redirect
    by (auto simp: serve_request_def dispatch_def Let_def json_response_def method_not_allowed_def
        split: option.splits route.splits if_split_asm)
  obtain t where t: "?path = ?stripped @ t" "list_all (\<lambda>c. c = 47) t" using trim_end_split by blast
  with r(4) have "t \<noteq> []" by auto
  with t(2) have slashes: "set t = {47}" by (cases t) (auto simp: list_all_iff)
  let ?location = "quote (redirect_url rq ?stripped)"
  have location: "rs_headers resp = [(lit ''location'', ?location)]"
    by (simp add: r(2) redirect_def header_value_quote)
  have follow: "percent_decode (url_path ?location) = ?stripped
      \<and> url_query ?location = (case hr_query rq of Some q \<Rightarrow> if q \<noteq> [] then Some (quote q) else None | None \<Rightarrow> None)"
    if d: "set ?stripped \<inter> {35, 37, 63} = {}"
  proof -
    obtain p where p: "?stripped = 47 # p" using routed_path_slash [OF r(3)] by blast
    have "valid_str ?path" by (simp add: percent_decode_def from_utf8_lossy_valid)
    then have v: "valid_str ?stripped" using t(1) by (metis list_all_append valid_str_def)
    with redirect_url_parts [of p rq] percent_decode_quote [OF v] d show ?thesis by (simp add: p)
  qed
  then have "\<forall>rid' rq'. hr_path rq' = url_path ?location \<longrightarrow>
      rs_status (fst (serve_request X R build submit rid' rq')) \<noteq> 307" if "set ?stripped \<inter> {35, 37, 63} = {}"
    using that r(3) routed_not_redirected by simp
  with follow slashes location r t(1) quote_range show ?thesis
    by (intro conjI exI [of _ ?location] exI [of _ ?stripped] exI [of _ t]) (auto simp: list_all_iff)
qed

definition demo_http :: http_request where
  "demo_http = \<lparr>hr_method = lit ''POST'', hr_path = lit ''/health//'', hr_query = Some (lit ''a=b%20c''),
     hr_headers = [(lit ''host'', blit ''bad host''), (lit ''x-forwarded-proto'', blit '' wss '')],
     hr_connection = Some \<lparr>remote = (V4 127 0 0 1, 5000), local_addr = Some (V4 10 1 2 3, 8085)\<rparr>,
     hr_body = []\<rparr>"

lemma demo_redirect:
  "serve_request ascii_crates demo_relay demo_build (\<lambda>_. Ok []) (lit ''r'') demo_http
   = (\<lparr>rs_status = 307,
       rs_headers = [(lit ''location'', lit ''wss://10.1.2.3:8085/health?a=b%20c'')], rs_json = []\<rparr>, [])"
  by code_simp

theorem redirect_location_witness:
  "\<exists>location. list_all (\<lambda>c. 33 \<le> c \<and> c < 127) location
     \<and> fst (serve_request ascii_crates demo_relay demo_build (\<lambda>_. Ok []) (lit ''r'') demo_http)
        = \<lparr>rs_status = 307, rs_headers = [(lit ''location'', location)], rs_json = []\<rparr>"
  using redirect_location [OF demo_redirect] demo_redirect by auto

text \<open>Where the decoded path has a question mark, it is in the \<open>Location\<close> as it is: \<open>SAFE\<close> leaves the
  delimiters of a URL unquoted.  A client then asks for another path, and another domain.\<close>

definition demo_question :: http_request where
  "demo_question = demo_http\<lparr>hr_path := lit ''/v3/a%3Fx/messages/'', hr_query := None\<rparr>"

lemma redirect_splits_path:
  "serve_request ascii_crates demo_relay demo_build (\<lambda>_. Ok []) (lit ''r'') demo_question
   = (\<lparr>rs_status = 307,
       rs_headers = [(lit ''location'', lit ''wss://10.1.2.3:8085/v3/a?x/messages'')], rs_json = []\<rparr>, [])
   \<and> url_path (lit ''wss://10.1.2.3:8085/v3/a?x/messages'') = lit ''/v3/a''
   \<and> url_query (lit ''wss://10.1.2.3:8085/v3/a?x/messages'') = Some (lit ''x/messages'')"
  by code_simp

end
