(* ===== verification/Calendar.thy ===== *)
theory Calendar
  imports Prelude
begin

text \<open>
  The calendar of \<open>utc_timestamp\<close> in \<open>rust/src/log.rs\<close>: the closed formula for the civil date of a
  day number, and its agreement with the Gregorian calendar as one learns it, counted day by day
  with \<open>next_day\<close>.
\<close>

definition year_of_era :: "nat \<Rightarrow> nat" where
  "year_of_era doe = (doe - doe div 1460 + doe div 36524 - doe div 146096) div 365"

text \<open>Month and day of a day in the year that starts on 1 March.\<close>

definition month_day :: "nat \<Rightarrow> nat \<times> nat" where
  "month_day doy =
     (let mp = (5 * doy + 2) div 153;
          day = doy - (153 * mp + 2) div 5 + 1
      in (if mp < 10 then mp + 3 else mp - 9, day))"

definition civil :: "nat \<Rightarrow> nat \<times> nat \<times> nat" where
  "civil days =
     (let z = days + 719468;
          era = z div 146097;
          doe = z mod 146097;
          yoe = year_of_era doe;
          doy = doe - (365 * yoe + yoe div 4 - yoe div 100);
          (month, day) = month_day doy
      in (yoe + era * 400 + (if month \<le> 2 then 1 else 0), month, day))"

subsection \<open>The calendar\<close>

definition leap :: "nat \<Rightarrow> bool" where
  "leap y \<longleftrightarrow> y mod 4 = 0 \<and> (y mod 100 \<noteq> 0 \<or> y mod 400 = 0)"

definition month_len :: "bool \<Rightarrow> nat \<Rightarrow> nat" where
  "month_len is_leap m =
     (if m = 2 then (if is_leap then 29 else 28) else if m = 4 \<or> m = 6 \<or> m = 9 \<or> m = 11 then 30 else 31)"

fun next_day :: "nat \<times> nat \<times> nat \<Rightarrow> nat \<times> nat \<times> nat" where
  "next_day (y, m, d) =
     (if d < month_len (leap y) m then (y, m, d + 1)
      else if m < 12 then (y, m + 1, 1) else (y + 1, 1, 1))"

text \<open>
  Years start on 1 March here, so that a leap day is the last of its year.  A day of an era (400
  years) is its century \<open>c\<close>, its four-year cycle \<open>s\<close>, its year \<open>r\<close> of the cycle and its day \<open>k\<close>.
\<close>

definition long_year :: "nat \<Rightarrow> nat \<Rightarrow> nat \<Rightarrow> bool" where
  "long_year c s r \<longleftrightarrow> r = 3 \<and> (s \<noteq> 24 \<or> c = 3)"

definition valid_day :: "nat \<Rightarrow> nat \<Rightarrow> nat \<Rightarrow> nat \<Rightarrow> bool" where
  "valid_day c s r k \<longleftrightarrow> c \<le> 3 \<and> s \<le> 24 \<and> r \<le> 3 \<and> (k \<le> 364 \<or> k = 365 \<and> long_year c s r)"

definition day_number :: "nat \<Rightarrow> nat \<Rightarrow> nat \<Rightarrow> nat \<Rightarrow> nat" where
  "day_number c s r k = 36524 * c + 1461 * s + 365 * r + k"

definition date_of :: "nat \<Rightarrow> nat \<Rightarrow> nat \<Rightarrow> nat \<Rightarrow> nat \<Rightarrow> nat \<times> nat \<times> nat" where
  "date_of era c s r k =
     (case month_day k of (m, d) \<Rightarrow>
        (100 * c + 4 * s + r + era * 400 + (if m \<le> 2 then 1 else 0), m, d))"

lemma leap_long_year:
  assumes "c \<le> 3" "s \<le> 24" "r \<le> 3"
  shows "leap (100 * c + 4 * s + r + era * 400 + 1) \<longleftrightarrow> long_year c s r"
proof -
  let ?y = "100 * c + 4 * s + r + era * 400 + 1"
  have "?y = (r + 1) + 4 * (25 * c + s + 100 * era)" by simp
  then have "?y mod 4 = (r + 1) mod 4" by (metis mod_mult_self2)
  moreover have "(r + 1) mod 4 = 0 \<longleftrightarrow> r = 3" using assms(3) by presburger
  ultimately have 1: "?y mod 4 = 0 \<longleftrightarrow> r = 3" by (simp only:)
  have le: "4 * s + r + 1 < 100 \<or> s = 24 \<and> r = 3" using assms(2,3) by linarith
  have "?y = (4 * s + r + 1) + 100 * (c + 4 * era)" by simp
  then have "?y mod 100 = (4 * s + r + 1) mod 100" by (metis mod_mult_self2)
  moreover have "(4 * s + r + 1) mod 100 = 0 \<longleftrightarrow> s = 24 \<and> r = 3" using le by (auto dest: dvd_imp_le)
  ultimately have 2: "?y mod 100 = 0 \<longleftrightarrow> s = 24 \<and> r = 3" by (simp only:)
  have le': "100 * c + 4 * s + r + 1 < 400 \<or> c = 3 \<and> s = 24 \<and> r = 3" using assms by linarith
  have "?y = (100 * c + 4 * s + r + 1) + 400 * era" by simp
  then have "?y mod 400 = (100 * c + 4 * s + r + 1) mod 400" by (metis mod_mult_self2)
  moreover have "(100 * c + 4 * s + r + 1) mod 400 = 0 \<longleftrightarrow> c = 3 \<and> s = 24 \<and> r = 3" using le' by (auto dest: dvd_imp_le)
  ultimately have 3: "?y mod 400 = 0 \<longleftrightarrow> c = 3 \<and> s = 24 \<and> r = 3" by (simp only:)
  show ?thesis unfolding leap_def long_year_def 1 2 3 by blast
qed

lemma year_of_era_day_number:
  assumes "valid_day c s r k"
  shows "year_of_era (day_number c s r k) = 100 * c + 4 * s + r"
proof -
  let ?doe = "day_number c s r k"
  have b: "c \<le> 3" "s \<le> 24" "r \<le> 3" "k \<le> 365" "k = 365 \<longrightarrow> r = 3 \<and> (s < 24 \<or> c = 3)"
    using assms by (auto simp: valid_day_def long_year_def)
  obtain e where e: "?doe div 1460 = 25 * c + s + e" "e = (24 * c + s + 365 * r + k) div 1460"
  proof
    have "?doe = 1460 * (25 * c + s) + (24 * c + s + 365 * r + k)" by (simp add: day_number_def)
    then show "?doe div 1460 = 25 * c + s + (24 * c + s + 365 * r + k) div 1460" by simp
  qed simp
  have e1: "e \<le> 1" "e = 1 \<longrightarrow> 250 \<le> k" "k = 365 \<longrightarrow> e = 1"
  proof -
    have "24 * c + s + 365 * r + k < 1460 * 2" using b by linarith
    then show "e \<le> 1" unfolding e(2) by (simp add: div_less_iff_less_mult less_Suc_eq_le [symmetric])
    show "e = 1 \<longrightarrow> 250 \<le> k"
    proof
      assume "e = 1"
      then have "1460 \<le> 24 * c + s + 365 * r + k" unfolding e(2) by (metis div_less not_le zero_neq_one)
      with b show "250 \<le> k" by linarith
    qed
    show "k = 365 \<longrightarrow> e = 1"
    proof
      assume "k = 365"
      with b have "r = 3" by simp
      with \<open>k = 365\<close> b have "1460 \<le> 24 * c + s + 365 * r + k" "24 * c + s + 365 * r + k < 1460 * 2" by linarith+
      then show "e = 1" unfolding e(2) by (intro div_nat_eqI) auto
    qed
  qed
  show ?thesis
  proof (cases "?doe = 146096")
    case True
    have "c = 3 \<and> s = 24 \<and> r = 3" using True b unfolding day_number_def by linarith
    with True show ?thesis by (simp add: year_of_era_def)
  next
    case False
    have "?doe < 146096" "?doe div 36524 = c"
    proof -
      have "36524 * c + 1461 * s + 365 * r + k < 36524 * (c + 1) \<or> c = 3 \<and> s = 24 \<and> r = 3 \<and> k = 365"
      proof (cases "s = 24 \<and> r = 3")
        case True
        with b show ?thesis by (cases "k = 365") auto
      next
        case False
        then have "s \<le> 23 \<or> s = 24 \<and> r \<le> 2" using b by linarith
        with b show ?thesis by auto
      qed
      then have lt: "36524 * c + 1461 * s + 365 * r + k < 36524 * (c + 1)"
        using False by (auto simp: day_number_def)
      then show "?doe div 36524 = c" unfolding day_number_def by (intro div_nat_eqI) auto
      note lt
      also have "36524 * (c + 1) \<le> 36524 * 4" using b(1) by (intro mult_le_mono2) simp
      finally show "?doe < 146096" by (simp add: day_number_def)
    qed
    then have f: "?doe - ?doe div 1460 + ?doe div 36524 - ?doe div 146096 = ?doe - (25 * c + s + e) + c"
      using e(1) by simp
    have k: "e \<le> k" "k - e < 365" using e1 b(4) by linarith+
    have "?doe - (25 * c + s + e) + c = 365 * (100 * c + 4 * s + r) + (k - e)"
    proof -
      obtain j where "k = e + j" using k(1) le_Suc_ex by blast
      then show ?thesis by (simp add: day_number_def)
    qed
    with k show ?thesis unfolding year_of_era_def f by simp
  qed
qed

lemma civil_date_of:
  assumes "days + 719468 = 146097 * era + day_number c s r k" "valid_day c s r k"
  shows "civil days = date_of era c s r k"
proof -
  let ?y = "100 * c + 4 * s + r"
  have b: "c \<le> 3" "s \<le> 24" "r \<le> 3" "k \<le> 365" "k = 365 \<longrightarrow> r = 3 \<and> (s < 24 \<or> c = 3)"
    using assms(2) by (auto simp: valid_day_def long_year_def)
  have "day_number c s r k < 146097" using b unfolding day_number_def by linarith
  then have z: "(days + 719468) div 146097 = era" "(days + 719468) mod 146097 = day_number c s r k"
    using assms(1) by simp_all
  have y: "?y div 4 = 25 * c + s" "?y div 100 = c"
    using b by (intro div_nat_eqI; simp)+
  have "day_number c s r k - (365 * ?y + ?y div 4 - ?y div 100) = k"
    unfolding y by (simp add: day_number_def)
  then show ?thesis
    unfolding civil_def Let_def z year_of_era_day_number [OF assms(2)] date_of_def
    by (simp split: prod.splits)
qed

subsection \<open>Months\<close>

definition month_start :: "nat \<Rightarrow> nat" where
  "month_start mp = (153 * mp + 2) div 5"

definition month_of :: "nat \<Rightarrow> nat" where
  "month_of mp = (if mp < 10 then mp + 3 else mp - 9)"

lemma month_day_in:
  assumes "month_start mp \<le> k" "k < month_start (mp + 1)"
  shows "month_day k = (month_of mp, k - month_start mp + 1)"
proof -
  have "153 * mp + 2 < 5 * (k + 1)" "5 * (k + 1) \<le> 153 * (mp + 1) + 2"
    using assms unfolding month_start_def by (simp_all add: less_eq_div_iff_mult_less_eq div_less_iff_less_mult)
  then have "(5 * k + 2) div 153 = mp" by (intro div_nat_eqI) auto
  then show ?thesis by (simp add: month_day_def month_start_def month_of_def)
qed

lemma month_starts:
  "map month_start [0, 1, 2, 3, 4, 5, 6, 7, 8, 9, 10, 11, 12]
     = [0, 31, 61, 92, 122, 153, 184, 214, 245, 275, 306, 337, 367]"
  by (simp add: month_start_def)

lemma month_obtain:
  assumes "k \<le> 365"
  obtains mp where "mp \<le> 11" "month_start mp \<le> k" "k < month_start (mp + 1)"
proof
  define mp where "mp = (5 * k + 2) div 153"
  have m: "mp * 153 \<le> 5 * k + 2" "5 * k + 2 < mp * 153 + 153"
    unfolding mp_def by (simp_all add: dividend_less_div_times)
  show "mp \<le> 11" using m(1) assms by linarith
  show "month_start mp \<le> k" using m(1) unfolding month_start_def by linarith
  show "k < month_start (mp + 1)"
  proof -
    have "5 * (k + 1) \<le> 153 * (mp + 1) + 2" using m(2) by presburger
    then show ?thesis unfolding month_start_def by (simp add: less_eq_div_iff_mult_less_eq Suc_le_eq [symmetric])
  qed
qed

lemma month_lengths:
  assumes "mp \<le> 10"
  shows "month_start (mp + 1) = month_start mp + month_len b (month_of mp)
    \<and> month_of (mp + 1) = (if month_of mp < 12 then month_of mp + 1 else 1)
    \<and> month_of mp \<noteq> 2 \<and> 1 \<le> month_of mp \<and> month_of mp \<le> 12 \<and> (month_of mp = 1 \<longleftrightarrow> mp = 10)"
proof -
  have "mp \<in> {0, 1, 2, 3, 4, 5, 6, 7, 8, 9, 10}" using assms unfolding insert_iff empty_iff by presburger
  then show ?thesis by (elim insertE emptyE) (simp_all add: month_start_def month_of_def month_len_def)
qed

text \<open>The next day of the same year.\<close>

lemma next_day_within_year:
  assumes "valid_day c s r (Suc k)"
  shows "date_of era c s r (Suc k) = next_day (date_of era c s r k)"
proof -
  let ?y = "100 * c + 4 * s + r + era * 400"
  have b: "c \<le> 3" "s \<le> 24" "r \<le> 3" "k \<le> 364" "k = 364 \<longrightarrow> long_year c s r"
    using assms by (auto simp: valid_day_def)
  have leap: "leap (?y + 1) \<longleftrightarrow> long_year c s r"
    by (rule leap_long_year) (use b in auto)
  obtain mp where mp: "mp \<le> 11" "month_start mp \<le> k" "k < month_start (mp + 1)"
    using month_obtain [of k] b(4) by auto
  note md = month_day_in [OF mp(2,3)]
  show ?thesis
  proof (cases "mp = 11")
    case True
    have st: "month_start mp = 337" "month_of mp = 2" "month_start (mp + 1) = 367"
      by (simp_all add: True month_start_def month_of_def)
    have "month_day (Suc k) = (2, Suc k - 337 + 1)"
      using month_day_in [of mp "Suc k"] b(4) mp st by simp
    with md b leap mp(2) show ?thesis by (auto simp: date_of_def st month_len_def)
  next
    case False
    then have le: "mp \<le> 10" using mp(1) by simp
    note len = month_lengths [OF le, of "leap (if month_of mp \<le> 2 then ?y + 1 else ?y)"]
    show ?thesis
    proof (cases "Suc k < month_start (mp + 1)")
      case True
      then have "month_day (Suc k) = (month_of mp, Suc k - month_start mp + 1)"
        using mp by (intro month_day_in) auto
      with md True len mp show ?thesis by (auto simp: date_of_def)
    next
      case nxt: False
      then have eq: "Suc k = month_start (mp + 1)" using mp(3) by simp
      have "month_start (mp + 1) < month_start (mp + 2)" by (simp add: month_start_def)
      then have "month_day (Suc k) = (month_of (mp + 1), 1)"
        using month_day_in [of "mp + 1" "Suc k"] eq by simp
      with md eq len mp show ?thesis by (auto simp: date_of_def split: if_splits)
    qed
  qed
qed

lemma next_day_new_year:
  assumes "valid_day c s r k" "\<not> valid_day c s r (Suc k)"
  shows "next_day (date_of era c s r k) = (100 * c + 4 * s + r + era * 400 + 1, 3, 1)"
proof -
  have b: "c \<le> 3" "s \<le> 24" "r \<le> 3" "k \<le> 365" "k = 365 \<longleftrightarrow> long_year c s r" "364 \<le> k"
    using assms by (auto simp: valid_day_def)
  have leap: "leap (100 * c + 4 * s + r + era * 400 + 1) \<longleftrightarrow> long_year c s r"
    by (rule leap_long_year) (use b in auto)
  have st: "month_start 11 = 337" "month_start (11 + 1) = 367" "month_of 11 = 2"
    by (simp_all add: month_start_def month_of_def)
  have "month_day k = (2, k - 337 + 1)"
    using month_day_in [of 11 k] b unfolding st by simp
  with b leap show ?thesis by (auto simp: date_of_def month_len_def)
qed

subsection \<open>The formula counts days\<close>

text \<open>The day after, in its own era, century, cycle and year.\<close>

lemma next_valid_day:
  assumes "n + 719468 = 146097 * era + day_number c s r k" "valid_day c s r k"
  shows "\<exists>era' c' s' r' k'. Suc n + 719468 = 146097 * era' + day_number c' s' r' k'
     \<and> valid_day c' s' r' k' \<and> date_of era' c' s' r' k' = next_day (date_of era c s r k)"
proof (cases "valid_day c s r (Suc k)")
  case True
  with assms(1) next_day_within_year [OF True, of era] show ?thesis
    by (intro exI [of _ era] exI [of _ c] exI [of _ s] exI [of _ r] exI [of _ "Suc k"])
      (simp add: day_number_def)
next
  case False
  note new = next_day_new_year [OF assms(2) False, of era]
  have b: "c \<le> 3" "s \<le> 24" "r \<le> 3" and k: "k = (if long_year c s r then 365 else 364)"
    using assms(2) False by (auto simp: valid_day_def)
  have first: "date_of e c' s' r' 0 = (100 * c' + 4 * s' + r' + e * 400, 3, 1)" for e c' s' r'
    by (simp add: date_of_def month_day_def)
  have valid: "valid_day c' s' r' 0" if "c' \<le> 3" "s' \<le> 24" "r' \<le> 3" for c' s' r'
    using that by (simp add: valid_day_def)
  have step: ?thesis
    if "day_number c s r k + 1 = 146097 * e + day_number c' s' r' 0" "c' \<le> 3" "s' \<le> 24" "r' \<le> 3"
      "100 * c' + 4 * s' + r' + (era + e) * 400 = 100 * c + 4 * s + r + era * 400 + 1" for e c' s' r'
  proof (intro exI conjI)
    show "Suc n + 719468 = 146097 * (era + e) + day_number c' s' r' 0"
      using assms(1) that(1) by (simp add: distrib_left)
    show "valid_day c' s' r' 0" by (rule valid [OF that(2-4)])
    show "date_of (era + e) c' s' r' 0 = next_day (date_of era c s r k)"
      unfolding first new that(5) ..
  qed
  consider (r) "r < 3" | (s) "r = 3" "s < 24" | (c) "r = 3" "s = 24" "c < 3" | (e) "r = 3" "s = 24" "c = 3"
    using b by linarith
  then show ?thesis
  proof cases
    case r
    with b k show ?thesis by (intro step [of 0 c s "r + 1"]) (simp_all add: day_number_def long_year_def)
  next
    case s
    with b k show ?thesis by (intro step [of 0 c "s + 1" 0]) (simp_all add: day_number_def long_year_def)
  next
    case c
    with b k show ?thesis by (intro step [of 0 "c + 1" 0 0]) (simp_all add: day_number_def long_year_def)
  next
    case e
    with b k show ?thesis by (intro step [of 1 0 0 0]) (simp_all add: day_number_def long_year_def)
  qed
qed

lemma civil_counts:
  "\<exists>era c s r k. n + 719468 = 146097 * era + day_number c s r k \<and> valid_day c s r k
     \<and> date_of era c s r k = (next_day ^^ n) (1970, 1, 1)"
proof (induction n)
  case 0
  show ?case
    by (intro exI [of _ 4] exI [of _ 3] exI [of _ 17] exI [of _ 1] exI [of _ 306])
      (simp add: day_number_def valid_day_def date_of_def month_day_def)
next
  case (Suc n)
  then obtain era c s r k where n: "n + 719468 = 146097 * era + day_number c s r k" "valid_day c s r k"
    "date_of era c s r k = (next_day ^^ n) (1970, 1, 1)" by blast
  from next_valid_day [OF n(1,2)] n(3) show ?case by simp
qed

lemma civil_next_day: "civil n = (next_day ^^ n) (1970, 1, 1)"
  using civil_counts [of n] civil_date_of by metis

end
