(* ===== verification/Log.thy ===== *)
theory Log
  imports Calendar Pipeline
begin

text \<open>
  \<open>rust/src/log.rs\<close>: one JSON object per line, dropped below the threshold, with a UTC timestamp.
  \<open>serde_json\<close> is the parameter \<open>to_json\<close>; what is modelled is which record is serialised, when a
  line is written at all, and the timestamp.  The lemma \<open>civil_next_day\<close> of theory \<open>Calendar\<close> says
  that the date formula counts days of the Gregorian calendar from 1 January 1970.
\<close>

definition SERVICE_LOGGER :: rstr where "SERVICE_LOGGER = lit ''mailgun_relay.service''"
definition ACCESS_LOGGER :: rstr where "ACCESS_LOGGER = lit ''mailgun_relay.access''"

text \<open>\<open>{:0w}\<close>.\<close>

definition show_padded :: "nat \<Rightarrow> nat \<Rightarrow> rstr" where
  "show_padded w n = replicate (w - length (show_nat n)) 48 @ show_nat n"

text \<open>The time in seconds relative to the epoch, negative before it.\<close>

definition utc_timestamp :: "int \<Rightarrow> rstr" where
  "utc_timestamp now =
     (let secs = (if now < 0 then 0 else nat now);
          days = secs div 86400;
          rem = secs mod 86400
      in case civil days of (year, month, day) \<Rightarrow>
           show_padded 4 year @ [45] @ show_padded 2 month @ [45] @ show_padded 2 day @ [84]
           @ show_padded 2 (rem div 3600) @ [58] @ show_padded 2 (rem mod 3600 div 60) @ [58]
           @ show_padded 2 (rem mod 60) @ [90])"

subsection \<open>Records\<close>

text \<open>What serde makes of a record, before \<open>serde_json\<close> writes it: an object keeps the order of its
  fields, \<open>None\<close> is \<open>null\<close>.\<close>

datatype json = JNull | JBool bool | JInt int | JString rstr | JArray "json list" | JObject "(rstr \<times> json) list"

type_synonym json_fields = "(rstr \<times> json) list"

definition jnat :: "nat \<Rightarrow> json" where "jnat n = JInt (int n)"

definition jopt :: "('b \<Rightarrow> json) \<Rightarrow> 'b option \<Rightarrow> json" where
  "jopt f v = (case v of None \<Rightarrow> JNull | Some x \<Rightarrow> f x)"

text \<open>\<open>RequestFields\<close>, with the milliseconds since the start of the request.\<close>

definition request_fields :: "nat \<Rightarrow> request_record \<Rightarrow> json_fields" where
  "request_fields duration rec =
     [(lit ''request_id'', JString (request_id rec)), (lit ''token_label'', JString (token_label rec)),
      (lit ''path_domain'', JString (path_domain rec)), (lit ''from'', JString (rr_from rec)),
      (lit ''recipient_count'', jnat (recipient_count rec)), (lit ''refused_count'', jnat (refused_count rec)),
      (lit ''message_id'', JString (case rr_message_id rec of Some m \<Rightarrow> m | None \<Rightarrow> [45])),
      (lit ''result'', JString (rr_result rec)), (lit ''status_code'', jnat (status_code rec)),
      (lit ''error_class'', jopt JString (error_class rec)), (lit ''duration_ms'', jnat duration)]"

definition refused_entry :: "rstr \<times> nat option \<Rightarrow> json" where
  "refused_entry e = JObject [(lit ''domain'', JString (fst e)), (lit ''code'', jopt jnat (snd e))]"

definition refused_fields :: "recipients_refused \<Rightarrow> json_fields" where
  "refused_fields p =
     [(lit ''request_id'', JString (pr_request_id p)), (lit ''token_label'', JString (pr_token_label p)),
      (lit ''path_domain'', JString (pr_path_domain p)), (lit ''message_id'', JString (pr_message_id p)),
      (lit ''recipient_count'', jnat (pr_recipient_count p)), (lit ''refused_count'', jnat (pr_refused_count p)),
      (lit ''refused'', JArray (map refused_entry (pr_refused p)))]"

definition cleanup_fields :: "rstr \<Rightarrow> json_fields" where
  "cleanup_fields class = [(lit ''error_class'', JString class)]"

text \<open>A line before the clock and the threshold see it.\<close>

record log_entry =
  le_level :: level
  le_logger :: rstr
  le_event :: rstr
  le_fields :: json_fields

text \<open>The flattened object.\<close>

definition log_record :: "int \<Rightarrow> log_entry \<Rightarrow> json" where
  "log_record now e =
     JObject ([(lit ''ts'', JString (utc_timestamp now)), (lit ''level'', JString (level_name (le_level e))),
       (lit ''logger'', JString (le_logger e)), (lit ''event'', JString (le_event e))] @ le_fields e)"

definition render :: "(json \<Rightarrow> u8 list) \<Rightarrow> int \<Rightarrow> level \<Rightarrow> log_entry \<Rightarrow> u8 list option" where
  "render to_json now threshold e =
     (if le_level e < threshold then None else Some (to_json (log_record now e) @ [10]))"

text \<open>\<open>emit\<close> on standard output; \<open>written\<close> is how many bytes a failing write still wrote.\<close>

definition emit :: "nat option \<Rightarrow> u8 list option \<Rightarrow> u8 list \<Rightarrow> u8 list" where
  "emit written line out =
     (case line of
        None \<Rightarrow> out
      | Some l \<Rightarrow> (case written of None \<Rightarrow> out @ l | Some n \<Rightarrow> out @ take n l))"

text \<open>The line of an action of the pipeline, \<open>Record::drop\<close> and \<open>log_partial_refusal\<close>, and of a session.\<close>

fun action_entry :: "nat \<Rightarrow> action \<Rightarrow> log_entry option" where
  "action_entry duration (LogRequest rec) =
     Some \<lparr>le_level = Info, le_logger = ACCESS_LOGGER, le_event = lit ''request'',
           le_fields = request_fields duration rec\<rparr>"
| "action_entry duration (LogRefused p) =
     Some \<lparr>le_level = Warning, le_logger = ACCESS_LOGGER, le_event = lit ''recipients_refused'',
           le_fields = refused_fields p\<rparr>"
| "action_entry duration _ = None"

definition cleanup_entry :: "session_result \<Rightarrow> log_entry option" where
  "cleanup_entry r =
     map_option (\<lambda>class. \<lparr>le_level = Warning, le_logger = SERVICE_LOGGER, le_event = lit ''smtp_cleanup_failed'',
                           le_fields = cleanup_fields class\<rparr>) (cleanup_failed r)"

text \<open>Standard output after a sequence of lines, each with its time and the outcome of its write.\<close>

fun log_output :: "(json \<Rightarrow> u8 list) \<Rightarrow> level \<Rightarrow> (int \<times> nat option \<times> log_entry) list \<Rightarrow> u8 list \<Rightarrow> u8 list" where
  "log_output to_json threshold [] out = out"
| "log_output to_json threshold ((now, written, e) # es) out =
     log_output to_json threshold es (emit written (render to_json now threshold e) out)"

text \<open>The records at or above the threshold.\<close>

definition kept_records :: "level \<Rightarrow> (int \<times> nat option \<times> log_entry) list \<Rightarrow> json list" where
  "kept_records threshold es =
     map (\<lambda>(now, _, e). log_record now e) (filter (\<lambda>(_, _, e). \<not> le_level e < threshold) es)"

text \<open>Where every write succeeds, the output is the JSON text of the records at or above the threshold,
  in order, each with a line feed; a write that fails leaves a prefix of its line, on which the next
  record goes on.\<close>

lemma log_output_text:
  "list_all (\<lambda>(_, written, _). written = None) es \<Longrightarrow>
   log_output to_json threshold es out =
     out @ concat (map (\<lambda>j. to_json j @ [10]) (kept_records threshold es))"
  by (induction to_json threshold es out rule: log_output.induct)
    (auto simp: emit_def render_def kept_records_def split: option.split)

lemma log_output_append:
  "log_output to_json threshold (es @ es') out =
     log_output to_json threshold es' (log_output to_json threshold es out)"
  by (induction to_json threshold es out rule: log_output.induct) auto

text \<open>C38: the timestamp of a log line is the date that counting day by day from 1 January 1970 in the
  Gregorian calendar gives, with its leap years, and the time of that day; before the epoch it
  is the epoch.\<close>

theorem utc_timestamp_calendar:
  "\<exists>h m s. utc_timestamp now =
     (case (next_day ^^ (nat now div 86400)) (1970, 1, 1) of (year, month, day) \<Rightarrow>
        show_padded 4 year @ [45] @ show_padded 2 month @ [45] @ show_padded 2 day @ [84]
        @ show_padded 2 h @ [58] @ show_padded 2 m @ [58] @ show_padded 2 s @ [90])
     \<and> h < 24 \<and> m < 60 \<and> s < 60 \<and> nat now mod 86400 = 3600 * h + 60 * m + s"
proof -
  let ?r = "nat now mod 86400"
  have n: "(if now < 0 then 0 else nat now) = nat now" by simp
  have m60: "?r mod 3600 mod 60 = ?r mod 60" by (rule mod_mod_cancel) simp
  have "?r = 3600 * (?r div 3600) + ?r mod 3600" by simp
  also have "?r mod 3600 = 60 * (?r mod 3600 div 60) + ?r mod 3600 mod 60" by simp
  finally have "?r = 3600 * (?r div 3600) + 60 * (?r mod 3600 div 60) + ?r mod 60"
    unfolding m60 by simp
  moreover have "?r div 3600 < 24" "?r mod 3600 div 60 < 60" "?r mod 60 < 60"
    by (simp_all add: less_mult_imp_div_less)
  ultimately show ?thesis
    unfolding utc_timestamp_def Let_def n civil_next_day
    by (intro exI [of _ "?r div 3600"] exI [of _ "?r mod 3600 div 60"] exI [of _ "?r mod 60"] conjI refl)
qed

end
