(* ===== verification/Service.thy ===== *)
theory Service
  imports Http Log "HOL-Library.Multiset"
begin

text \<open>
  \<open>rust/src/main.rs\<close>: the command line, the loading of the configuration and the startup record.
  Sockets, signals and the shutdown are in theories \<open>Launch\<close> and \<open>Server\<close>.
\<close>

subsection \<open>Loading the configuration\<close>

record platform =
  pf_crates :: crates
  pf_yaml :: yaml_rust2
  pf_tls :: tls_crates
  pf_files :: files
  pf_parse_f64 :: "rstr \<Rightarrow> f64 option"

definition load_configuration ::
  "platform \<Rightarrow> (u8 list \<times> u8 list) list \<Rightarrow> config_error + settings \<times> secrets \<times> smtp_config" where
  "load_configuration P vars =
     and_then (from_env (pf_crates P) (pf_parse_f64 P) vars) (\<lambda>s.
     and_then (load (pf_crates P) (pf_yaml P) (pf_files P) (secrets_path s)) (\<lambda>sec.
     and_then (load_config (pf_crates P) (pf_tls P) s (smtp sec)) (\<lambda>cfg. Ok (s, sec, cfg))))"

subsection \<open>The command line\<close>

datatype exit_code = ExitSuccess | ExitFailure | ExitUsage

datatype invocation = Serve | PrintVersion | CheckConfig | Usage

definition invocation_of :: "u8 list list \<Rightarrow> invocation" where
  "invocation_of args =
     (case args of
        [] \<Rightarrow> Serve
      | [arg] \<Rightarrow>
          if arg = blit ''--version'' then PrintVersion
          else if arg = blit ''--check-config'' then CheckConfig else Usage
      | _ \<Rightarrow> Usage)"

definition config_failure :: "config_error \<Rightarrow> rstr \<times> exit_code" where
  "config_failure e =
     (lit ''mailgun-relay: configuration error: '' @ (case e of ConfigError m \<Rightarrow> m | DefaultPanic \<Rightarrow> []), ExitFailure)"

definition check_config :: "platform \<Rightarrow> (u8 list \<times> u8 list) list \<Rightarrow> rstr \<times> exit_code" where
  "check_config P vars =
     (case load_configuration P vars of
        Inr (s, sec, cfg) \<Rightarrow>
          (lit ''mailgun-relay: configuration OK (bind '' @ bind_host s @ [58] @ show_nat (unat (bind_port s))
             @ lit '', log level '' @ level_name (log_level s) @ lit '', '' @ show_nat (length (tokens sec))
             @ lit '' token(s))'', ExitSuccess)
      | Inl e \<Rightarrow> config_failure e)"

subsection \<open>The startup record\<close>

record startup =
  st_version :: rstr
  st_impl :: rstr
  st_bind :: rstr
  st_public_host :: rstr
  st_smtp_host :: rstr
  st_smtp_port :: "16 word"
  st_smtp_starttls :: bool
  st_smtp_custom_ca :: bool
  st_smtp_max_concurrency :: "32 word"
  st_fail_on_partial_refusal :: bool
  st_log_level :: rstr
  st_token_labels :: "rstr list"
  st_max_body_bytes :: int
  st_max_recipients :: int

definition startup_record :: "rstr \<Rightarrow> settings \<Rightarrow> secrets \<Rightarrow> rstr \<Rightarrow> startup" where
  "startup_record version s sec bind =
     \<lparr>st_version = version, st_impl = lit ''rust'', st_bind = bind, st_public_host = public_host s,
      st_smtp_host = smtp_host s, st_smtp_port = smtp_port s, st_smtp_starttls = smtp_starttls s,
      st_smtp_custom_ca = (smtp_ca_file s \<noteq> []), st_smtp_max_concurrency = smtp_max_concurrency s,
      st_fail_on_partial_refusal = fail_on_partial_refusal s,
      st_log_level = level_name (log_level s), st_token_labels = sort (map label (tokens sec)),
      st_max_body_bytes = max_body_bytes s, st_max_recipients = max_recipients s\<rparr>"

definition startup_fields :: "startup \<Rightarrow> json_fields" where
  "startup_fields st =
     [(lit ''version'', JString (st_version st)), (lit ''impl'', JString (st_impl st)),
      (lit ''bind'', JString (st_bind st)), (lit ''public_host'', JString (st_public_host st)),
      (lit ''smtp_host'', JString (st_smtp_host st)), (lit ''smtp_port'', jnat (unat (st_smtp_port st))),
      (lit ''smtp_starttls'', JBool (st_smtp_starttls st)), (lit ''smtp_custom_ca'', JBool (st_smtp_custom_ca st)),
      (lit ''smtp_max_concurrency'', jnat (unat (st_smtp_max_concurrency st))),
      (lit ''fail_on_partial_refusal'', JBool (st_fail_on_partial_refusal st)),
      (lit ''log_level'', JString (st_log_level st)), (lit ''token_labels'', JArray (map JString (st_token_labels st))),
      (lit ''max_body_bytes'', JInt (st_max_body_bytes st)), (lit ''max_recipients'', JInt (st_max_recipients st))]"

definition log_startup ::
  "(json \<Rightarrow> u8 list) \<Rightarrow> int \<Rightarrow> rstr \<Rightarrow> level \<Rightarrow> settings \<Rightarrow> secrets \<Rightarrow> rstr \<Rightarrow> u8 list option" where
  "log_startup to_json now version threshold s sec bind =
     render to_json now threshold
       \<lparr>le_level = max threshold Info, le_logger = SERVICE_LOGGER, le_event = lit ''startup'',
        le_fields = startup_fields (startup_record version s sec bind)\<rparr>"

text \<open>The start is logged at every threshold, and the line holds no secret: it is the same
  whatever the SMTP credentials, the token hashes and the policies are, as long as the labels of
  the tokens are, in any order.\<close>

lemma startup_logged_without_secrets:
  assumes "mset (map label (tokens sec)) = mset (map label (tokens sec'))"
  shows "log_startup to_json now version threshold s sec bind \<noteq> None
     \<and> log_startup to_json now version threshold s sec bind = log_startup to_json now version threshold s sec' bind"
proof -
  have "sort (map label (tokens sec)) = sort (map label (tokens sec'))"
    using assms by (metis mset_sort properties_for_sort sorted_sort)
  then show ?thesis by (simp add: log_startup_def render_def startup_record_def)
qed

text \<open>The settings, secrets and SMTP configuration of a running service belong together: the
  session uses the host, port and timeout of the settings and the credentials of the secrets
  file, and TLS is switched on exactly when the settings ask for STARTTLS; every token policy is
  well formed.\<close>

lemma configuration_sound:
  assumes "load_configuration P vars = Ok (s, sec, cfg)"
  shows "sc_host cfg = smtp_host s \<and> sc_port cfg = smtp_port s \<and> sc_timeout cfg = smtp_timeout_s s
     \<and> sc_credentials cfg = smtp sec \<and> sc_tls cfg = smtp_starttls s
     \<and> (envelope_sender s = [] \<longleftrightarrow> sc_sender cfg = None)
     \<and> list_all (wf_policy (pf_crates P)) (tokens sec) \<and> tokens sec \<noteq> []"
proof -
  from assms have l: "load (pf_crates P) (pf_yaml P) (pf_files P) (secrets_path s) = Ok sec"
    and c: "load_config (pf_crates P) (pf_tls P) s (smtp sec) = Ok cfg"
    by (auto simp: load_configuration_def and_then_Inr_iff)
  from l obtain t where "from_yaml (pf_crates P) (pf_yaml P) t = Ok sec"
    by (auto simp: load_def Let_def and_then_Inr_iff split: if_splits)
  then obtain items where items: "items \<noteq> []" "load_tokens (pf_crates P) 0 items [] = Ok (tokens sec)"
    by (rule from_yaml_Ok)
  have tls: "tls_parameters X T s' = Ok b \<Longrightarrow> b = smtp_starttls s'" for X T s' b
    by (auto simp: tls_parameters_def Let_def and_then_Inr_iff map_ok_Inr_iff split: if_splits)
  from load_tokens_Ok [OF items(2)] have "list_all (wf_policy (pf_crates P)) (tokens sec)" "tokens sec \<noteq> []"
    using items(1) by auto
  with c show ?thesis
    by (auto simp: load_config_def and_then_Inr_iff map_ok_Inr_iff dest: tls split: if_splits)
qed

definition demo_platform :: platform where
  "demo_platform = \<lparr>pf_crates = ascii_crates, pf_yaml = example_yaml,
     pf_tls = \<lparr>ca_read = (\<lambda>_. Err []), pem_certificates = (\<lambda>_. None), certificate_from_der = Ok,
       build_rustls = (\<lambda>_ _. Ok ())\<rparr>,
     pf_files = example_files 0x180 (lit ''x''), pf_parse_f64 = example_f64\<rparr>"

definition demo_smtp_config :: smtp_config where
  "demo_smtp_config = \<lparr>sc_host = smtp_host default_settings, sc_port = 587, sc_tls = True,
     sc_credentials = smtp example_secrets, sc_timeout = Finite 30, sc_sender = None\<rparr>"

lemma demo_configuration:
  "load_configuration demo_platform [] = Ok (default_settings, example_secrets, demo_smtp_config)"
proof -
  have e: "from_env ascii_crates example_f64 [] = Ok default_settings"
    by (rule from_env_empty) (simp add: example_f64_def)
  have u: "from_utf8 (utf8_encode (lit ''x'')) = Some (lit ''x'')" by code_simp
  have l: "load ascii_crates example_yaml (example_files 0x180 (lit ''x'')) path = Ok example_secrets" for path
    by (simp add: load_def example_files_def FORBIDDEN_MODE_BITS_def u example_from_yaml)
  have t: "envelope_sender default_settings = []" "smtp_ca_file default_settings = []"
    "smtp_starttls default_settings" "smtp_port default_settings = 587" "smtp_timeout_s default_settings = Finite 30"
    by (simp_all add: default_settings_def)
  then show ?thesis
    by (simp add: load_configuration_def demo_platform_def e l load_config_def tls_parameters_def
        demo_smtp_config_def Let_def)
qed

end
