(* ===== verification/Server.thy ===== *)
theory Server
  imports Service
begin

text \<open>
  The requests of one process, interleaved.  \<open>post_messages\<close> of \<open>rust/src/pipeline.rs\<close> runs every
  request in a task of its own, the submissions share the slots of a semaphore, clients may go away,
  and \<open>run\<close> of \<open>rust/src/main.rs\<close> ends the process after a signal.  A task moves in steps that end
  where it waits for something; which task moves next, how a session ends and when a client leaves
  is the choice of the environment, a \<open>server_event\<close>.  Of the semaphore only the counting is used.
\<close>

subsection \<open>A request up to its slot, and after its session\<close>

text \<open>Steps 2 to 9: a decision, or the message that waits for a slot.\<close>

definition prepare ::
  "crates \<Rightarrow> relay \<Rightarrow> build_fun \<Rightarrow> request \<Rightarrow> request_record
   \<Rightarrow> decision + built_message \<times> request_record \<times> action list" where
  "prepare X R build rq rec =
     (let s = r_settings R
      in case authenticate X (rq_authorization rq) (r_tokens R) of
           Inl _ \<Rightarrow> Inl (Err auth_failure, rec, [])
         | Inr policy \<Rightarrow>
             (let rec1 = rec\<lparr>token_label := label policy\<rparr>
              in case read_form X s (rq_content_type rq) (rq_body rq) of
                   (Inl f, acts) \<Rightarrow> Inl (Err f, rec1, acts)
                 | (Inr items, acts) \<Rightarrow>
                     (case parse_form X items s of
                        Inl f \<Rightarrow> Inl (Err f, rec1, acts)
                      | Inr parsed \<Rightarrow>
                          (let rec2 = rec1\<lparr>rr_from := take FROM_LOG_MAX_LEN (form_from parsed)\<rparr>
                           in case message_of X s policy (rq_domain rq) parsed of
                                Inl f \<Rightarrow> Inl (Err f, rec2, acts)
                              | Inr input \<Rightarrow>
                                  (case build_message build input of
                                     Inl f \<Rightarrow> Inl (Err f, rec2, acts)
                                   | Inr m \<Rightarrow>
                                       Inr (m, rec2\<lparr>rr_message_id := Some (message_id m),
                                             recipient_count := length (envelope m)\<rparr>, acts))))))"

text \<open>Step 11, or the failure of the session.\<close>

definition after_session ::
  "crates \<Rightarrow> settings \<Rightarrow> built_message \<Rightarrow> request_record \<Rightarrow> submit_error + refusal list \<Rightarrow> decision" where
  "after_session X s m rec result =
     (case result of
        Inl e \<Rightarrow> (Err (submit_failure e), rec, [])
      | Inr refused \<Rightarrow> answer X s (message_id m) refused rec)"

text \<open>The end of \<open>process\<close>: the response, and the record that is dropped.\<close>

definition seal :: "decision \<Rightarrow> response \<times> action list" where
  "seal d =
     (case d of (result, rec, acts) \<Rightarrow>
        (let (resp, rec') =
           (case result of
              Inr r \<Rightarrow> (r, rec\<lparr>error_class := None\<rparr>)
            | Inl f \<Rightarrow>
                (let r = error_response (f_status f) (f_message f)
                 in (if f_status f = 401
                     then r\<lparr>rs_headers := rs_headers r
                            @ [(lit ''www-authenticate'', lit ''Basic realm='' @ [34] @ lit ''MG API'' @ [34])]\<rparr>
                     else r,
                     rec\<lparr>rr_result := f_result f, error_class := Some (f_class f)\<rparr>)))
         in (resp, acts @ [LogRequest (rec'\<lparr>status_code := rs_status resp\<rparr>)])))"

lemma decide_split:
  "decide X R build submit rq rec =
     (case prepare X R build rq rec of
        Inl d \<Rightarrow> d
      | Inr (m, rec', acts) \<Rightarrow>
          (case after_session X (r_settings R) m rec' (submit m) of
             (r, rec'', acts') \<Rightarrow> (r, rec'', acts @ Submit m # acts')))"
  by (auto simp: decide_def prepare_def decide_items_def build_and_submit_def after_session_def Let_def
      split: sum.split prod.split)

text \<open>A request is its preparation, its session and its end.\<close>

lemma process_split:
  "process X R build submit rid rq =
     (case prepare X R build rq (new_record X rid (rq_domain rq)) of
        Inl d \<Rightarrow> seal d
      | Inr (m, rec, acts) \<Rightarrow>
          (case after_session X (r_settings R) m rec (submit m) of
             (r, rec', acts') \<Rightarrow> seal (r, rec', acts @ Submit m # acts')))"
  by (simp add: process_def seal_def decide_split split: sum.split prod.split)

lemma seal_append:
  "seal (r, rec, acts @ acts') = (case seal (r, rec, acts') of (resp, acts'') \<Rightarrow> (resp, acts @ acts''))"
  by (simp add: seal_def split: sum.split prod.split)

subsection \<open>Tasks, clients, slots\<close>

datatype stage =
    Spawned
  | Preparing
  | Waiting built_message request_record     \<comment> \<open>at \<open>smtp_slots.acquire()\<close>\<close>
  | Submitting built_message request_record
  | Done response
  | Dropped                                 \<comment> \<open>with the runtime, when the process fails\<close>

datatype client = Connected | Answered response | Gone

record task =
  tk_rid :: rstr
  tk_request :: request
  tk_stage :: stage
  tk_client :: client
  tk_trace :: "action list"

text \<open>\<open>sv_heads\<close> counts the connections on which the head of a request is being read: hyper finishes
  them in a graceful shutdown, too.  \<open>Draining\<close>: the signal came, the servers finish their connections; \<open>Closing\<close>: the task tracker
  is waited for; \<open>Failed\<close>: a server stopped, \<open>run\<close> returned an error.\<close>

datatype mode = Running | Draining | Closing | Exited | Failed

record server =
  sv_heads :: nat
  sv_tasks :: "task list"
  sv_free :: nat
  sv_mode :: mode

definition new_server :: "relay \<Rightarrow> server" where
  "new_server R = \<lparr>sv_heads = 0, sv_tasks = [], sv_free = r_slots R, sv_mode = Running\<rparr>"

fun submitting :: "stage \<Rightarrow> bool" where
  "submitting (Submitting _ _) = True"
| "submitting _ = False"

fun finished :: "stage \<Rightarrow> bool" where
  "finished (Done _) = True"
| "finished Dropped = True"
| "finished _ = False"

definition release :: "stage \<Rightarrow> nat \<Rightarrow> nat" where
  "release g free = (if submitting g then free + 1 else free)"

text \<open>A record that no decision has sealed yet, dropped by a panic or with its task.\<close>

definition unsealed :: "rstr \<Rightarrow> request_record \<Rightarrow> bool" where
  "unsealed rid rec \<longleftrightarrow> request_id rec = rid \<and> rr_result rec = lit ''internal_error''
     \<and> status_code rec = 500 \<and> error_class rec = Some (lit ''Panic'')"

definition is_read :: "action \<Rightarrow> bool" where
  "is_read a = (case a of Read _ \<Rightarrow> True | _ \<Rightarrow> False)"

text \<open>What a task logs when it is dropped before its end: nothing before it was started.\<close>

definition dropped_trace :: "task \<Rightarrow> action list \<Rightarrow> request_record \<Rightarrow> action list option" where
  "dropped_trace t reads rec =
     (case tk_stage t of
        Spawned \<Rightarrow> if reads = [] then Some [] else None
      | Preparing \<Rightarrow>
          if list_all is_read reads \<and> unsealed (tk_rid t) rec then Some (reads @ [LogRequest rec]) else None
      | Waiting m r \<Rightarrow> if reads = [] \<and> rec = r then Some [LogRequest rec] else None
      | Submitting m r \<Rightarrow> if reads = [] \<and> rec = r then Some [LogRequest rec] else None
      | _ \<Rightarrow> None)"

subsection \<open>Steps\<close>

datatype server_event =
    Head                                       \<comment> \<open>a client begins a request\<close>
  | HeadLost
  | Accept rstr request                        \<comment> \<open>a request reaches the route\<close>
  | Start nat
  | Prepare nat
  | Grant nat                                  \<comment> \<open>the semaphore gives a slot\<close>
  | Finish nat "submit_error + refusal list"   \<comment> \<open>the session ended\<close>
  | Panic nat "action list" request_record
  | Deliver nat
  | Disconnect nat
  | StopSignal
  | ServersDone
  | TasksDone
  | ServerFailed
  | Drop nat "action list" request_record

definition put_task :: "server \<Rightarrow> nat \<Rightarrow> task \<Rightarrow> server" where
  "put_task s i t = s\<lparr>sv_tasks := (sv_tasks s)[i := t]\<rparr>"

definition start_task :: "task \<Rightarrow> task option" where
  "start_task t = (if tk_stage t = Spawned then Some (t\<lparr>tk_stage := Preparing\<rparr>) else None)"

definition prepare_task :: "crates \<Rightarrow> relay \<Rightarrow> build_fun \<Rightarrow> task \<Rightarrow> task option" where
  "prepare_task X R build t =
     (if tk_stage t = Preparing then
        (case prepare X R build (tk_request t) (new_record X (tk_rid t) (rq_domain (tk_request t))) of
           Inl d \<Rightarrow>
             (case seal d of (resp, acts) \<Rightarrow> Some (t\<lparr>tk_stage := Done resp, tk_trace := tk_trace t @ acts\<rparr>))
         | Inr (m, rec, acts) \<Rightarrow> Some (t\<lparr>tk_stage := Waiting m rec, tk_trace := tk_trace t @ acts\<rparr>))
      else None)"

definition grant_task :: "task \<Rightarrow> task option" where
  "grant_task t =
     (case tk_stage t of
        Waiting m rec \<Rightarrow> Some (t\<lparr>tk_stage := Submitting m rec, tk_trace := tk_trace t @ [Submit m]\<rparr>)
      | _ \<Rightarrow> None)"

definition finish_task :: "crates \<Rightarrow> relay \<Rightarrow> submit_error + refusal list \<Rightarrow> task \<Rightarrow> task option" where
  "finish_task X R result t =
     (case tk_stage t of
        Submitting m rec \<Rightarrow>
          (case seal (after_session X (r_settings R) m rec result) of
             (resp, acts) \<Rightarrow> Some (t\<lparr>tk_stage := Done resp, tk_trace := tk_trace t @ acts\<rparr>))
      | _ \<Rightarrow> None)"

text \<open>The task ends in a panic; \<open>post_messages\<close> answers for it.\<close>

definition panic_task :: "action list \<Rightarrow> request_record \<Rightarrow> task \<Rightarrow> task option" where
  "panic_task reads rec t =
     (if tk_stage t = Preparing \<or> submitting (tk_stage t) then
        map_option (\<lambda>acts. t\<lparr>tk_stage := Done (error_response 500 (lit ''Internal Server Error'')),
                             tk_trace := tk_trace t @ acts\<rparr>) (dropped_trace t reads rec)
      else None)"

definition drop_task :: "action list \<Rightarrow> request_record \<Rightarrow> task \<Rightarrow> task option" where
  "drop_task reads rec t =
     map_option (\<lambda>acts. t\<lparr>tk_stage := Dropped, tk_trace := tk_trace t @ acts\<rparr>) (dropped_trace t reads rec)"

definition deliver_task :: "task \<Rightarrow> task option" where
  "deliver_task t =
     (case (tk_stage t, tk_client t) of
        (Done resp, Connected) \<Rightarrow> Some (t\<lparr>tk_client := Answered resp\<rparr>)
      | _ \<Rightarrow> None)"

definition disconnect_task :: "task \<Rightarrow> task option" where
  "disconnect_task t = (if tk_client t = Connected then Some (t\<lparr>tk_client := Gone\<rparr>) else None)"

definition on_task :: "server \<Rightarrow> nat \<Rightarrow> (task \<Rightarrow> task option) \<Rightarrow> server option" where
  "on_task s i f =
     (case get_at (sv_tasks s) i of None \<Rightarrow> None | Some t \<Rightarrow> map_option (put_task s i) (f t))"

definition up :: "server \<Rightarrow> bool" where
  "up s \<longleftrightarrow> sv_mode s \<in> {Running, Draining, Closing}"

text \<open>The slot of a submission is released when its task moves on, in whatever way.\<close>

definition releasing :: "nat \<Rightarrow> server \<Rightarrow> server option \<Rightarrow> server option" where
  "releasing i s s' =
     map_option (\<lambda>s'. s'\<lparr>sv_free := (case get_at (sv_tasks s) i of
        Some t \<Rightarrow> release (tk_stage t) (sv_free s) | None \<Rightarrow> sv_free s)\<rparr>) s'"

fun server_step :: "crates \<Rightarrow> relay \<Rightarrow> build_fun \<Rightarrow> server \<Rightarrow> server_event \<Rightarrow> server option" where
  "server_step X R build s Head =
     (if sv_mode s = Running then Some (s\<lparr>sv_heads := sv_heads s + 1\<rparr>) else None)"
| "server_step X R build s HeadLost =
     (if 0 < sv_heads s then Some (s\<lparr>sv_heads := sv_heads s - 1\<rparr>) else None)"
| "server_step X R build s (Accept rid rq) =
     (if (sv_mode s = Running \<or> sv_mode s = Draining) \<and> 0 < sv_heads s
      then Some (s\<lparr>sv_heads := sv_heads s - 1, sv_tasks := sv_tasks s @ [\<lparr>tk_rid = rid, tk_request = rq, tk_stage = Spawned,
                     tk_client = Connected, tk_trace = []\<rparr>]\<rparr>)
      else None)"
| "server_step X R build s (Start i) = (if up s then on_task s i start_task else None)"
| "server_step X R build s (Prepare i) = (if up s then on_task s i (prepare_task X R build) else None)"
| "server_step X R build s (Grant i) =
     (if up s \<and> 0 < sv_free s
      then map_option (\<lambda>s'. s'\<lparr>sv_free := sv_free s - 1\<rparr>) (on_task s i grant_task) else None)"
| "server_step X R build s (Finish i result) =
     (if up s then releasing i s (on_task s i (finish_task X R result)) else None)"
| "server_step X R build s (Panic i reads rec) =
     (if up s then releasing i s (on_task s i (panic_task reads rec)) else None)"
| "server_step X R build s (Deliver i) = (if up s then on_task s i deliver_task else None)"
| "server_step X R build s (Disconnect i) = on_task s i disconnect_task"
| "server_step X R build s StopSignal =
     (if sv_mode s = Running then Some (s\<lparr>sv_mode := Draining\<rparr>) else None)"
| "server_step X R build s ServersDone =
     (if sv_mode s = Draining \<and> sv_heads s = 0 \<and> list_all (\<lambda>t. tk_client t \<noteq> Connected) (sv_tasks s)
      then Some (s\<lparr>sv_mode := Closing\<rparr>) else None)"
| "server_step X R build s TasksDone =
     (if sv_mode s = Closing \<and> list_all (\<lambda>t. finished (tk_stage t)) (sv_tasks s)
      then Some (s\<lparr>sv_mode := Exited\<rparr>) else None)"
| "server_step X R build s ServerFailed =
     (if sv_mode s = Running \<or> sv_mode s = Draining then Some (s\<lparr>sv_mode := Failed\<rparr>) else None)"
| "server_step X R build s (Drop i reads rec) =
     (if sv_mode s = Failed then releasing i s (on_task s i (drop_task reads rec)) else None)"

fun server_run :: "crates \<Rightarrow> relay \<Rightarrow> build_fun \<Rightarrow> server \<Rightarrow> server_event list \<Rightarrow> server option" where
  "server_run X R build s [] = Some s"
| "server_run X R build s (e # es) =
     (case server_step X R build s e of None \<Rightarrow> None | Some s' \<Rightarrow> server_run X R build s' es)"

subsection \<open>The moves of one task\<close>

text \<open>The same steps as a relation, for the proofs: the invariants go over its rules.\<close>

inductive move :: "crates \<Rightarrow> relay \<Rightarrow> build_fun \<Rightarrow> nat \<Rightarrow> server_event \<Rightarrow> task \<Rightarrow> task \<Rightarrow> bool"
  for X :: crates and R :: relay and build :: build_fun and i :: nat where
  started: "tk_stage t = Spawned \<Longrightarrow> move X R build i (Start i) t (t\<lparr>tk_stage := Preparing\<rparr>)"
| decided: "tk_stage t = Preparing \<Longrightarrow>
    prepare X R build (tk_request t) (new_record X (tk_rid t) (rq_domain (tk_request t))) = Inl d \<Longrightarrow>
    seal d = (resp, acts) \<Longrightarrow>
    move X R build i (Prepare i) t (t\<lparr>tk_stage := Done resp, tk_trace := tk_trace t @ acts\<rparr>)"
| waits: "tk_stage t = Preparing \<Longrightarrow>
    prepare X R build (tk_request t) (new_record X (tk_rid t) (rq_domain (tk_request t))) = Inr (m, rec, acts) \<Longrightarrow>
    move X R build i (Prepare i) t (t\<lparr>tk_stage := Waiting m rec, tk_trace := tk_trace t @ acts\<rparr>)"
| granted: "tk_stage t = Waiting m rec \<Longrightarrow>
    move X R build i (Grant i) t (t\<lparr>tk_stage := Submitting m rec, tk_trace := tk_trace t @ [Submit m]\<rparr>)"
| session_ended: "tk_stage t = Submitting m rec \<Longrightarrow>
    seal (after_session X (r_settings R) m rec result) = (resp, acts) \<Longrightarrow>
    move X R build i (Finish i result) t (t\<lparr>tk_stage := Done resp, tk_trace := tk_trace t @ acts\<rparr>)"
| panicked: "tk_stage t = Preparing \<or> submitting (tk_stage t) \<Longrightarrow> dropped_trace t reads rec = Some acts \<Longrightarrow>
    move X R build i (Panic i reads rec) t
      (t\<lparr>tk_stage := Done (error_response 500 (lit ''Internal Server Error'')), tk_trace := tk_trace t @ acts\<rparr>)"
| dropped: "dropped_trace t reads rec = Some acts \<Longrightarrow>
    move X R build i (Drop i reads rec) t (t\<lparr>tk_stage := Dropped, tk_trace := tk_trace t @ acts\<rparr>)"
| delivered: "tk_stage t = Done resp \<Longrightarrow> tk_client t = Connected \<Longrightarrow>
    move X R build i (Deliver i) t (t\<lparr>tk_client := Answered resp\<rparr>)"
| left: "tk_client t = Connected \<Longrightarrow> move X R build i (Disconnect i) t (t\<lparr>tk_client := Gone\<rparr>)"

lemma on_task_Some_iff:
  "on_task s i f = Some s' \<longleftrightarrow>
     i < length (sv_tasks s) \<and> (\<exists>t'. f (sv_tasks s ! i) = Some t' \<and> s' = put_task s i t')"
  by (auto simp: on_task_def get_at_def split: option.split)

lemma put_task_simps [simp]:
  "sv_tasks (put_task s i t) = (sv_tasks s)[i := t]" "sv_mode (put_task s i t) = sv_mode s"
  "sv_free (put_task s i t) = sv_free s"
  by (simp_all add: put_task_def)

definition new_task :: "rstr \<Rightarrow> request \<Rightarrow> task" where
  "new_task rid rq = \<lparr>tk_rid = rid, tk_request = rq, tk_stage = Spawned, tk_client = Connected, tk_trace = []\<rparr>"

definition slot_of :: "task \<Rightarrow> nat" where
  "slot_of t = (if submitting (tk_stage t) then 1 else 0)"

text \<open>What each operation on a task is in the relation; a move keeps a slot, gives one back or takes one.\<close>

lemma task_ops_move:
  "start_task t = Some t' \<Longrightarrow> move X R build i (Start i) t t' \<and> slot_of t' = slot_of t"
  "prepare_task X R build t = Some t' \<Longrightarrow> move X R build i (Prepare i) t t' \<and> slot_of t' = slot_of t"
  "grant_task t = Some t' \<Longrightarrow> move X R build i (Grant i) t t' \<and> slot_of t' = 1 \<and> slot_of t = 0"
  "finish_task X R result t = Some t' \<Longrightarrow> move X R build i (Finish i result) t t' \<and> slot_of t' = 0"
  "panic_task reads rec t = Some t' \<Longrightarrow> move X R build i (Panic i reads rec) t t' \<and> slot_of t' = 0"
  "drop_task reads rec t = Some t' \<Longrightarrow> move X R build i (Drop i reads rec) t t' \<and> slot_of t' = 0"
  "deliver_task t = Some t' \<Longrightarrow> move X R build i (Deliver i) t t' \<and> slot_of t' = slot_of t"
  "disconnect_task t = Some t' \<Longrightarrow> move X R build i (Disconnect i) t t' \<and> slot_of t' = slot_of t"
  by (auto simp: start_task_def prepare_task_def grant_task_def finish_task_def panic_task_def drop_task_def
      deliver_task_def disconnect_task_def slot_of_def intro: move.intros
      split: if_splits stage.splits client.splits sum.splits prod.splits)

lemma releasing_free:
  "release (tk_stage t) n + 0 = n + slot_of t"
  by (simp add: release_def slot_of_def)

text \<open>A step is an arrival, a move of one task that keeps the account of the slots, or a change of mode.\<close>

inductive change :: "crates \<Rightarrow> relay \<Rightarrow> build_fun \<Rightarrow> server \<Rightarrow> server_event \<Rightarrow> server \<Rightarrow> bool"
  for X :: crates and R :: relay and build :: build_fun and s :: server where
  begun: "sv_mode s = Running \<Longrightarrow> change X R build s Head (s\<lparr>sv_heads := sv_heads s + 1\<rparr>)"
| lost: "0 < sv_heads s \<Longrightarrow> change X R build s HeadLost (s\<lparr>sv_heads := sv_heads s - 1\<rparr>)"
| accepted: "sv_mode s = Running \<or> sv_mode s = Draining \<Longrightarrow> 0 < sv_heads s \<Longrightarrow>
    change X R build s (Accept rid rq)
      (s\<lparr>sv_heads := sv_heads s - 1, sv_tasks := sv_tasks s @ [new_task rid rq]\<rparr>)"
| moved: "i < length (sv_tasks s) \<Longrightarrow> move X R build i e (sv_tasks s ! i) t' \<Longrightarrow>
    free + slot_of t' = sv_free s + slot_of (sv_tasks s ! i) \<Longrightarrow>
    up s \<or> sv_mode s = Failed \<and> (\<exists>reads rec. e = Drop i reads rec) \<or> e = Disconnect i \<Longrightarrow>
    (\<exists>reads rec. e = Drop i reads rec) \<longrightarrow> sv_mode s = Failed \<Longrightarrow>
    change X R build s e (s\<lparr>sv_tasks := (sv_tasks s)[i := t'], sv_free := free\<rparr>)"
| stopped: "sv_mode s = Running \<Longrightarrow> change X R build s StopSignal (s\<lparr>sv_mode := Draining\<rparr>)"
| servers_done: "sv_mode s = Draining \<Longrightarrow> \<forall>t \<in> set (sv_tasks s). tk_client t \<noteq> Connected \<Longrightarrow>
    change X R build s ServersDone (s\<lparr>sv_mode := Closing\<rparr>)"
| tasks_done: "sv_mode s = Closing \<Longrightarrow> \<forall>t \<in> set (sv_tasks s). finished (tk_stage t) \<Longrightarrow>
    change X R build s TasksDone (s\<lparr>sv_mode := Exited\<rparr>)"
| failed: "sv_mode s = Running \<or> sv_mode s = Draining \<Longrightarrow>
    change X R build s ServerFailed (s\<lparr>sv_mode := Failed\<rparr>)"

lemma moved_keep:
  assumes "on_task s i f = Some s'" "\<And>t t'. f t = Some t' \<Longrightarrow> move X R build i e t t' \<and> slot_of t' = slot_of t"
    "up s \<or> e = Disconnect i" "\<not> (\<exists>reads rec. e = Drop i reads rec)"
  shows "change X R build s e s'"
proof -
  from assms(1) obtain t' where t: "i < length (sv_tasks s)" "f (sv_tasks s ! i) = Some t'" "s' = put_task s i t'"
    by (auto simp: on_task_Some_iff)
  have "change X R build s e (s\<lparr>sv_tasks := (sv_tasks s)[i := t'], sv_free := sv_free s\<rparr>)"
    using assms(2) [OF t(2)] assms(3,4) t(1) by (intro moved) auto
  then show ?thesis by (simp add: t(3) put_task_def)
qed

lemma moved_release:
  assumes "releasing i s (on_task s i f) = Some s'"
    "\<And>t t'. f t = Some t' \<Longrightarrow> move X R build i e t t' \<and> slot_of t' = 0"
    "up s \<or> sv_mode s = Failed \<and> (\<exists>reads rec. e = Drop i reads rec)"
    "(\<exists>reads rec. e = Drop i reads rec) \<longrightarrow> sv_mode s = Failed"
  shows "change X R build s e s'"
proof -
  from assms(1) obtain t' where t: "i < length (sv_tasks s)" "f (sv_tasks s ! i) = Some t'"
    "s' = (put_task s i t')\<lparr>sv_free := release (tk_stage (sv_tasks s ! i)) (sv_free s)\<rparr>"
    by (auto simp: releasing_def on_task_Some_iff get_at_def)
  have "change X R build s e (s\<lparr>sv_tasks := (sv_tasks s)[i := t'],
      sv_free := release (tk_stage (sv_tasks s ! i)) (sv_free s)\<rparr>)"
    using assms(2) [OF t(2)] assms(3,4) t(1) releasing_free by (intro moved) auto
  then show ?thesis by (simp add: t(3) put_task_def)
qed

lemma server_step_change:
  assumes "server_step X R build s e = Some s'"
  shows "change X R build s e s'"
proof (cases e)
  case (Grant i)
  with assms obtain s1 where u: "up s" "0 < sv_free s" "on_task s i grant_task = Some s1"
    "s' = s1\<lparr>sv_free := sv_free s - 1\<rparr>" by (auto split: if_splits)
  from u(3) obtain t' where t: "i < length (sv_tasks s)" "grant_task (sv_tasks s ! i) = Some t'"
    "s1 = put_task s i t'" by (auto simp: on_task_Some_iff)
  have "change X R build s e (s\<lparr>sv_tasks := (sv_tasks s)[i := t'], sv_free := sv_free s - 1\<rparr>)"
    using task_ops_move(3) [OF t(2), of X R build i] u(1,2) t(1) by (intro moved) (auto simp: Grant)
  then show ?thesis by (simp add: u(4) t(3) put_task_def)
next
  case (Start i)
  with assms have "up s" "on_task s i (start_task) = Some s'" by (auto split: if_splits)
  then show ?thesis by (intro moved_keep) (auto simp: Start task_ops_move)
next
  case (Prepare i)
  with assms have "up s" "on_task s i (prepare_task X R build) = Some s'" by (auto split: if_splits)
  then show ?thesis by (intro moved_keep) (auto simp: Prepare task_ops_move)
next
  case (Deliver i)
  with assms have "up s" "on_task s i (deliver_task) = Some s'" by (auto split: if_splits)
  then show ?thesis by (intro moved_keep) (auto simp: Deliver task_ops_move)
next
  case (Disconnect i)
  with assms have "on_task s i disconnect_task = Some s'" by simp
  then show ?thesis by (intro moved_keep) (auto simp: Disconnect task_ops_move)
next
  case (Finish i result)
  with assms have "up s" "releasing i s (on_task s i (finish_task X R result)) = Some s'" by (auto split: if_splits)
  then show ?thesis by (intro moved_release [where f = "finish_task X R result" and i = i]) (auto simp: Finish task_ops_move)
next
  case (Panic i reads rec)
  with assms have "up s" "releasing i s (on_task s i (panic_task reads rec)) = Some s'" by (auto split: if_splits)
  then show ?thesis by (intro moved_release [where f = "panic_task reads rec" and i = i]) (auto simp: Panic task_ops_move)
next
  case (Drop i reads rec)
  with assms have "sv_mode s = Failed" "releasing i s (on_task s i (drop_task reads rec)) = Some s'" by (auto split: if_splits)
  then show ?thesis by (intro moved_release [where f = "drop_task reads rec" and i = i]) (auto simp: Drop task_ops_move)
qed (use assms in \<open>auto simp: new_task_def [symmetric] list_all_iff split: if_splits
      intro: begun [simplified] lost [simplified] accepted [simplified] stopped servers_done tasks_done failed\<close>)

end
