(* ===== verification/Server_Runs.thy ===== *)
theory Server_Runs
  imports Server
begin

text \<open>
  What holds in every run of the process of theory \<open>Server\<close>: the account of the slots, what each task
  has done by the stage it is in (\<open>task_ok\<close>, against the sequential \<open>process\<close> of theory
  \<open>Pipeline\<close>), what each mode implies (\<open>mode_ok\<close>), and the measure \<open>work_left\<close> that every step
  after the signal lowers.
\<close>

subsection \<open>Runs and their invariants\<close>

lemma server_run_append:
  "server_run X R build s (es @ es') =
     (case server_run X R build s es of None \<Rightarrow> None | Some s' \<Rightarrow> server_run X R build s' es')"
  by (induction es arbitrary: s) (auto split: option.split)

lemma server_run_invariant [consumes 1, case_names init change]:
  assumes "server_run X R build s0 es = Some s" "P [] s0"
    "\<And>es s e s'. P es s \<Longrightarrow> change X R build s e s' \<Longrightarrow> P (es @ [e]) s'"
  shows "P es s"
  using assms(1)
proof (induction es arbitrary: s rule: rev_induct)
  case Nil
  with assms(2) show ?case by simp
next
  case (snoc e es)
  then obtain s1 where s1: "server_run X R build s0 es = Some s1" "server_step X R build s1 e = Some s"
    by (auto simp: server_run_append split: option.splits)
  from assms(3) [OF snoc.IH [OF s1(1)] server_step_change [OF s1(2)]] show ?case .
qed

lemma sum_list_put:
  "i < length xs \<Longrightarrow> sum_list (map f (xs[i := y])) + f (xs ! i) = sum_list (map f xs) + (f y :: nat)"
  by (induction xs arbitrary: i) (auto split: nat.split)

lemma slots_account:
  assumes "server_run X R build (new_server R) es = Some s"
  shows "sv_free s + sum_list (map slot_of (sv_tasks s)) = r_slots R"
  using assms
proof (induction rule: server_run_invariant)
  case init
  then show ?case by (simp add: new_server_def)
next
  case (change es s e s')
  from change(2) show ?case
  proof cases
    case (moved i t' free)
    with sum_list_put [OF moved(2), of slot_of t'] change(1) show ?thesis by simp
  qed (use change(1) in \<open>simp_all add: slot_of_def new_task_def\<close>)
qed

lemma slot_of_count: "sum_list (map slot_of ts) = length (filter (\<lambda>t. submitting (tk_stage t)) ts)"
  by (induction ts) (auto simp: slot_of_def)

subsection \<open>What a task did\<close>

lemma prepare_Inr:
  assumes "prepare X R build rq (new_record X rid d) = Inr (m, rec, acts)"
  shows "unsealed rid rec \<and> list_all is_read acts"
proof -
  have "list_all is_read a" if "read_form X s ct body = (r, a)" for s ct body r a
    using that by (auto simp: read_form_def Let_def is_read_def split: sum.splits if_splits prod.splits)
  with assms show ?thesis
    by (auto simp: prepare_def Let_def unsealed_def new_record_def split: sum.splits prod.splits)
qed

text \<open>The request of a task, run alone with a submission that ended as the task's own session did.\<close>

definition ran_alone :: "crates \<Rightarrow> relay \<Rightarrow> build_fun \<Rightarrow> server_event list \<Rightarrow> nat \<Rightarrow> task \<Rightarrow> response \<Rightarrow> bool" where
  "ran_alone X R build es i t resp \<longleftrightarrow>
     (\<exists>result. process X R build (\<lambda>_. result) (tk_rid t) (tk_request t) = (resp, tk_trace t)
        \<and> (submitted (tk_trace t) = [] \<or> Finish i result \<in> set es))"

text \<open>A started task that was dropped has logged its record, after what it had done by then.\<close>

definition dropped_midway :: "crates \<Rightarrow> relay \<Rightarrow> build_fun \<Rightarrow> task \<Rightarrow> bool" where
  "dropped_midway X R build t \<longleftrightarrow>
     (\<exists>before rec. tk_trace t = before @ [LogRequest rec] \<and> unsealed (tk_rid t) rec
        \<and> (list_all is_read before
           \<or> (\<exists>m reads. prepare X R build (tk_request t) (new_record X (tk_rid t) (rq_domain (tk_request t)))
                = Inr (m, rec, reads) \<and> before = reads @ [Submit m])))"

definition task_ok :: "crates \<Rightarrow> relay \<Rightarrow> build_fun \<Rightarrow> server_event list \<Rightarrow> nat \<Rightarrow> task \<Rightarrow> bool" where
  "task_ok X R build es i t \<longleftrightarrow>
     (let prep = prepare X R build (tk_request t) (new_record X (tk_rid t) (rq_domain (tk_request t)))
      in (case tk_stage t of
            Spawned \<Rightarrow> tk_trace t = []
          | Preparing \<Rightarrow> tk_trace t = []
          | Waiting m rec \<Rightarrow> prep = Inr (m, rec, tk_trace t)
          | Submitting m rec \<Rightarrow> (\<exists>reads. prep = Inr (m, rec, reads) \<and> tk_trace t = reads @ [Submit m])
          | Done resp \<Rightarrow> ran_alone X R build es i t resp
              \<or> (\<exists>reads rec. Panic i reads rec \<in> set es) \<and> dropped_midway X R build t
                \<and> resp = error_response 500 (lit ''Internal Server Error'')
          | Dropped \<Rightarrow> tk_trace t = [] \<or> dropped_midway X R build t)
        \<and> (case tk_client t of Answered resp \<Rightarrow> tk_stage t = Done resp | _ \<Rightarrow> True))"

lemma task_ok_more: "task_ok X R build es i t \<Longrightarrow> task_ok X R build (es @ es') i t"
  by (auto simp: task_ok_def ran_alone_def Let_def split: stage.splits client.splits)

lemma process_prepared:
  assumes "prepare X R build rq (new_record X rid (rq_domain rq)) = Inr (m, rec, reads)"
    "seal (after_session X (r_settings R) m rec result) = (resp, acts)"
  shows "process X R build (\<lambda>_. result) rid rq = (resp, reads @ Submit m # acts)"
proof -
  obtain r rec' a where a: "after_session X (r_settings R) m rec result = (r, rec', a)"
    by (cases "after_session X (r_settings R) m rec result")
  have "seal (r, rec', (reads @ [Submit m]) @ a) = (resp, (reads @ [Submit m]) @ acts)"
    unfolding seal_append using assms(2) a by simp
  then show ?thesis by (simp add: process_split assms(1) a)
qed

lemma process_decided:
  "prepare X R build rq (new_record X rid (rq_domain rq)) = Inl d \<Longrightarrow>
   process X R build submit rid rq = seal d"
  by (simp add: process_split)

lemma dropped_trace_midway:
  assumes "task_ok X R build es i t" "dropped_trace t reads rec = Some acts" "t' = t\<lparr>tk_stage := g, tk_trace := tk_trace t @ acts\<rparr>"
  shows "tk_stage t = Spawned \<and> tk_trace t' = [] \<or> dropped_midway X R build t'"
proof (cases "tk_stage t")
  case Spawned
  with assms show ?thesis by (auto simp: task_ok_def dropped_trace_def Let_def split: if_splits)
next
  case Preparing
  with assms show ?thesis
    by (auto simp: task_ok_def dropped_trace_def dropped_midway_def Let_def split: if_splits)
next
  case (Waiting m r)
  with assms have p: "prepare X R build (tk_request t) (new_record X (tk_rid t) (rq_domain (tk_request t)))
      = Inr (m, r, tk_trace t)" and a: "acts = [LogRequest r]"
    by (auto simp: task_ok_def dropped_trace_def Let_def split: if_splits)
  from prepare_Inr [OF p] show ?thesis by (auto simp: dropped_midway_def assms(3) a)
next
  case (Submitting m r)
  with assms obtain reads' where p: "prepare X R build (tk_request t) (new_record X (tk_rid t) (rq_domain (tk_request t)))
      = Inr (m, r, reads')" and a: "acts = [LogRequest r]" "tk_trace t = reads' @ [Submit m]"
    by (auto simp: task_ok_def dropped_trace_def Let_def split: if_splits)
  from prepare_Inr [OF p] p show ?thesis by (auto simp: dropped_midway_def assms(3) a)
qed (use assms in \<open>auto simp: dropped_trace_def\<close>)

lemma reads_not_submitted: "list_all is_read acts \<Longrightarrow> submitted acts = []"
  by (induction acts rule: submitted.induct) (auto simp: is_read_def)

lemma decided_submits_nothing:
  assumes "prepare X R build rq rec = Inl d" "seal d = (resp, acts)"
  shows "submitted acts = []"
proof -
  have "list_all is_read a" if "read_form X s ct body = (r, a)" for s ct body r a
    using that by (auto simp: read_form_def Let_def is_read_def split: sum.splits if_splits prod.splits)
  note reads = reads_not_submitted [OF this]
  with assms show ?thesis
    by (auto simp: prepare_def Let_def seal_def split: sum.splits prod.splits dest!: reads)
qed

lemma move_task_ok:
  assumes "move X R build i e t t'" "task_ok X R build es i t"
  shows "task_ok X R build (es @ [e]) i t'"
  using assms(1)
proof cases
  case (decided d resp acts)
  from decided(4,5) have "process X R build (\<lambda>_. r) (tk_rid t) (tk_request t) = (resp, acts)" for r
    by (simp add: process_decided)
  with decided assms(2) decided_submits_nothing [OF decided(4,5)] show ?thesis
    by (auto simp: task_ok_def ran_alone_def Let_def split: client.splits)
next
  case (session_ended m rec result resp acts)
  from session_ended(3) assms(2) obtain reads where
    r: "prepare X R build (tk_request t) (new_record X (tk_rid t) (rq_domain (tk_request t))) = Inr (m, rec, reads)"
      "tk_trace t = reads @ [Submit m]"
    by (auto simp: task_ok_def Let_def)
  have "process X R build (\<lambda>_. result) (tk_rid t) (tk_request t) = (resp, tk_trace t @ acts)"
    using process_prepared [OF r(1) session_ended(4)] by (simp add: r(2))
  then have "ran_alone X R build (es @ [e]) i t' resp"
    unfolding ran_alone_def session_ended(1,2) by (intro exI [of _ result]) simp
  with session_ended assms(2) show ?thesis by (auto simp: task_ok_def Let_def split: client.splits)
next
  case (panicked reads rec acts)
  from dropped_trace_midway [OF assms(2) panicked(4) panicked(2)] panicked(3)
  have "dropped_midway X R build t'" by auto
  with panicked assms(2) show ?thesis by (fastforce simp: task_ok_def Let_def split: client.splits stage.splits)
next
  case (dropped reads rec acts)
  from dropped_trace_midway [OF assms(2) dropped(3) dropped(2)] dropped assms(2) show ?thesis
    by (auto simp: task_ok_def Let_def dropped_trace_def split: client.splits stage.splits)
qed (use assms(2) in \<open>auto simp: task_ok_def ran_alone_def dropped_midway_def Let_def split: client.splits stage.splits\<close>)

lemma tasks_ok:
  assumes "server_run X R build (new_server R) es = Some s"
  shows "\<forall>i < length (sv_tasks s). task_ok X R build es i (sv_tasks s ! i)"
  using assms
proof (induction rule: server_run_invariant)
  case init
  then show ?case by (simp add: new_server_def)
next
  case (change es s e s')
  from change(2) show ?case
  proof cases
    case (accepted rid rq)
    have "task_ok X R build es' i (new_task rid rq)" for es' i by (simp add: task_ok_def new_task_def)
    with accepted change(1) show ?thesis by (auto simp: nth_append less_Suc_eq intro: task_ok_more)
  next
    case (moved i t' free)
    with change(1) show ?thesis
      by (auto simp: nth_list_update intro: task_ok_more move_task_ok)
  qed (use change(1) in \<open>auto intro: task_ok_more\<close>)
qed

subsection \<open>Every started request is logged once\<close>

lemma process_logs_once:
  assumes "process X R build submit rid rq = (resp, acts)"
  shows "length (filter is_request_line acts) = 1"
proof -
  have reads: "filter is_request_line as = []" if "\<forall>a \<in> set as. \<exists>n. a = Read n" for as
    using that by (auto simp: filter_empty_conv)
  show ?thesis
    using assms by (cases rule: process_cases) (auto simp: reads)
qed

lemma reads_not_lines: "list_all is_read acts \<Longrightarrow> filter is_request_line acts = []"
  by (induction acts) (auto simp: is_read_def split: action.splits)

lemma midway_logs_once:
  assumes "dropped_midway X R build t"
  shows "length (filter is_request_line (tk_trace t)) = 1"
  using assms reads_not_lines prepare_Inr by (fastforce simp: dropped_midway_def)

text \<open>How many records a task has logged.\<close>

fun logged_lines :: "task \<Rightarrow> nat" where
  "logged_lines t = length (filter is_request_line (tk_trace t))"

lemma task_ok_logged:
  assumes "task_ok X R build es i t"
  shows "logged_lines t = (case tk_stage t of Done _ \<Rightarrow> 1 | Dropped \<Rightarrow> (if tk_trace t = [] then 0 else 1) | _ \<Rightarrow> 0)"
proof (cases "tk_stage t")
  case (Waiting m rec)
  with assms have "list_all is_read (tk_trace t)" by (auto simp: task_ok_def Let_def dest: prepare_Inr)
  with Waiting show ?thesis by (simp add: reads_not_lines)
next
  case (Submitting m rec)
  with assms obtain reads where "list_all is_read reads" "tk_trace t = reads @ [Submit m]"
    by (auto simp: task_ok_def Let_def dest: prepare_Inr)
  with Submitting show ?thesis by (simp add: reads_not_lines)
qed (use assms in \<open>auto simp: task_ok_def ran_alone_def Let_def process_logs_once midway_logs_once\<close>)

text \<open>Which tasks were started: the log of events says so, and only a task that was not can end without
  a trace.\<close>

definition start_ok :: "server_event list \<Rightarrow> nat \<Rightarrow> task \<Rightarrow> bool" where
  "start_ok es i t \<longleftrightarrow>
     (case tk_stage t of
        Spawned \<Rightarrow> Start i \<notin> set es
      | Dropped \<Rightarrow> (tk_trace t = [] \<longleftrightarrow> Start i \<notin> set es)
      | _ \<Rightarrow> Start i \<in> set es)"

lemma start_ok_more: "start_ok es i t \<Longrightarrow> e \<noteq> Start i \<Longrightarrow> start_ok (es @ [e]) i t"
  by (auto simp: start_ok_def split: stage.splits)

lemma start_ok_trace: "task_ok X R build es i t \<Longrightarrow> tk_stage t = Spawned \<Longrightarrow> tk_trace t = []"
  by (simp add: task_ok_def Let_def)

lemma move_start_ok:
  assumes "move X R build i e t t'" "start_ok es i t" "task_ok X R build es i t"
  shows "start_ok (es @ [e]) i t'"
  using assms(1)
proof cases
  case (dropped reads rec acts)
  with assms(2,3) show ?thesis
    by (auto simp: start_ok_def dropped_trace_def dest: start_ok_trace split: stage.splits if_splits)
qed (use assms(2) in \<open>auto simp: start_ok_def elim!: submitting.elims split: stage.splits\<close>)

lemma move_event: "move X R build i e t t' \<Longrightarrow> e = Start j \<Longrightarrow> j = i"
  by (induction rule: move.induct) auto

lemma starts_ok:
  assumes "server_run X R build (new_server R) es = Some s"
  shows "(\<forall>i < length (sv_tasks s). task_ok X R build es i (sv_tasks s ! i) \<and> start_ok es i (sv_tasks s ! i))
     \<and> (\<forall>j. Start j \<in> set es \<longrightarrow> j < length (sv_tasks s))"
proof -
  have "(\<forall>i < length (sv_tasks s). start_ok es i (sv_tasks s ! i)
       \<and> task_ok X R build es i (sv_tasks s ! i)) \<and> (\<forall>j. Start j \<in> set es \<longrightarrow> j < length (sv_tasks s))"
    using assms
  proof (induction rule: server_run_invariant)
    case init
    then show ?case by (simp add: new_server_def)
  next
    case (change es s e s')
    from change(2) show ?case
    proof cases
      case (accepted rid rq)
      have "start_ok (es @ [e]) (length (sv_tasks s)) (new_task rid rq)"
        using change(1) accepted by (auto simp: start_ok_def new_task_def)
      moreover have "task_ok X R build es' i (new_task rid rq)" for es' i by (simp add: task_ok_def new_task_def)
      ultimately show ?thesis using accepted change(1)
        by (auto simp: nth_append less_Suc_eq intro: task_ok_more start_ok_more)
    next
      case (moved i t' free)
      have other: "e \<noteq> Start j" if "j \<noteq> i" for j using move_event [OF moved(3)] that by auto
      with moved change(1) show ?thesis
        by (auto simp: nth_list_update intro: task_ok_more move_task_ok start_ok_more move_start_ok
            dest: move_event [OF moved(3)])
    qed (use change(1) in \<open>auto intro: task_ok_more start_ok_more\<close>)
  qed
  then show ?thesis by blast
qed

subsection \<open>Shutdown ends\<close>

fun stage_rank :: "stage \<Rightarrow> nat" where
  "stage_rank Spawned = 4"
| "stage_rank Preparing = 3"
| "stage_rank (Waiting _ _) = 2"
| "stage_rank (Submitting _ _) = 1"
| "stage_rank _ = 0"

definition task_weight :: "task \<Rightarrow> nat" where
  "task_weight t = stage_rank (tk_stage t) + (if tk_client t = Connected then 1 else 0)"

fun mode_rank :: "mode \<Rightarrow> nat" where
  "mode_rank Running = 3"
| "mode_rank Draining = 2"
| "mode_rank Closing = 1"
| "mode_rank _ = 0"

definition work_left :: "server \<Rightarrow> nat" where
  "work_left s = 6 * sv_heads s + sum_list (map task_weight (sv_tasks s)) + mode_rank (sv_mode s)"

lemma move_decreases: "move X R build i e t t' \<Longrightarrow> task_weight t' < task_weight t"
  by (induction rule: move.induct)
    (auto simp: task_weight_def dropped_trace_def elim!: submitting.elims split: stage.splits if_splits)

lemma change_decreases:
  assumes "change X R build s e s'" "sv_mode s \<noteq> Running"
  shows "work_left s' < work_left s \<and> sv_mode s' \<noteq> Running"
  using assms(1)
proof cases
  case (moved i t' free)
  from move_decreases [OF moved(3)] sum_list_put [OF moved(2), of task_weight t'] moved(1) assms(2)
  show ?thesis by (simp add: work_left_def)
next
  case (accepted rid rq)
  then show ?thesis
    using assms(2) by (cases "sv_heads s") (auto simp: work_left_def task_weight_def new_task_def)
qed (use assms(2) in \<open>auto simp: work_left_def\<close>)

lemma run_decreases:
  "server_run X R build s es = Some s' \<Longrightarrow> sv_mode s \<noteq> Running \<Longrightarrow> length es + work_left s' \<le> work_left s"
proof (induction es arbitrary: s)
  case (Cons e es)
  then obtain s1 where s1: "server_step X R build s e = Some s1" "server_run X R build s1 es = Some s'"
    by (auto split: option.splits)
  from change_decreases [OF server_step_change [OF s1(1)] Cons.prems(2)] Cons.IH [OF s1(2)]
  show ?case by simp
qed simp

lemma work_left_bound: "sv_mode s \<noteq> Running \<Longrightarrow> work_left s \<le> 6 * sv_heads s + (5 * length (sv_tasks s) + 2)"
proof -
  have "task_weight t \<le> 5" for t by (cases "tk_stage t") (auto simp: task_weight_def)
  then have "sum_list (map task_weight ts) \<le> 5 * length ts" for ts
    by (induction ts) (auto simp: add_le_mono)
  moreover assume "sv_mode s \<noteq> Running"
  then have "mode_rank (sv_mode s) \<le> 2" by (cases "sv_mode s") auto
  ultimately show ?thesis
    unfolding work_left_def add.assoc by (intro add_le_mono order_refl)
qed

lemma move_client: "move X R build i e t t' \<Longrightarrow> tk_client t \<noteq> Connected \<Longrightarrow> tk_client t' \<noteq> Connected"
  by (induction rule: move.induct) auto

lemma move_finished: "move X R build i e t t' \<Longrightarrow> finished (tk_stage t) \<Longrightarrow> finished (tk_stage t')"
  by (induction rule: move.induct) (auto simp: dropped_trace_def elim: finished.elims submitting.elims)

lemma move_Dropped:
  "move X R build i e t t' \<Longrightarrow> tk_stage t' = Dropped \<Longrightarrow> tk_stage t = Dropped \<or> (\<exists>reads rec. e = Drop i reads rec)"
  by (induction rule: move.induct) auto

definition mode_ok :: "mode \<Rightarrow> task \<Rightarrow> bool" where
  "mode_ok md t \<longleftrightarrow>
     (md = Failed \<or> tk_stage t \<noteq> Dropped)
     \<and> (md \<in> {Closing, Exited} \<longrightarrow> tk_client t \<noteq> Connected)
     \<and> (md = Exited \<longrightarrow> finished (tk_stage t))"

lemma move_mode_ok:
  assumes "move X R build i e t t'" "mode_ok md t" "(\<exists>reads rec. e = Drop i reads rec) \<longrightarrow> md = Failed"
  shows "mode_ok md t'"
  using move_client [OF assms(1)] move_finished [OF assms(1)] move_Dropped [OF assms(1)] assms(2,3)
  unfolding mode_ok_def by blast

lemma modes_ok:
  assumes "server_run X R build (new_server R) es = Some s"
  shows "\<forall>t \<in> set (sv_tasks s). mode_ok (sv_mode s) t"
  using assms
proof (induction rule: server_run_invariant)
  case init
  then show ?case by (simp add: new_server_def)
next
  case (change es s e s')
  from change(2) show ?case
  proof cases
    case (moved i t' free)
    with change(1) have "mode_ok (sv_mode s) t'" using move_mode_ok [OF moved(3)] by simp
    with change(1) moved(1) show ?thesis using set_update_subset_insert [of "sv_tasks s" i t'] by auto
  qed (use change(1) in \<open>auto simp: mode_ok_def new_task_def\<close>)
qed

text \<open>The steps of an orderly end: clients finish the requests they began and take their answers,
  sessions end, nothing fails.\<close>

fun orderly :: "server_event \<Rightarrow> bool" where
  "orderly (Accept _ _) = True"
| "orderly (Start _) = True"
| "orderly (Prepare _) = True"
| "orderly (Grant _) = True"
| "orderly (Finish _ _) = True"
| "orderly (Deliver _) = True"
| "orderly ServersDone = True"
| "orderly TasksDone = True"
| "orderly _ = False"

lemma step_on_task:
  "i < length (sv_tasks s) \<Longrightarrow> f (sv_tasks s ! i) = Some t' \<Longrightarrow> on_task s i f = Some (put_task s i t')"
  by (simp add: on_task_Some_iff)

lemma task_can_move:
  assumes "i < length (sv_tasks s)" "up s" "\<not> finished (tk_stage (sv_tasks s ! i))"
    "0 < sv_free s \<or> submitting (tk_stage (sv_tasks s ! i))"
  shows "\<exists>e s'. orderly e \<and> server_step X R build s e = Some s'"
proof (cases "tk_stage (sv_tasks s ! i)")
  case Spawned
  then have "start_task (sv_tasks s ! i) \<noteq> None" by (simp add: start_task_def)
  with assms(1,2) have "server_step X R build s (Start i) \<noteq> None" by (auto simp: step_on_task)
  then show ?thesis by (metis not_Some_eq orderly.simps(2))
next
  case Preparing
  then have "prepare_task X R build (sv_tasks s ! i) \<noteq> None"
    by (simp add: prepare_task_def split: sum.split prod.split)
  with assms(1,2) have "server_step X R build s (Prepare i) \<noteq> None" by (auto simp: step_on_task)
  then show ?thesis by (metis not_Some_eq orderly.simps(3))
next
  case (Waiting m rec)
  then have "grant_task (sv_tasks s ! i) \<noteq> None" by (simp add: grant_task_def)
  with assms Waiting have "server_step X R build s (Grant i) \<noteq> None" by (auto simp: step_on_task)
  then show ?thesis by (metis not_Some_eq orderly.simps(4))
next
  case (Submitting m rec)
  then have "finish_task X R (Inl Temporary) (sv_tasks s ! i) \<noteq> None"
    by (simp add: finish_task_def split: prod.split)
  with assms(1,2) have "server_step X R build s (Finish i (Inl Temporary)) \<noteq> None"
    by (auto simp: step_on_task releasing_def)
  then show ?thesis by (metis not_Some_eq orderly.simps(5))
qed (use assms in auto)

text \<open>While the shutdown is not over, the process can go on: no slot is missing, nobody waits for ever.\<close>

lemma shutdown_progress:
  assumes "sv_free s + sum_list (map slot_of (sv_tasks s)) = r_slots R" "\<forall>t \<in> set (sv_tasks s). mode_ok (sv_mode s) t" "0 < r_slots R"
    "sv_mode s = Draining \<or> sv_mode s = Closing"
  shows "\<exists>e s'. orderly e \<and> server_step X R build s e = Some s'"
proof (cases "\<forall>t \<in> set (sv_tasks s). finished (tk_stage t)")
  case False
  have up: "up s" using assms(4) by (auto simp: up_def)
  show ?thesis
  proof (cases "sv_free s")
    case 0
    with assms(1,3) have "sum_list (map slot_of (sv_tasks s)) \<noteq> 0" by simp
    then obtain t where "t \<in> set (sv_tasks s)" "slot_of t \<noteq> 0" by (auto simp: sum_list_eq_0_iff)
    then obtain i where i: "i < length (sv_tasks s)" "submitting (tk_stage (sv_tasks s ! i))"
      by (auto simp: slot_of_def in_set_conv_nth split: if_splits)
    then have "\<not> finished (tk_stage (sv_tasks s ! i))" by (auto elim: submitting.elims)
    with task_can_move [OF i(1) up] i(2) show ?thesis by blast
  next
    case (Suc n)
    from False obtain i where "i < length (sv_tasks s)" "\<not> finished (tk_stage (sv_tasks s ! i))"
      by (auto simp: in_set_conv_nth)
    with task_can_move [of i s, OF _ up] Suc show ?thesis by simp
  qed
next
  case True
  show ?thesis
  proof (cases "\<exists>t \<in> set (sv_tasks s). tk_client t = Connected")
    case False
    show ?thesis
    proof (cases "sv_mode s = Draining \<and> 0 < sv_heads s")
      case heads: True
      then have "server_step X R build s (Accept rid rq) \<noteq> None" for rid rq by simp
      then show ?thesis by (metis not_Some_eq orderly.simps(1))
    next
      case no_heads: False
      with False have "server_step X R build s (if sv_mode s = Draining then ServersDone else TasksDone) \<noteq> None"
        using assms(4) True by (auto simp: list_all_iff)
      then show ?thesis by (metis not_Some_eq orderly.simps(7,8))
    qed
  next
    case c: True
    then obtain i where i: "i < length (sv_tasks s)" "tk_client (sv_tasks s ! i) = Connected"
      by (auto simp: in_set_conv_nth)
    with True have "finished (tk_stage (sv_tasks s ! i))" by simp
    moreover have "tk_stage (sv_tasks s ! i) \<noteq> Dropped" using assms(2,4) i(1) by (auto simp: mode_ok_def)
    ultimately have "deliver_task (sv_tasks s ! i) \<noteq> None"
      using i(2) by (auto simp: deliver_task_def elim: finished.elims)
    with i(1) assms(4) have "server_step X R build s (Deliver i) \<noteq> None" by (auto simp: step_on_task up_def)
    then show ?thesis by (metis not_Some_eq orderly.simps(6))
  qed
qed

lemma shutdown_runs_out:
  assumes "server_run X R build (new_server R) es = Some s" "0 < r_slots R" "sv_mode s \<in> {Draining, Closing}"
  shows "\<exists>es' s'. list_all orderly es' \<and> server_run X R build s es' = Some s' \<and> sv_mode s' = Exited"
  using assms(1,3)
proof (induction "work_left s" arbitrary: s es rule: less_induct)
  case less
  obtain e s1 where e: "orderly e" "server_step X R build s e = Some s1"
    using shutdown_progress [OF slots_account [OF less.prems(1)] modes_ok [OF less.prems(1)] assms(2)] less.prems(2)
    by blast
  from e(2) have c: "change X R build s e s1" by (rule server_step_change)
  from less.prems(1) e(2) have run: "server_run X R build (new_server R) (es @ [e]) = Some s1"
    by (simp add: server_run_append)
  from c e(1) less.prems(2) consider "sv_mode s1 \<in> {Draining, Closing}" | "sv_mode s1 = Exited"
    by cases auto
  then show ?case
  proof cases
    case 1
    have "work_left s1 < work_left s" using change_decreases [OF c] less.prems(2) by auto
    from less.hyps [OF this run 1] obtain es' s' where
      "list_all orderly es'" "server_run X R build s1 es' = Some s'" "sv_mode s' = Exited" by blast
    with e show ?thesis by (intro exI [of _ "e # es'"] exI [of _ s']) simp
  next
    case 2
    with e show ?thesis by (intro exI [of _ "[e]"] exI [of _ s1]) simp
  qed
qed

lemma run_not_running:
  "server_run X R build s es = Some s' \<Longrightarrow> sv_mode s \<noteq> Running \<Longrightarrow> sv_mode s' \<noteq> Running"
proof (induction es arbitrary: s)
  case (Cons e es)
  then show ?case using change_decreases [OF server_step_change] by (fastforce split: option.splits)
qed simp

lemma failed_by_event:
  assumes "server_run X R build (new_server R) es = Some s" "sv_mode s = Failed"
  shows "ServerFailed \<in> set es"
proof -
  have "sv_mode s = Failed \<longrightarrow> ServerFailed \<in> set es"
    using assms(1)
  proof (induction rule: server_run_invariant)
    case init
    then show ?case by (simp add: new_server_def)
  next
    case (change es s e s')
    from change(2) show ?case by cases (use change(1) in auto)
  qed
  with assms(2) show ?thesis by blast
qed

text \<open>A process that has ended regularly holds no slot.\<close>

lemma exited_free:
  assumes "server_run X R build (new_server R) es = Some s" "sv_mode s = Exited"
  shows "sv_free s = r_slots R"
proof -
  have "\<forall>t \<in> set (sv_tasks s). slot_of t = 0"
    using modes_ok [OF assms(1)] assms(2) by (auto simp: mode_ok_def slot_of_def elim!: submitting.elims)
  then have "sum_list (map slot_of (sv_tasks s)) = 0" by (simp add: sum_list_eq_0_iff)
  with slots_account [OF assms(1)] show ?thesis by simp
qed

lemma exited_tasks:
  assumes "server_run X R build (new_server R) es = Some s" "sv_mode s = Exited" "t \<in> set (sv_tasks s)"
  shows "logged_lines t = 1 \<and> (\<exists>resp. tk_stage t = Done resp \<and> tk_client t \<in> {Answered resp, Gone})"
proof -
  from assms(3) obtain i where i: "i < length (sv_tasks s)" "t = sv_tasks s ! i" by (auto simp: in_set_conv_nth)
  have ok: "task_ok X R build es i t" using tasks_ok [OF assms(1)] i by simp
  have "mode_ok Exited t" using modes_ok [OF assms(1)] assms(2,3) by auto
  then obtain resp where d: "tk_stage t = Done resp" "tk_client t \<noteq> Connected"
    by (auto simp: mode_ok_def elim: finished.elims)
  with ok have "tk_client t \<in> {Answered resp, Gone}"
    by (cases "tk_client t") (auto simp: task_ok_def Let_def)
  with d task_ok_logged [OF ok] show ?thesis by (auto simp del: logged_lines.simps)
qed

subsection \<open>Properties\<close>

text \<open>C6: the number of concurrent SMTP sessions is bounded: whatever requests come in and however their
  tasks are interleaved, at most \<open>SMTP_MAX_CONCURRENCY\<close> sessions run at a time, and no slot is
  ever lost, by a failed session, a panic or a client that went away.\<close>

theorem sessions_bounded:
  assumes "server_run X (new_relay max_permits st policies) build (new_server (new_relay max_permits st policies)) es = Some s"
  shows "length (filter (\<lambda>t. submitting (tk_stage t)) (sv_tasks s)) \<le> unat (smtp_max_concurrency st)
     \<and> sv_free s + length (filter (\<lambda>t. submitting (tk_stage t)) (sv_tasks s))
        = min (unat (smtp_max_concurrency st)) max_permits"
  using slots_account [OF assms] unfolding slot_of_count by (auto simp: new_relay_def)

lemma process_submits:
  assumes "process X R build submit rid rq = (resp, acts)" "m \<in> set (submitted acts)"
  shows "submitted acts = [m] \<and> (\<exists>policy parsed input. accepted_request X R build rq policy parsed input m)"
  using assms(1)
proof (cases rule: process_cases)
  case (failed policy parsed input m' e reads rec)
  with assms(2) show ?thesis by (auto simp: submitted_reads)
next
  case (sent policy parsed input m' refused reads rec logged)
  with assms(2) submitted_logged [OF sent(7)] show ?thesis by (auto simp: submitted_reads)
qed (use assms(2) in \<open>auto simp: submitted_reads\<close>)

lemma prepared_submits:
  assumes "prepare X R build rq (new_record X rid (rq_domain rq)) = Inr (m, rec, reads)"
  shows "\<exists>policy parsed input. accepted_request X R build rq policy parsed input m"
proof -
  obtain resp acts where s: "seal (after_session X (r_settings R) m rec (Inl Temporary)) = (resp, acts)"
    by fastforce
  from process_submits [OF process_prepared [OF assms s], of m] show ?thesis by simp
qed

lemma task_ok_submits:
  assumes "task_ok X R build es i t" "m \<in> set (submitted (tk_trace t))"
  shows "submitted (tk_trace t) = [m]
     \<and> (\<exists>policy parsed input. accepted_request X R build (tk_request t) policy parsed input m)"
proof -
  have reads: "list_all is_read as \<Longrightarrow> submitted as = []" for as by (rule reads_not_submitted)
  have midway: ?thesis if d: "dropped_midway X R build t"
  proof -
    from d assms(2) obtain m' rec as where
      p: "prepare X R build (tk_request t) (new_record X (tk_rid t) (rq_domain (tk_request t))) = Inr (m', rec, as)"
      and "tk_trace t = as @ [Submit m', LogRequest rec]"
      by (auto simp: dropped_midway_def reads)
    then have "submitted (tk_trace t) = [m']" using prepare_Inr [OF p] by (simp add: reads)
    with assms(2) prepared_submits [OF p] show ?thesis by simp
  qed
  show ?thesis
  proof (cases "tk_stage t")
    case (Submitting m' rec)
    with assms obtain as where a: "prepare X R build (tk_request t) (new_record X (tk_rid t) (rq_domain (tk_request t)))
        = Inr (m', rec, as)" "tk_trace t = as @ [Submit m']" by (auto simp: task_ok_def Let_def)
    with prepare_Inr [OF a(1)] reads assms(2) prepared_submits [OF a(1)] show ?thesis by auto
  next
    case (Waiting m' rec)
    with assms show ?thesis by (auto simp: task_ok_def Let_def reads dest!: prepare_Inr)
  next
    case (Done resp)
    with assms(1) consider "ran_alone X R build es i t resp" | "dropped_midway X R build t"
      by (auto simp: task_ok_def Let_def)
    then show ?thesis
    proof cases
      case 1
      then obtain result where "process X R build (\<lambda>_. result) (tk_rid t) (tk_request t) = (resp, tk_trace t)"
        by (auto simp: ran_alone_def)
      from process_submits [OF this assms(2)] show ?thesis .
    qed (rule midway)
  qed (use assms midway in \<open>auto simp: task_ok_def Let_def\<close>)
qed

text \<open>C4: under concurrency, too, mail is only sent for someone who may send it: at every moment of the
  process, a task that has handed a message to an SMTP session, finished or not, has handed over
  only this one, and its request passed every check of the pipeline for it.\<close>

theorem concurrent_submissions_authorised:
  assumes "server_run X R build (new_server R) es = Some s" "i < length (sv_tasks s)"
    "m \<in> set (submitted (tk_trace (sv_tasks s ! i)))"
  shows "submitted (tk_trace (sv_tasks s ! i)) = [m]
     \<and> (\<exists>policy parsed input. accepted_request X R build (tk_request (sv_tasks s ! i)) policy parsed input m
          \<and> (\<exists>path. normalize_domain X (rq_domain (tk_request (sv_tasks s ! i))) = Ok path
                \<and> permits policy path (in_from input)))"
proof -
  from tasks_ok [OF assms(1)] assms(2) have "task_ok X R build es i (sv_tasks s ! i)" by simp
  from task_ok_submits [OF this assms(3)] show ?thesis
    by (auto simp: accepted_request_def message_of_def and_then_Inr_iff map_err_Inr_iff Let_def
        enforce_policy_Ok_iff split: if_split_asm)
qed

text \<open>C5: concurrency does not show: the response of a request and everything it did are those of the
  request run alone, with a session that ended as its own session did, and its client got exactly
  this response if it waited; the only exception is a panic of its own task, which is a 500.\<close>

theorem requests_run_alone:
  assumes "server_run X R build (new_server R) es = Some s" "i < length (sv_tasks s)"
    "tk_stage (sv_tasks s ! i) = Done resp"
  shows "((\<exists>result. process X R build (\<lambda>_. result) (tk_rid (sv_tasks s ! i)) (tk_request (sv_tasks s ! i))
              = (resp, tk_trace (sv_tasks s ! i))
            \<and> (submitted (tk_trace (sv_tasks s ! i)) = [] \<or> Finish i result \<in> set es))
          \<or> (\<exists>reads rec. Panic i reads rec \<in> set es)
            \<and> resp = error_response 500 (lit ''Internal Server Error''))
     \<and> tk_client (sv_tasks s ! i) \<in> {Connected, Answered resp, Gone}"
proof -
  have ok: "task_ok X R build es i (sv_tasks s ! i)" using tasks_ok [OF assms(1)] assms(2) by simp
  then have "tk_client (sv_tasks s ! i) \<in> {Connected, Answered resp, Gone}"
    using assms(3) by (cases "tk_client (sv_tasks s ! i)") (auto simp: task_ok_def Let_def)
  with ok assms(3) show ?thesis by (auto simp: task_ok_def ran_alone_def Let_def)
qed

text \<open>C14: at every moment of the process a request whose task was started has been logged exactly once if
  it is over, also when its task panicked or was dropped by a failing process, and not at all
  before; a request that is not over or whose task never ran has no record, and only a failing
  process leaves one without.\<close>

theorem logged_when_over:
  assumes "server_run X R build (new_server R) es = Some s" "i < length (sv_tasks s)"
  shows "length (filter is_request_line (tk_trace (sv_tasks s ! i)))
      = (if finished (tk_stage (sv_tasks s ! i)) \<and> Start i \<in> set es then 1 else 0)
     \<and> (finished (tk_stage (sv_tasks s ! i)) \<and> Start i \<notin> set es \<longrightarrow> ServerFailed \<in> set es)"
proof -
  have ok: "task_ok X R build es i (sv_tasks s ! i)" "start_ok es i (sv_tasks s ! i)"
    using starts_ok [OF assms(1)] assms(2) by blast+
  have "ServerFailed \<in> set es" if "tk_stage (sv_tasks s ! i) = Dropped"
    using modes_ok [OF assms(1)] failed_by_event [OF assms(1)] assms(2) that by (auto simp: mode_ok_def)
  with task_ok_logged [OF ok(1)] ok(2) show ?thesis
    by (auto simp: start_ok_def split: stage.splits)
qed

text \<open>C8: the shutdown ends whatever happens: every run after the signal is finite, its length bounded by
  the requests at hand, and it cannot hang: wherever it has got, either the process has reached its
  regular end, with every request over and every slot free, or a server has failed, or an orderly
  step is possible, so that no request waits for a slot that nobody gives back.\<close>

theorem shutdown_bounded:
  assumes "server_run X R build (new_server R) es = Some s" "0 < r_slots R" "sv_mode s \<in> {Draining, Closing}"
    "server_run X R build s es' = Some s'"
  shows "length es' \<le> 6 * sv_heads s + 5 * length (sv_tasks s) + 2
     \<and> (sv_mode s' = Exited \<and> list_all (\<lambda>t. finished (tk_stage t)) (sv_tasks s') \<and> sv_free s' = r_slots R
        \<or> ServerFailed \<in> set (es @ es')
        \<or> (\<exists>e. orderly e \<and> server_step X R build s' e \<noteq> None))"
proof
  have "sv_mode s \<noteq> Running" using assms(3) by auto
  with run_decreases [OF assms(4) this] work_left_bound [OF this]
  show "length es' \<le> 6 * sv_heads s + 5 * length (sv_tasks s) + 2" by linarith
  from assms(1,4) have r: "server_run X R build (new_server R) (es @ es') = Some s'"
    by (simp add: server_run_append)
  have up: "sv_mode s' \<noteq> Running" using run_not_running [OF assms(4)] assms(3) by auto
  show "sv_mode s' = Exited \<and> list_all (\<lambda>t. finished (tk_stage t)) (sv_tasks s') \<and> sv_free s' = r_slots R
      \<or> ServerFailed \<in> set (es @ es') \<or> (\<exists>e. orderly e \<and> server_step X R build s' e \<noteq> None)"
  proof (cases "sv_mode s'")
    case Exited
    with exited_free [OF r] modes_ok [OF r] show ?thesis by (auto simp: mode_ok_def list_all_iff)
  next
    case Failed
    with failed_by_event [OF r] show ?thesis by blast
  qed (use up shutdown_progress [OF slots_account [OF r] modes_ok [OF r] assms(2)] in blast)+
qed

text \<open>C7: the shutdown completes: from every point after the signal the process can reach its regular
  end without any request being lost, if the clients finish what they began and the sessions end:
  then every accepted request is over and was logged once, and every client that did not leave
  has its response.\<close>

theorem shutdown_completes:
  assumes "server_run X R build (new_server R) es = Some s" "0 < r_slots R" "sv_mode s \<in> {Draining, Closing}"
  shows "\<exists>es' s'. list_all orderly es' \<and> server_run X R build s es' = Some s' \<and> sv_mode s' = Exited
     \<and> (\<forall>t \<in> set (sv_tasks s'). length (filter is_request_line (tk_trace t)) = 1
          \<and> (\<exists>resp. tk_stage t = Done resp \<and> tk_client t \<in> {Answered resp, Gone}))"
proof -
  from shutdown_runs_out [OF assms] obtain es' s' where r: "list_all orderly es'"
    "server_run X R build s es' = Some s'" "sv_mode s' = Exited" by blast
  with assms(1) have "server_run X R build (new_server R) (es @ es') = Some s'"
    by (simp add: server_run_append)
  from exited_tasks [OF this r(3)] r show ?thesis by (intro exI [of _ es'] exI [of _ s']) simp
qed

subsection \<open>Two requests and one slot\<close>

definition demo_one_slot :: relay where
  "demo_one_slot = new_relay 1 demo_settings (r_tokens demo_relay)"

definition demo_events :: "server_event list" where
  "demo_events = [Head, Head, Accept (lit ''r1'') demo_request, Start 0, Accept (lit ''r2'') (demo_request\<lparr>rq_authorization := None\<rparr>),
     Prepare 0, Grant 0, Disconnect 0, StopSignal, Start 1]"

abbreviation demo_server_run :: "server_event list \<Rightarrow> server option" where
  "demo_server_run \<equiv> server_run ascii_crates demo_one_slot demo_build (new_server demo_one_slot)"

lemma demo_draining:
  obtains s where "demo_server_run demo_events = Some s" "sv_mode s = Draining" "sv_free s = 0"
    "length (sv_tasks s) = 2"
proof -
  have "case demo_server_run demo_events of
      None \<Rightarrow> False | Some s \<Rightarrow> sv_mode s = Draining \<and> sv_free s = 0 \<and> length (sv_tasks s) = 2"
    by code_simp
  with that show thesis by (auto split: option.splits)
qed

definition demo_rest :: "server_event list" where
  "demo_rest = [Finish 0 (Ok []), Prepare 1, Deliver 1, ServersDone, TasksDone]"

lemma demo_exited:
  obtains s resp where "demo_server_run (demo_events @ demo_rest) = Some s" "sv_mode s = Exited"
    "length (sv_tasks s) = 2" "tk_stage (sv_tasks s ! 0) = Done resp" "rs_status resp = 200"
proof -
  have "case demo_server_run (demo_events @ demo_rest) of
      None \<Rightarrow> False | Some s \<Rightarrow> sv_mode s = Exited \<and> length (sv_tasks s) = 2
        \<and> (case tk_stage (sv_tasks s ! 0) of Done resp \<Rightarrow> rs_status resp = 200 | _ \<Rightarrow> False)"
    by code_simp
  with that show thesis by (auto split: option.splits stage.splits)
qed

theorem concurrent_submissions_authorised_witness:
  "\<exists>s (policy :: token_policy) path (input :: message_input). demo_server_run demo_events = Some s \<and> tk_trace (sv_tasks s ! 0) \<noteq> []
     \<and> permits policy path (in_from input)"
proof -
  have "case demo_server_run demo_events of None \<Rightarrow> False
      | Some s \<Rightarrow> length (sv_tasks s) = 2 \<and> submitted (tk_trace (sv_tasks s ! 0)) = [demo_sent]"
    by code_simp
  then obtain s where s: "demo_server_run demo_events = Some s" "length (sv_tasks s) = 2"
    "submitted (tk_trace (sv_tasks s ! 0)) = [demo_sent]" by (auto split: option.splits)
  then have "tk_trace (sv_tasks s ! 0) \<noteq> []" by auto
  with concurrent_submissions_authorised [OF s(1), of 0 demo_sent] s show ?thesis by auto
qed

theorem sessions_bounded_witness:
  "\<exists>s. demo_server_run demo_events = Some s \<and> sv_free s = 0
     \<and> length (filter (\<lambda>t. submitting (tk_stage t)) (sv_tasks s)) = 1"
proof -
  obtain s where s: "demo_server_run demo_events = Some s" "sv_free s = 0" by (rule demo_draining)
  have c: "unat (smtp_max_concurrency demo_settings) = 8" by code_simp
  from sessions_bounded [OF s(1) [unfolded demo_one_slot_def]] s show ?thesis by (auto simp: c)
qed

theorem requests_run_alone_witness:
  "\<exists>s resp. demo_server_run (demo_events @ demo_rest) = Some s \<and> tk_stage (sv_tasks s ! 0) = Done resp
     \<and> tk_client (sv_tasks s ! 0) \<in> {Connected, Answered resp, Gone}"
proof -
  obtain s resp where s: "demo_server_run (demo_events @ demo_rest) = Some s" "length (sv_tasks s) = 2"
    "tk_stage (sv_tasks s ! 0) = Done resp" by (rule demo_exited)
  from requests_run_alone [OF s(1) _ s(3)] s show ?thesis by auto
qed

theorem logged_when_over_witness:
  "\<exists>s. demo_server_run (demo_events @ demo_rest) = Some s
     \<and> length (filter is_request_line (tk_trace (sv_tasks s ! 0))) = 1"
proof -
  obtain s resp where s: "demo_server_run (demo_events @ demo_rest) = Some s" "length (sv_tasks s) = 2"
    "tk_stage (sv_tasks s ! 0) = Done resp" by (rule demo_exited)
  have "Start 0 \<in> set (demo_events @ demo_rest)" by (simp add: demo_events_def)
  with logged_when_over [OF s(1), of 0] s show ?thesis by auto
qed

theorem shutdown_bounded_witness:
  "\<exists>s. demo_server_run demo_events = Some s \<and> sv_free s = 0
     \<and> (\<exists>e. orderly e \<and> server_step ascii_crates demo_one_slot demo_build s e \<noteq> None)"
proof -
  obtain s where s: "demo_server_run demo_events = Some s" "sv_mode s = Draining" "sv_free s = 0"
    by (rule demo_draining)
  have "0 < r_slots demo_one_slot" by code_simp
  moreover have "ServerFailed \<notin> set demo_events" by (simp add: demo_events_def)
  ultimately show ?thesis using shutdown_bounded [OF s(1), of "[]" s] s by auto
qed

theorem shutdown_completes_witness:
  "\<exists>es s'. list_all orderly es \<and> demo_server_run (demo_events @ es) = Some s' \<and> sv_mode s' = Exited"
proof -
  obtain s where s: "demo_server_run demo_events = Some s" "sv_mode s = Draining" by (rule demo_draining)
  have "0 < r_slots demo_one_slot" by code_simp
  from shutdown_completes [OF s(1) this] s obtain es s' where
    "list_all orderly es" "server_run ascii_crates demo_one_slot demo_build s es = Some s'" "sv_mode s' = Exited"
    by auto
  with s show ?thesis by (intro exI [of _ es] exI [of _ s']) (simp add: server_run_append)
qed

end
