(* ===== verification/Launch.thy ===== *)
theory Launch
  imports Server_Runs
begin

text \<open>
  The start of the process, \<open>serve\<close>, \<open>run\<close> and \<open>bind_all\<close> of \<open>rust/src/main.rs\<close>, up to the moment
  from which theory \<open>Server\<close> describes it, and its exit code; the redacted \<open>Debug\<close> output of
  \<open>rust/src/secrets.rs\<close>.  The operating system is the record \<open>os\<close>: what a host resolves to and which
  call on a socket fails.
\<close>

subsection \<open>Sockets\<close>

datatype socket_op =
    NewSocket | SetReuseAddress | SetOnlyV6 | SetNonblocking | BindSocket | ListenBacklog nat | FromStd

record 'a os =
  resolve :: "rstr \<Rightarrow> 16 word \<Rightarrow> rstr + 'a list"
  is_ipv6 :: "'a \<Rightarrow> bool"
  socket_error :: "'a \<Rightarrow> socket_op \<Rightarrow> rstr option"
  runtime_error :: "rstr option"
  signal_error :: "rstr option"

fun distinct_addresses :: "'a list \<Rightarrow> 'a list \<Rightarrow> 'a list" where
  "distinct_addresses addresses [] = addresses"
| "distinct_addresses addresses (a # as) =
     distinct_addresses (if a \<in> set addresses then addresses else addresses @ [a]) as"

definition listen_ops :: "bool \<Rightarrow> socket_op list" where
  "listen_ops v6 = [NewSocket, SetReuseAddress] @ (if v6 then [SetOnlyV6] else [])
     @ [SetNonblocking, BindSocket, ListenBacklog 2048, FromStd]"

fun first_error :: "('b \<Rightarrow> rstr option) \<Rightarrow> 'b list \<Rightarrow> rstr option" where
  "first_error err [] = None"
| "first_error err (x # xs) = (case err x of None \<Rightarrow> first_error err xs | e \<Rightarrow> e)"

fun open_listeners :: "'a os \<Rightarrow> 'a list \<Rightarrow> rstr + 'a list" where
  "open_listeners Sys [] = Ok []"
| "open_listeners Sys (a # as) =
     (case first_error (socket_error Sys a) (listen_ops (is_ipv6 Sys a)) of
        Some e \<Rightarrow> Err e
      | None \<Rightarrow> map_ok (\<lambda>ls. a # ls) (open_listeners Sys as))"

definition bind_all :: "'a os \<Rightarrow> rstr \<Rightarrow> 16 word \<Rightarrow> rstr + 'a list" where
  "bind_all Sys host port =
     and_then (resolve Sys host port) (\<lambda>addresses. open_listeners Sys (distinct_addresses [] addresses))"

lemma distinct_addresses_spec:
  "distinct as \<Longrightarrow> distinct (distinct_addresses as bs) \<and> set (distinct_addresses as bs) = set as \<union> set bs"
  by (induction as bs rule: distinct_addresses.induct) auto

lemma first_error_None_iff: "first_error err xs = None \<longleftrightarrow> (\<forall>x \<in> set xs. err x = None)"
  by (induction xs) (auto split: option.splits)

lemma open_listeners_Ok:
  "open_listeners Sys as = Ok ls \<Longrightarrow>
   ls = as \<and> (\<forall>a \<in> set as. \<forall>call \<in> set (listen_ops (is_ipv6 Sys a)). socket_error Sys a call = None)"
  by (induction as arbitrary: ls) (auto simp: map_ok_Inr_iff first_error_None_iff split: option.splits)

subsection \<open>The launch\<close>

record 'a launched =
  lc_listeners :: "'a list"
  lc_startup_line :: "u8 list option"
  lc_relay :: relay
  lc_smtp :: smtp_config

definition stopped_with :: "rstr \<Rightarrow> rstr \<times> exit_code" where
  "stopped_with message = (lit ''mailgun-relay: '' @ message, ExitFailure)"

definition launch ::
  "platform \<Rightarrow> 'a os \<Rightarrow> (json \<Rightarrow> u8 list) \<Rightarrow> rstr \<Rightarrow> int \<Rightarrow> nat \<Rightarrow> (u8 list \<times> u8 list) list
   \<Rightarrow> (rstr \<times> exit_code) + 'a launched" where
  "launch P Sys to_json version now max_permits vars =
     and_then (map_err config_failure (load_configuration P vars)) (\<lambda>(s, sec, cfg).
     and_then (case runtime_error Sys of None \<Rightarrow> Ok ()
       | Some e \<Rightarrow> Err (stopped_with (lit ''cannot start the runtime: '' @ e))) (\<lambda>_.
       (let bind = bind_host s @ [58] @ show_nat (unat (bind_port s)) in
     and_then (map_err (\<lambda>e. stopped_with (lit ''cannot bind '' @ bind @ lit '': '' @ e))
       (bind_all Sys (bind_host s) (bind_port s))) (\<lambda>listeners.
     and_then (case signal_error Sys of None \<Rightarrow> Ok ()
       | Some e \<Rightarrow> Err (stopped_with (lit ''signals: '' @ e))) (\<lambda>_.
       Ok \<lparr>lc_listeners = listeners,
           lc_startup_line = log_startup to_json now version (log_level s) s sec bind,
           lc_relay = new_relay max_permits s (tokens sec), lc_smtp = cfg\<rparr>)))))"

text \<open>How the process ends, by the mode its \<open>run\<close> returned in.\<close>

definition exit_of :: "mode \<Rightarrow> exit_code option" where
  "exit_of md = (case md of Exited \<Rightarrow> Some ExitSuccess | Failed \<Rightarrow> Some ExitFailure | _ \<Rightarrow> None)"

text \<open>C37: a process that serves has a sound configuration: its settings are in range, there is a token
  and every policy is well formed, the SMTP sessions use the host of the settings and the
  credentials of the secrets file, with TLS exactly when \<open>SMTP_STARTTLS\<close> is on, and at least one
  may run; it listens on every address its host resolves to, once each, on sockets that are
  IPv6-only where they are IPv6; and the startup line was written.\<close>

theorem launch_sound:
  assumes "launch P Sys to_json version now max_permits vars = Ok l" "0 < max_permits"
  shows "\<exists>s sec addresses. load_configuration P vars = Ok (s, sec, lc_smtp l)
     \<and> r_settings (lc_relay l) = s \<and> r_tokens (lc_relay l) = tokens sec
     \<and> in_i64 (max_body_bytes s) \<and> in_i64 (max_attachments s) \<and> in_i64 (max_attachment_bytes s)
     \<and> in_i64 (max_recipients s) \<and> in_i64 (max_header_value_length s) \<and> timeout_ok (smtp_timeout_s s)
     \<and> tokens sec \<noteq> [] \<and> list_all (wf_policy (pf_crates P)) (tokens sec)
     \<and> sc_host (lc_smtp l) = smtp_host s \<and> sc_credentials (lc_smtp l) = smtp sec
     \<and> sc_tls (lc_smtp l) = smtp_starttls s \<and> 0 < r_slots (lc_relay l)
     \<and> resolve Sys (bind_host s) (bind_port s) = Ok addresses
     \<and> set (lc_listeners l) = set addresses \<and> distinct (lc_listeners l)
     \<and> list_all (\<lambda>a. list_all (\<lambda>call. socket_error Sys a call = None) (listen_ops (is_ipv6 Sys a))) (lc_listeners l)
     \<and> lc_startup_line l \<noteq> None"
proof -
  from assms(1) obtain s sec listeners where c: "load_configuration P vars = Ok (s, sec, lc_smtp l)"
    and b: "bind_all Sys (bind_host s) (bind_port s) = Ok (lc_listeners l)"
    and l: "lc_relay l = new_relay max_permits s (tokens sec)"
      "lc_startup_line l = log_startup to_json now version (log_level s) s sec
         (bind_host s @ [58] @ show_nat (unat (bind_port s)))"
    by (auto simp: launch_def Let_def and_then_Inr_iff map_err_Inr_iff split: prod.splits)
  from b obtain addresses where a: "resolve Sys (bind_host s) (bind_port s) = Ok addresses"
    "open_listeners Sys (distinct_addresses [] addresses) = Ok (lc_listeners l)"
    by (auto simp: bind_all_def and_then_Inr_iff)
  note ls = open_listeners_Ok [OF a(2)] distinct_addresses_spec [of "[]" addresses, simplified]
  from c have "from_env (pf_crates P) (pf_parse_f64 P) vars = Ok s"
    by (auto simp: load_configuration_def and_then_Inr_iff)
  note env = from_env_sound [OF this]
  have "lc_startup_line l \<noteq> None" unfolding l using startup_logged_without_secrets by blast
  with c a(1) ls env configuration_sound [OF c] assms(2) show ?thesis
    by (intro exI [of _ s] exI [of _ sec] exI [of _ addresses]) (auto simp: l new_relay_def list_all_iff)
qed

definition demo_os :: "(nat \<times> bool) os" where
  "demo_os = \<lparr>resolve = (\<lambda>_ _. Ok [(1, True), (2, False), (1, True)]), is_ipv6 = snd,
     socket_error = (\<lambda>a call. if call = SetOnlyV6 \<and> \<not> snd a then Some [] else None),
     runtime_error = None, signal_error = None\<rparr>"

lemma demo_launch:
  obtains l where "launch demo_platform demo_os to_json version now 1 [] = Ok l" "lc_listeners l = [(1, True), (2, False)]"
proof -
  have "bind_all demo_os host port = Ok [(1, True), (2, False)]" for host port
    by (simp add: bind_all_def demo_os_def listen_ops_def)
  with that show thesis
    by (simp add: launch_def demo_configuration Let_def demo_os_def)
qed

theorem launch_sound_witness:
  "\<exists>l :: (nat \<times> bool) launched. launch demo_platform demo_os (\<lambda>_. []) [] 0 1 [] = Ok l
     \<and> 0 < r_slots (lc_relay l) \<and> set (lc_listeners l) = {(1, True), (2, False)}"
proof -
  obtain l where l: "launch demo_platform demo_os (\<lambda>_. []) [] 0 1 [] = Ok l"
    "lc_listeners l = [(1, True), (2, False)]" by (rule demo_launch)
  from launch_sound [OF l(1)] l show ?thesis by auto
qed

subsection \<open>Debug output without secrets\<close>

text \<open>\<open>debug_struct\<close> with \<open>finish_non_exhaustive\<close>, and \<open>{:?}\<close> of a set and an option.\<close>

definition debug_struct :: "string \<Rightarrow> (string \<times> rstr) list \<Rightarrow> rstr" where
  "debug_struct name flds =
     lit name @ lit '' { '' @ join (lit '', '') (map (\<lambda>(n, v). lit n @ lit '': '' @ v) flds) @ lit '', .. }''"

definition debug_set :: "crates \<Rightarrow> rstr set \<Rightarrow> rstr" where
  "debug_set X A = [123] @ join (lit '', '') (map (std_debug X) (sorted_list_of_set A)) @ [125]"

definition debug_credentials :: "crates \<Rightarrow> smtp_credentials \<Rightarrow> rstr" where
  "debug_credentials X c = debug_struct ''SmtpCredentials'' [(''username'', std_debug X (username c))]"

definition debug_policy :: "crates \<Rightarrow> token_policy \<Rightarrow> rstr" where
  "debug_policy X p = debug_struct ''TokenPolicy''
     [(''label'', std_debug X (label p)), (''mailgun_domains'', debug_set X (mailgun_domains p)),
      (''allowed_from_domains'', debug_set X (allowed_from_domains p)),
      (''allowed_from_addresses'', case allowed_from_addresses p of
         None \<Rightarrow> lit ''None'' | Some A \<Rightarrow> lit ''Some('' @ debug_set X A @ [41])]"

lemma debug_redacted:
  "debug_credentials X (c\<lparr>password := w\<rparr>) = debug_credentials X c"
  "debug_policy X (p\<lparr>token_sha256 := h\<rparr>) = debug_policy X p"
  by (simp_all add: debug_credentials_def debug_policy_def)

end
