(* ===== verification/Relay_Stream.thy ===== *)
theory Relay_Stream
  imports Smtp
begin

text \<open>
  \<open>RelayStream\<close> of \<open>rust/src/smtp.rs\<close>: the stream \<open>lettre\<close> talks over.  It passes every operation to
  a stream with timeouts, the parameter \<open>timeout_streams\<close>, and notes the first write, which tells a
  failed banner from a failed EHLO.
\<close>

datatype stream_op = PollRead nat | PollWrite "u8 list" | PollFlush | PollShutdown

record ('t, 'i, 'r) timeout_streams =
  ts_new :: "'t \<Rightarrow> 'i"
  set_read_timeout :: "f64 option \<Rightarrow> 'i \<Rightarrow> 'i"
  set_write_timeout :: "f64 option \<Rightarrow> 'i \<Rightarrow> 'i"
  ts_poll :: "stream_op \<Rightarrow> 'i \<Rightarrow> 'r \<times> 'i"

record 'i relay_stream =
  rs_inner :: 'i
  rs_written :: bool

text \<open>\<open>session\<close> passes a flag that is not set.\<close>

definition new_relay_stream :: "('t, 'i, 'r) timeout_streams \<Rightarrow> 't \<Rightarrow> f64 \<Rightarrow> 'i relay_stream" where
  "new_relay_stream T tcp timeout =
     \<lparr>rs_inner = set_write_timeout T (Some timeout) (set_read_timeout T (Some timeout) (ts_new T tcp)),
      rs_written = False\<rparr>"

fun is_write :: "stream_op \<Rightarrow> bool" where
  "is_write (PollWrite _) = True"
| "is_write _ = False"

definition poll :: "('t, 'i, 'r) timeout_streams \<Rightarrow> stream_op \<Rightarrow> 'i relay_stream \<Rightarrow> 'r \<times> 'i relay_stream" where
  "poll T call s =
     (let s1 = (if is_write call then s\<lparr>rs_written := True\<rparr> else s)
      in case ts_poll T call (rs_inner s1) of (r, i) \<Rightarrow> (r, s1\<lparr>rs_inner := i\<rparr>))"

fun polls :: "('t, 'i, 'r) timeout_streams \<Rightarrow> stream_op list \<Rightarrow> 'i relay_stream \<Rightarrow> 'r list \<times> 'i relay_stream" where
  "polls T [] s = ([], s)"
| "polls T (call # calls) s =
     (case poll T call s of (r, s') \<Rightarrow> (case polls T calls s' of (rs, s'') \<Rightarrow> (r # rs, s'')))"

text \<open>The same operations on the inner stream alone.\<close>

fun inner_polls :: "('t, 'i, 'r) timeout_streams \<Rightarrow> stream_op list \<Rightarrow> 'i \<Rightarrow> 'r list \<times> 'i" where
  "inner_polls T [] i = ([], i)"
| "inner_polls T (call # calls) i =
     (case ts_poll T call i of (r, i') \<Rightarrow> (case inner_polls T calls i' of (rs, i'') \<Rightarrow> (r # rs, i'')))"

text \<open>The stream is transparent, and the flag says whether anything was written.\<close>

lemma polls_transparent:
  "polls T calls s = (rs, s') \<Longrightarrow>
   inner_polls T calls (rs_inner s) = (rs, rs_inner s')
   \<and> (rs_written s' \<longleftrightarrow> rs_written s \<or> list_ex is_write calls)"
proof (induction calls arbitrary: s rs)
  case (Cons call calls)
  obtain r i where p: "ts_poll T call (rs_inner s) = (r, i)" by fastforce
  let ?s1 = "\<lparr>rs_inner = i, rs_written = rs_written s \<or> is_write call\<rparr>"
  have "poll T call s = (r, ?s1)" using p by (cases s) (auto simp: poll_def Let_def)
  with Cons.prems obtain rs1 where "polls T calls ?s1 = (rs1, s')" "rs = r # rs1"
    by (auto split: prod.splits)
  with Cons.IH [of ?s1 rs1] p show ?case by auto
qed simp

text \<open>\<open>connect_with_transport\<close> of theory \<open>Smtp\<close> reports an error with the flag: a session judges
  an error by the reply to the banner exactly when lettre had written nothing.\<close>

lemma flag_of_fresh_stream:
  "polls T calls (new_relay_stream T tcp timeout) = (rs, s') \<Longrightarrow> rs_written s' \<longleftrightarrow> list_ex is_write calls"
  using polls_transparent by (fastforce simp: new_relay_stream_def)

end
