(* ===== verification/Build_Script.thy ===== *)
theory Build_Script
  imports Config Utf8
begin

text \<open>
  \<open>rust/build.rs\<close>: the commit that \<open>mailgun-relay --version\<close> prints, and the paths cargo watches for it.
  The machine the build runs on is the record \<open>machine\<close>: the environment, the output of \<open>git\<close> (whether
  it succeeded and what it printed, or that it could not be started) and the two questions about a
  path.  A path is the string it was made from; \<open>parents\<close> is \<open>Path::ancestors\<close> on Unix without the
  path itself.
\<close>

definition ENV :: rstr where "ENV = lit ''MAILGUN_RELAY_GIT_COMMIT''"

record machine =
  env_commit :: "rstr option"
  git_output :: "rstr list \<Rightarrow> (bool \<times> u8 list) option"
  path_exists :: "rstr \<Rightarrow> bool"
  is_dir :: "rstr \<Rightarrow> bool"

definition is_commit :: "rstr \<Rightarrow> bool" where
  "is_commit s \<longleftrightarrow> 7 \<le> byte_len s \<and> byte_len s \<le> 40
     \<and> list_all (\<lambda>b. is_ascii_digit (unat b) \<or> 97 \<le> unat b \<and> unat b \<le> 102) (utf8_encode s)"

definition git :: "machine \<Rightarrow> string list \<Rightarrow> rstr list \<Rightarrow> rstr option" where
  "git B options names =
     (case git_output B (map lit options @ names) of
        None \<Rightarrow> None
      | Some (success, stdout) \<Rightarrow>
          if \<not> success then None else map_option trim (from_utf8 stdout))"

subsection \<open>The directories above a path\<close>

text \<open>The components of a path that \<open>Path\<close> skips: an empty one and \<open>.\<close>, but for the first.\<close>

definition skipped :: "rstr \<Rightarrow> bool" where
  "skipped s \<longleftrightarrow> s = [] \<or> s = lit ''.''"

definition shown :: "rstr \<Rightarrow> rstr list \<Rightarrow> rstr" where
  "shown first rest = (if first = [] \<and> rest = [] then lit ''/'' else join (lit ''/'') (first # rev rest))"

text \<open>The first component, empty when the path is absolute, and the others, the last one in front.\<close>

fun parents :: "rstr \<Rightarrow> rstr list \<Rightarrow> rstr list" where
  "parents first [] = (if first = [] then [] else [[]])"
| "parents first (s # rest) =
     (if skipped s then parents first rest
      else shown first (dropWhile skipped rest) # parents first rest)"

definition above :: "rstr \<Rightarrow> rstr list" where
  "above path = (case split_at_char 47 path of first # rest \<Rightarrow> parents first (rev rest) | [] \<Rightarrow> [])"

subsection \<open>The script\<close>

definition git_path :: "machine \<Rightarrow> rstr \<Rightarrow> rstr option" where
  "git_path B file = git B [''rev-parse'', ''--path-format=absolute'', ''--git-path''] [file]"

definition git_head_paths :: "machine \<Rightarrow> rstr list" where
  "git_head_paths B =
     (case git_path B (lit ''HEAD'') of Some p \<Rightarrow> [p] | None \<Rightarrow> [])
     @ (case git_path B (lit ''packed-refs'') of
          Some p \<Rightarrow> if path_exists B p then [p] else []
        | None \<Rightarrow> [])
     @ (case Option.bind (git B [''symbolic-ref'', ''-q'', ''HEAD''] []) (git_path B) of
          Some file \<Rightarrow> (case find (is_dir B) (above file) of Some dir \<Rightarrow> [dir] | None \<Rightarrow> [])
        | None \<Rightarrow> [])"

definition head_commit :: "machine \<Rightarrow> rstr" where
  "head_commit B =
     (case git B [''rev-parse'', ''HEAD''] [] of
        Some h \<Rightarrow> if is_commit h then h else lit ''unknown''
      | None \<Rightarrow> lit ''unknown'')"

definition watch :: "rstr \<Rightarrow> rstr" where
  "watch path = lit ''cargo:rerun-if-changed='' @ path"

text \<open>The lines for cargo; \<open>None\<close> when the assertion fails the build.\<close>

definition build_script :: "machine \<Rightarrow> rstr list option" where
  "build_script B =
     (let first = [lit ''cargo:rerun-if-env-changed='' @ ENV, watch (lit ''build.rs'')];
          set_commit = (\<lambda>commit. lit ''cargo:rustc-env='' @ ENV @ lit ''='' @ commit);
          unset = Some (first @ map watch (git_head_paths B) @ [set_commit (head_commit B)])
      in case env_commit B of
           Some v \<Rightarrow>
             if v \<noteq> [] then (if is_commit v then Some (first @ [set_commit v]) else None) else unset
         | None \<Rightarrow> unset)"

subsection \<open>What the build embeds\<close>

definition embedded :: "machine \<Rightarrow> rstr" where
  "embedded B = (case env_commit B of Some v \<Rightarrow> if v \<noteq> [] then v else head_commit B | None \<Rightarrow> head_commit B)"

lemma head_commit_cases: "is_commit (head_commit B) \<or> head_commit B = lit ''unknown''"
  by (auto simp: head_commit_def split: option.splits)

lemma build_script_embeds:
  assumes "build_script B = Some ls"
  shows "last ls = lit ''cargo:rustc-env='' @ ENV @ lit ''='' @ embedded B
    \<and> (is_commit (embedded B) \<or> embedded B = lit ''unknown'')"
  using assms head_commit_cases [of B]
  by (auto simp: build_script_def embedded_def Let_def split: option.splits if_splits)

lemma build_script_fails_iff:
  "build_script B = None \<longleftrightarrow> (\<exists>v. env_commit B = Some v \<and> v \<noteq> [] \<and> \<not> is_commit v)"
  by (auto simp: build_script_def Let_def split: option.splits)

text \<open>A reference below an absolute directory: the root is among what is looked at, so that an existing
  directory is found whenever the root is one.\<close>

lemma parents_root: "\<exists>s \<in> set rest. \<not> skipped s \<Longrightarrow> lit ''/'' \<in> set (parents [] rest)"
  by (induction rest) (auto simp: shown_def dropWhile_eq_Nil_conv)

lemma loose_ref_watched:
  assumes ref: "git B [''symbolic-ref'', ''-q'', ''HEAD''] [] = Some r" "git_path B r = Some (47 # p)"
    and p: "\<exists>s \<in> set (split_at_char 47 p). \<not> skipped s"
    and root_dir: "is_dir B (lit ''/'')"
  shows "\<exists>dir \<in> set (git_head_paths B). is_dir B dir \<and> dir \<in> set (above (47 # p))"
proof -
  have "lit ''/'' \<in> set (above (47 # p))"
    using p parents_root [of "rev (split_at_char 47 p)"] by (simp add: above_def)
  then obtain dir where dir: "find (is_dir B) (above (47 # p)) = Some dir"
    using root_dir by (cases "find (is_dir B) (above (47 # p))") (auto simp: find_None_iff)
  then have "dir \<in> set (git_head_paths B)" using ref by (simp add: git_head_paths_def)
  moreover have "is_dir B dir" "dir \<in> set (above (47 # p))" using dir by (auto simp: find_Some_iff)
  ultimately show ?thesis by blast
qed

lemma above_example:
  "above (lit ''/r/.git/./refs//heads/x'') = map lit [''/r/.git/./refs//heads'', ''/r/.git/./refs'', ''/r/.git'', ''/r'', ''/'']"
  "above (lit ''a/b'') = [lit ''a'', []]"
  by code_simp+

end
