(* ===== verification/Mime_Words.thy ===== *)
theory Mime_Words
  imports Mime_Types Pystr
begin

text \<open>
  The text level of \<open>rust/src/mime.rs\<close>: RFC 2047 encoded words found in a header value, what they
  decode to, which values are written as received (\<open>is_plain\<close>, \<open>forwardable\<close>), and the splitting of
  an overlong word.  Indices count chars where the source counts bytes; lengths that are compared
  with a limit are byte lengths as in the source.  The \<open>base64\<close> engines and the other parts of
  \<open>lettre\<close> are fields of the record \<open>mail_crates\<close>.
\<close>

definition MAX_LINE :: nat where "MAX_LINE = 998"
definition ADDRESS_ROOM :: nat where "ADDRESS_ROOM = 260"
definition MAX_ENCODED_WORD :: nat where "MAX_ENCODED_WORD = 75"

definition SPECIALS :: "rchar list" where
  "SPECIALS = lit ''()<>@,:;.'' @ [34] @ lit ''[]'' @ [92]"

subsection \<open>Plain values\<close>

definition is_printable_byte :: "u8 \<Rightarrow> bool" where
  "is_printable_byte b \<longleftrightarrow> b = 9 \<or> 32 \<le> unat b \<and> unat b \<le> 126"

text \<open>The second loop of \<open>is_plain\<close>: the length of the current run of spaces and word.\<close>

fun plain_runs :: "nat \<Rightarrow> nat \<Rightarrow> bool \<Rightarrow> u8 list \<Rightarrow> bool" where
  "plain_runs reserve run in_word [] = True"
| "plain_runs reserve run in_word (b # bs) =
     (let new = (b = 32 \<and> in_word);
          run' = (if new then 0 else run) + 1;
          in_word' = ((if new then False else in_word) \<or> b \<noteq> 32)
      in if reserve + run' > MAX_LINE then False else plain_runs reserve run' in_word' bs)"

definition is_plain :: "rstr \<Rightarrow> nat \<Rightarrow> bool" where
  "is_plain val reserve \<longleftrightarrow>
     list_all is_printable_byte (utf8_encode val) \<and> plain_runs reserve 0 False (utf8_encode val)"

subsection \<open>Encoded words\<close>

record encoded_word =
  w_start :: nat
  w_end :: nat
  w_charset :: rstr
  w_base64 :: bool
  w_text :: rstr

text \<open>The loop over the question marks: \<open>k\<close> and the three marks after it.\<close>

fun words_at :: "rstr \<Rightarrow> nat list \<Rightarrow> encoded_word list" where
  "words_at val (q0 # q1 # q2 # q3 # marks) =
     (let more = words_at val (q1 # q2 # q3 # marks);
          cte = slice val (q1 + 1) q2;
          found = (\<lambda>base64. \<lparr>w_start = q0 - 1, w_end = q3 + 2, w_charset = slice val (q0 + 1) q1,
                             w_base64 = base64, w_text = slice val (q2 + 1) q3\<rparr>)
      in if q0 = 0 \<or> get_at val (q0 - 1) \<noteq> Some 61 then more
         else if get_at val (q3 + 1) \<noteq> Some 61 then more
         else if cte = lit ''b'' \<or> cte = lit ''B'' then found True # more
         else if cte = lit ''q'' \<or> cte = lit ''Q'' then found False # more
         else more)"
| "words_at val marks = []"

definition encoded_words :: "rstr \<Rightarrow> encoded_word list" where
  "encoded_words val = words_at val (filter (\<lambda>i. val ! i = 63) [0..<length val])"

definition charset_name :: "rstr \<Rightarrow> rstr" where
  "charset_name cs =
     map (\<lambda>c. if is_ascii_alphanumeric c \<or> c = 46 then c else 95)
       (to_ascii_lowercase (hd (split_at_char 42 cs)))"

text \<open>\<open>suffix.parse::<u32>()\<close>, the range, and the decimal text of the number again.\<close>

definition numbered :: "rstr \<Rightarrow> string \<Rightarrow> nat \<Rightarrow> nat \<Rightarrow> bool" where
  "numbered name pre low high =
     (case strip_prefix (lit pre) name of
        None \<Rightarrow> False
      | Some rest \<Rightarrow>
          (let digits = (case rest of c # r \<Rightarrow> if c = 43 then r else rest | [] \<Rightarrow> rest);
               n = digits_value digits
           in digits \<noteq> [] \<and> list_all is_ascii_digit digits \<and> n < 2 ^ 32
              \<and> low \<le> n \<and> n \<le> high \<and> show_nat n = rest))"

definition is_ascii_compatible_charset :: "rstr \<Rightarrow> bool" where
  "is_ascii_compatible_charset name \<longleftrightarrow>
     name \<in> set (map lit [''utf_8'', ''utf8'', ''us_ascii'', ''ascii'', ''latin_1'', ''latin1'', ''l1''])
     \<or> numbered name ''iso_8859_'' 1 16 \<or> numbered name ''iso8859_'' 1 16
     \<or> numbered name ''windows_'' 1250 1258 \<or> numbered name ''cp'' 1250 1258"

definition is_hex_byte :: "u8 \<Rightarrow> bool" where
  "is_hex_byte b \<longleftrightarrow> hex_digit (unat b) \<noteq> None"

definition underscore :: "u8 \<Rightarrow> u8" where
  "underscore b = (if b = 95 then 32 else b)"

fun decode_q_bytes :: "u8 list \<Rightarrow> u8 list" where
  "decode_q_bytes (b # h # l # bs) =
     (if b = 61 \<and> is_hex_byte h \<and> is_hex_byte l
      then of_nat (the (hex_digit (unat h)) * 16 + the (hex_digit (unat l))) # decode_q_bytes bs
      else underscore b # decode_q_bytes (h # l # bs))"
| "decode_q_bytes bs = map underscore bs"

definition decode_q :: "rstr \<Rightarrow> u8 list" where
  "decode_q t = decode_q_bytes (utf8_encode t)"

text \<open>What \<open>lettre\<close> renders, and the other calls into it; see theory \<open>Mime\<close>.\<close>

datatype writer_op =
    Folding rstr      \<comment> \<open>\<open>folding().write_str\<close>\<close>
  | WriteChar rchar
  | WriteStr rstr
  | Space
  | Rfc2047 rstr      \<comment> \<open>\<open>rfc2047::encode\<close>\<close>

text \<open>\<open>HeaderValue::new\<close> leaves the encoding to \<open>lettre\<close>, \<open>dangerous_new_pre_encoded\<close> takes it.\<close>

datatype header_value = Value rstr rstr | PreEncoded rstr rstr "writer_op list"

datatype mail_header = Raw header_value | MessageId rstr | DateNow | MimeVersion10

datatype part_body = Text_Body rstr | Base64_Body "u8 list"

datatype disposition = NoDisposition | Inline_With_Name rstr | Attached rstr

record single_part =
  sp_content_type :: rstr
  sp_content_id :: "header_value option"
  sp_disposition :: disposition
  sp_body :: part_body

datatype multipart_kind = AlternativeKind | RelatedKind | MixedKind

datatype multi_part = MultiPart multipart_kind "multi_child list"
and multi_child = SingleChild single_part | MultiChild multi_part

record mail_crates =
  b64_decode_indifferent :: "rstr \<Rightarrow> u8 list option"
  b64_encode :: "u8 list \<Rightarrow> rstr"
  header_name_ok :: "rstr \<Rightarrow> bool"  \<comment> \<open>\<open>HeaderName::new_from_ascii\<close>\<close>
  parse_content_type :: "rstr \<Rightarrow> rstr option"
  headers_to_string :: "mail_header list \<Rightarrow> rstr"
  single_formatted :: "single_part \<Rightarrow> u8 list"
  multipart_formatted :: "multi_part \<Rightarrow> u8 list"

definition decode_word :: "mail_crates \<Rightarrow> encoded_word \<Rightarrow> u8 list option" where
  "decode_word M w =
     (if \<not> is_ascii_compatible_charset (charset_name (w_charset w)) then None
      else if \<not> w_base64 w then Some (decode_q (w_text w))
      else b64_decode_indifferent M (trim_end_matches (\<lambda>c. c = 61) (w_text w)))"

definition may_decode_to_line_break :: "mail_crates \<Rightarrow> rstr \<Rightarrow> bool" where
  "may_decode_to_line_break M val \<longleftrightarrow>
     list_ex (\<lambda>w. case decode_word M w of None \<Rightarrow> True | Some bytes \<Rightarrow> 13 \<in> set bytes \<or> 10 \<in> set bytes)
       (encoded_words val)"

subsection \<open>Splitting an overlong word\<close>

definition is_cont_byte :: "u8 \<Rightarrow> bool" where
  "is_cont_byte b \<longleftrightarrow> 0x80 \<le> unat b \<and> unat b < 0xC0"

text \<open>The \<open>while\<close> loop: back to a char boundary of the text, which ends at the end of \<open>rest\<close>.\<close>

fun boundary_cut :: "u8 list \<Rightarrow> nat \<Rightarrow> nat" where
  "boundary_cut rest 0 = 0"
| "boundary_cut rest (Suc mid) =
     (if Suc mid < length rest \<and> is_cont_byte (rest ! Suc mid) then boundary_cut rest mid else Suc mid)"

lemma boundary_cut_le: "boundary_cut rest mid \<le> mid"
  by (induction rest mid rule: boundary_cut.induct) (auto intro: le_SucI)

definition next_cut :: "bool \<Rightarrow> nat \<Rightarrow> u8 list \<Rightarrow> nat" where
  "next_cut utf8 room rest =
     (let mid = min (length rest) room in if utf8 then boundary_cut rest mid else mid)"

lemma next_cut_le: "next_cut utf8 room rest \<le> length rest" "next_cut utf8 room rest \<le> room"
  using boundary_cut_le [of rest "min (length rest) room"] by (auto simp: next_cut_def Let_def)

function split_chunks :: "bool \<Rightarrow> nat \<Rightarrow> u8 list \<Rightarrow> u8 list list option" where
  "split_chunks utf8 room rest =
     (if rest = [] then Some []
      else
        (let mid = next_cut utf8 room rest
         in if mid = 0 then None
            else map_option (\<lambda>more. take mid rest # more) (split_chunks utf8 room (drop mid rest))))"
  by pat_completeness auto
termination
  by (relation "measure (\<lambda>(_, _, rest). length rest)") auto

declare split_chunks.simps [simp del]

definition split_word :: "mail_crates \<Rightarrow> rstr \<Rightarrow> u8 list \<Rightarrow> rstr option" where
  "split_word M cs bytes =
     (if byte_len cs + 7 > MAX_ENCODED_WORD then None
      else
        (let room = (MAX_ENCODED_WORD - (byte_len cs + 7)) div 4 * 3;
             utf8 = (charset_name cs = lit ''utf_8'' \<or> charset_name cs = lit ''utf8'')
         in if utf8 \<and> from_utf8 bytes = None then None
            else map_option (\<lambda>chunks. join [32]
                (map (\<lambda>c. lit ''=?'' @ cs @ lit ''?b?'' @ b64_encode M c @ lit ''?='') chunks))
              (split_chunks utf8 room bytes)))"

subsection \<open>Forwarding a printable value\<close>

fun has_pair :: "u8 \<Rightarrow> u8 \<Rightarrow> u8 list \<Rightarrow> bool" where
  "has_pair a b (x # y # bs) \<longleftrightarrow> x = a \<and> y = b \<or> has_pair a b (y # bs)"
| "has_pair a b bs \<longleftrightarrow> False"

definition is_blank_byte :: "u8 \<Rightarrow> bool" where
  "is_blank_byte b \<longleftrightarrow> b = 32 \<or> b = 9"

definition unforwardable :: "bool \<Rightarrow> u8 list \<Rightarrow> bool" where
  "unforwardable in_phrase bytes \<longleftrightarrow>
     has_pair 61 63 bytes
     \<or> bytes \<noteq> [] \<and> (is_blank_byte (hd bytes) \<or> is_blank_byte (last bytes))
     \<or> in_phrase \<and> list_all (\<lambda>b. unat b < 128) bytes \<and> list_ex (\<lambda>b. unat b \<in> set SPECIALS) bytes"

definition is_space_tab :: "rchar \<Rightarrow> bool" where
  "is_space_tab c \<longleftrightarrow> c = 32 \<or> c = 9"

definition delimited :: "rstr \<Rightarrow> encoded_word \<Rightarrow> bool" where
  "delimited val w \<longleftrightarrow>
     (w_start w = 0 \<or> take (w_start w) val \<noteq> [] \<and> is_space_tab (last (take (w_start w) val)))
     \<and> (w_end w = length val \<or> drop (w_end w) val \<noteq> [] \<and> is_space_tab (hd (drop (w_end w) val)))"

fun forward_words ::
  "mail_crates \<Rightarrow> rstr \<Rightarrow> bool \<Rightarrow> bool \<Rightarrow> encoded_word list \<Rightarrow> nat \<Rightarrow> invalid_message + rstr" where
  "forward_words M val in_phrase in_quotes [] copied = Ok (drop copied val)"
| "forward_words M val in_phrase in_quotes (w # ws) copied =
     and_then (ok_or InvalidMessage (decode_word M w)) (\<lambda>bytes.
       if unforwardable in_phrase bytes then Err InvalidMessage
       else if byte_len (slice val (w_start w) (w_end w)) \<le> MAX_ENCODED_WORD
       then forward_words M val in_phrase in_quotes ws copied
       else if in_quotes \<or> \<not> delimited val w \<or> w_start w < copied then Err InvalidMessage
       else and_then (ok_or InvalidMessage (split_word M (w_charset w) bytes)) (\<lambda>s.
         map_ok (\<lambda>rest. slice val copied (w_start w) @ s @ rest)
           (forward_words M val in_phrase in_quotes ws (w_end w))))"

definition forwardable :: "mail_crates \<Rightarrow> rstr \<Rightarrow> bool \<Rightarrow> bool \<Rightarrow> invalid_message + rstr" where
  "forwardable M val in_phrase in_quotes = forward_words M val in_phrase in_quotes (encoded_words val) 0"

subsection \<open>What splitting keeps\<close>

lemma split_chunks_Some:
  "split_chunks utf8 room rest = Some cs \<Longrightarrow>
   concat cs = rest \<and> (\<forall>c \<in> set cs. c \<noteq> [] \<and> length c \<le> room)"
proof (induction utf8 room rest arbitrary: cs rule: split_chunks.induct)
  case (1 utf8 room rest)
  show ?case
  proof (cases "rest = []")
    case True
    with "1.prems" show ?thesis by (simp add: split_chunks.simps)
  next
    case False
    let ?mid = "next_cut utf8 room rest"
    from False "1.prems" obtain more where more: "?mid \<noteq> 0" "cs = take ?mid rest # more"
      "split_chunks utf8 room (drop ?mid rest) = Some more"
      by (subst (asm) split_chunks.simps) (auto simp: Let_def split: if_splits)
    from "1.IH" [OF False refl more(1,3)] have
      "concat more = drop ?mid rest" "\<forall>c \<in> set more. c \<noteq> [] \<and> length c \<le> room" by auto
    with more False next_cut_le [of utf8 room rest] show ?thesis by auto
  qed
qed

text \<open>What \<open>from_utf8\<close> accepts is the encoding of its result.\<close>

lemma unat_byte_add: "n + k < 256 \<Longrightarrow> unat (of_nat (n + k) :: u8) = n + k"
  by (rule unat_byte)

lemma utf8_step_bytes:
  assumes "utf8_step b bs = (Some c, r)"
  shows "map unat (utf8_char c) @ r = b # bs"
proof -
  have two: "map unat (utf8_char ((b - 0xC0) * 64 + (x - 0x80))) = [b, x]"
    if H: "0xC2 \<le> b" "b < 0xE0" "is_cont x" for x
  proof -
    obtain k where k: "b = 0xC0 + k" using H le_Suc_ex [where l = b and k = "0xC0"] by auto
    obtain l where l: "x = 0x80 + l" using H le_Suc_ex [where l = x and k = "0x80"] by (auto simp: is_cont_def)
    have lt: "2 \<le> k" "k < 32" "l < 64" using H k l by (auto simp: is_cont_def)
    let ?c = "k * 64 + l"
    have c: "\<not> ?c < 0x80" "?c < 0x800" "?c div 64 = k" "?c mod 64 = l" using lt by auto
    have "utf8_char ?c = [of_nat (0xC0 + k), of_nat (0x80 + l)]" using c by (simp only: utf8_char_def if_True if_False)
    with lt show ?thesis by (simp only: k l add_diff_cancel_left' list.map unat_byte_add)
  qed
  have three: "map unat (utf8_char ((b - 0xE0) * 4096 + (x - 0x80) * 64 + (y - 0x80))) = [b, x, y]"
    if H: "0xE0 \<le> b" "b < 0xF0" "second3 b x" "is_cont y" for x y
  proof -
    obtain k where k: "b = 0xE0 + k" using H le_Suc_ex [where l = b and k = "0xE0"] by auto
    obtain l where l: "x = 0x80 + l" using H le_Suc_ex [where l = x and k = "0x80"]
      by (auto simp: second3_def is_cont_def)
    obtain m where m: "y = 0x80 + m" using H le_Suc_ex [where l = y and k = "0x80"] by (auto simp: is_cont_def)
    have lt: "k < 16" "l < 64" "m < 64" "k = 0 \<longrightarrow> 32 \<le> l" using H k l m by (auto simp: second3_def is_cont_def)
    let ?c = "k * 4096 + l * 64 + m"
    have "0x800 \<le> ?c" using lt by (cases "k = 0") auto
    moreover have "?c < 0x10000" using lt by linarith
    moreover have "?c div 4096 = k" using lt by (intro div_nat_eqI) auto
    moreover have d: "?c div 64 = k * 64 + l" using lt by (intro div_nat_eqI) auto
    moreover have "?c div 64 mod 64 = l" unfolding d using lt by simp
    moreover have "?c mod 64 = m" 
    proof -
      have "?c = m + 64 * (k * 64 + l)" by simp
      then show ?thesis using lt by (metis mod_less mod_mult_self2)
    qed
    ultimately have "utf8_char ?c = [of_nat (0xE0 + k), of_nat (0x80 + l), of_nat (0x80 + m)]"
      unfolding utf8_char_def by simp
    with lt show ?thesis by (simp only: k l m add_diff_cancel_left' list.map unat_byte_add)
  qed
  have four: "map unat (utf8_char ((b - 0xF0) * 262144 + (x - 0x80) * 4096 + (y - 0x80) * 64 + (z - 0x80))) = [b, x, y, z]"
    if H: "0xF0 \<le> b" "b < 0xF5" "second4 b x" "is_cont y" "is_cont z" for x y z
  proof -
    obtain k where k: "b = 0xF0 + k" using H le_Suc_ex [where l = b and k = "0xF0"] by auto
    obtain l where l: "x = 0x80 + l" using H le_Suc_ex [where l = x and k = "0x80"]
      by (auto simp: second4_def is_cont_def)
    obtain m where m: "y = 0x80 + m" using H le_Suc_ex [where l = y and k = "0x80"] by (auto simp: is_cont_def)
    obtain n where n: "z = 0x80 + n" using H le_Suc_ex [where l = z and k = "0x80"] by (auto simp: is_cont_def)
    have lt: "k < 5" "l < 64" "m < 64" "n < 64" "k = 0 \<longrightarrow> 16 \<le> l"
      using H k l m n by (auto simp: second4_def is_cont_def)
    let ?c = "k * 262144 + l * 4096 + m * 64 + n"
    have "0x10000 \<le> ?c" using lt by (cases "k = 0") auto
    moreover have "?c div 262144 = k" using lt by (intro div_nat_eqI) auto
    moreover have d: "?c div 4096 = k * 64 + l" using lt by (intro div_nat_eqI) auto
    moreover have d': "?c div 64 = (k * 64 + l) * 64 + m" using lt by (intro div_nat_eqI) auto
    moreover have "?c div 4096 mod 64 = l" unfolding d using lt by simp
    moreover have "?c div 64 mod 64 = m" unfolding d' mod_mult_self3 using lt by simp
    moreover have "?c mod 64 = n"
    proof -
      have "?c = n + 64 * ((k * 64 + l) * 64 + m)" by simp
      then show ?thesis using lt by (metis mod_less mod_mult_self2)
    qed
    ultimately have "utf8_char ?c = [of_nat (0xF0 + k), of_nat (0x80 + l), of_nat (0x80 + m), of_nat (0x80 + n)]"
      unfolding utf8_char_def by simp
    with lt show ?thesis by (simp only: k l m n add_diff_cancel_left' list.map unat_byte_add)
  qed
  have one: "b < 0x80 \<Longrightarrow> map unat (utf8_char b) = [b]" by (simp add: utf8_char_def unat_byte)
  from assms one show ?thesis
    by (auto simp: utf8_step_def two three four split: if_splits list.splits)
qed

lemma utf8_scan_bytes:
  "None \<notin> set (utf8_scan bs) \<Longrightarrow> map unat (utf8_encode (map the (utf8_scan bs))) = bs"
proof (induction bs rule: utf8_scan.induct)
  case (2 b bs)
  obtain c r where s: "utf8_step b bs = (Some c, r)" using 2(2)
    by (cases "utf8_step b bs"; cases "fst (utf8_step b bs)") auto
  with 2 utf8_step_bytes [OF s] show ?case by simp
qed simp

lemma from_utf8_bytes:
  assumes "from_utf8 bs = Some s"
  shows "bs = utf8_encode s"
proof -
  have "map unat (utf8_encode s) = map unat bs"
    using assms utf8_scan_bytes [of "map unat bs"] by (auto simp: from_utf8_def Let_def split: if_splits)
  then show ?thesis by (metis inj_map_eq_map inj_on_def word_unat_eq_iff)
qed

text \<open>A byte that does not continue a char starts one, so a mid there keeps both sides valid.\<close>

lemma utf8_char_bytes:
  assumes "is_scalar c"
  shows "\<exists>b bs. utf8_char c = b # bs \<and> \<not> is_cont_byte b \<and> list_all is_cont_byte bs"
proof -
  have c: "c < 0x110000" using assms by (auto simp: is_scalar_def)
  have "c div 64 < 32" if "c < 0x800" using that by (simp add: less_mult_imp_div_less)
  moreover have "c div 4096 < 16" if "c < 0x10000" using that by (simp add: less_mult_imp_div_less)
  moreover have "c div 262144 < 5" using c by (simp add: less_mult_imp_div_less)
  moreover have "x mod 64 < 64" for x :: nat by simp
  moreover have m: "128 + x mod 64 < 256" for x :: nat
    using mod_less_divisor [of 64 x] by linarith
  ultimately show ?thesis
    by (auto simp: utf8_char_def is_cont_byte_def unat_byte simp del: of_nat_add)
qed

lemma utf8_encode_split:
  "valid_str s \<Longrightarrow> utf8_encode s = a @ b \<Longrightarrow> b = [] \<or> \<not> is_cont_byte (hd b) \<Longrightarrow>
   \<exists>s1 s2. s = s1 @ s2 \<and> utf8_encode s1 = a \<and> utf8_encode s2 = b"
proof (induction s arbitrary: a)
  case (Cons c s)
  show ?case
  proof (cases "a = []")
    case True
    with Cons.prems show ?thesis by (intro exI [of _ "[]"] exI [of _ "c # s"]) simp
  next
    case False
    from Cons.prems(1) obtain x xs where x: "utf8_char c = x # xs" "list_all is_cont_byte xs"
      using utf8_char_bytes [of c] by (auto simp: valid_str_def)
    show ?thesis
    proof (cases "length (utf8_char c) \<le> length a")
      case True
      then obtain a' where a': "a = utf8_char c @ a'" "utf8_encode s = a' @ b"
        using Cons.prems(2) by (auto simp: append_eq_append_conv_if dest: sym)
          (metis append_eq_conv_conj append_take_drop_id)
      with Cons.IH [of a'] Cons.prems(1,3) obtain s1 s2 where
        "s = s1 @ s2" "utf8_encode s1 = a'" "utf8_encode s2 = b" by (auto simp: valid_str_def)
      with a' show ?thesis by (intro exI [of _ "c # s1"] exI [of _ s2]) simp
    next
      case short: False
      with Cons.prems(2) obtain t where t: "utf8_char c = a @ t" "t \<noteq> []" "b = t @ utf8_encode s"
        by (auto simp: append_eq_append_conv2)
      with False x have "set t \<subseteq> set xs" by (cases a) auto
      with t x have "is_cont_byte (hd b)" by (cases t) (auto simp: list_all_iff)
      with Cons.prems(3) t show ?thesis by simp
    qed
  qed
qed auto

lemma boundary_cut_stops:
  "mid \<le> length rest \<Longrightarrow> boundary_cut rest mid = 0 \<or> boundary_cut rest mid = length rest
     \<or> \<not> is_cont_byte (rest ! boundary_cut rest mid)"
  by (induction rest mid rule: boundary_cut.induct) auto

lemma split_chunks_chars:
  "split_chunks True room (utf8_encode s) = Some cs \<Longrightarrow> valid_str s \<Longrightarrow>
   \<exists>ts. cs = map utf8_encode ts \<and> concat ts = s"
proof (induction "True" room "utf8_encode s" arbitrary: s cs rule: split_chunks.induct)
  case (1 room)
  show ?case
  proof (cases "utf8_encode s = []")
    case True
    with "1.prems" have "cs = []" by (simp add: split_chunks.simps)
    moreover have "s = []" using True length_le_byte_len [of s] by simp
    ultimately show ?thesis by (intro exI [of _ "[]"]) simp
  next
    case False
    let ?mid = "next_cut True room (utf8_encode s)"
    from False "1.prems"(1) obtain more where more: "?mid \<noteq> 0" "cs = take ?mid (utf8_encode s) # more"
      "split_chunks True room (drop ?mid (utf8_encode s)) = Some more"
      by (subst (asm) split_chunks.simps) (auto simp: Let_def split: if_splits)
    have "drop ?mid (utf8_encode s) = [] \<or> \<not> is_cont_byte (hd (drop ?mid (utf8_encode s)))"
      using more(1) boundary_cut_stops [of "min (byte_len s) room" "utf8_encode s"] next_cut_le(1) [of True room "utf8_encode s"]
      by (auto simp: next_cut_def Let_def hd_drop_conv_nth)
    from utf8_encode_split [OF "1.prems"(2) append_take_drop_id [symmetric] this]
    obtain s1 s2 where s: "s = s1 @ s2" "utf8_encode s1 = take ?mid (utf8_encode s)"
      "utf8_encode s2 = drop ?mid (utf8_encode s)" by blast
    have v: "valid_str s2" using "1.prems"(2) unfolding s(1) valid_str_def by simp
    have m: "split_chunks True room (utf8_encode s2) = Some more" using more(3) by (simp only: s(3))
    from "1.hyps" [OF False refl more(1) s(3) [symmetric] m v]
    obtain ts where ts: "more = map utf8_encode ts" "concat ts = s2" by blast
    show ?thesis
    proof (intro exI conjI)
      show "cs = map utf8_encode (s1 # ts)" by (simp only: more(2) list.map s(2) ts(1))
      show "concat (s1 # ts) = s" by (simp only: concat.simps ts(2) s(1))
    qed
  qed
qed

text \<open>The standard base64 encoding: four chars of its alphabet for each three bytes, with padding.\<close>

definition is_b64_char :: "rchar \<Rightarrow> bool" where
  "is_b64_char c \<longleftrightarrow> is_ascii_alphanumeric c \<or> c = 43 \<or> c = 47 \<or> c = 61"

definition b64_encode_ok :: "mail_crates \<Rightarrow> bool" where
  "b64_encode_ok M \<longleftrightarrow>
     (\<forall>b. list_all is_b64_char (b64_encode M b) \<and> length (b64_encode M b) = (length b + 2) div 3 * 4)"

definition word_of :: "mail_crates \<Rightarrow> rstr \<Rightarrow> u8 list \<Rightarrow> rstr" where
  "word_of M cs c = lit ''=?'' @ cs @ lit ''?b?'' @ b64_encode M c @ lit ''?=''"

lemma split_word_chunks:
  assumes "split_word M cs bytes = Some out"
  obtains chunks where "out = join [32] (map (word_of M cs) chunks)" "concat chunks = bytes"
    "\<forall>c \<in> set chunks. c \<noteq> [] \<and> length c \<le> (MAX_ENCODED_WORD - (byte_len cs + 7)) div 4 * 3"
    "byte_len cs + 7 \<le> MAX_ENCODED_WORD"
    "charset_name cs \<in> {lit ''utf_8'', lit ''utf8''} \<longrightarrow>
       (\<exists>ts. chunks = map utf8_encode ts \<and> from_utf8 bytes = Some (concat ts))"
proof -
  let ?utf8 = "charset_name cs = lit ''utf_8'' \<or> charset_name cs = lit ''utf8''"
  let ?room = "(MAX_ENCODED_WORD - (byte_len cs + 7)) div 4 * 3"
  from assms obtain chunks where c: "byte_len cs + 7 \<le> MAX_ENCODED_WORD" "\<not> (?utf8 \<and> from_utf8 bytes = None)"
    "split_chunks ?utf8 ?room bytes = Some chunks" "out = join [32] (map (word_of M cs) chunks)"
    by (auto simp: split_word_def Let_def word_of_def [abs_def] split: if_splits)
  have "\<exists>ts. chunks = map utf8_encode ts \<and> from_utf8 bytes = Some (concat ts)" if u: ?utf8
  proof -
    from u c(2) obtain s where s: "from_utf8 bytes = Some s" by auto
    then have v: "valid_str s" by (rule from_utf8_valid)
    have b: "bytes = utf8_encode s" using s by (rule from_utf8_bytes)
    from u c(3) have "split_chunks True ?room (utf8_encode s) = Some chunks" by (simp add: b)
    from split_chunks_chars [OF this v] s show ?thesis by blast
  qed
  with c split_chunks_Some [OF c(3)] show thesis by (intro that) auto
qed

lemma b64_encode_ascii: "b64_encode_ok M \<Longrightarrow> is_ascii (b64_encode M b)"
  by (force simp: b64_encode_ok_def is_ascii_def list_all_iff is_b64_char_def ascii_defs)

lemma word_of_length:
  assumes "b64_encode_ok M" "byte_len cs + 7 \<le> MAX_ENCODED_WORD"
    "length c \<le> (MAX_ENCODED_WORD - (byte_len cs + 7)) div 4 * 3"
  shows "byte_len (word_of M cs c) \<le> MAX_ENCODED_WORD"
proof -
  let ?q = "(MAX_ENCODED_WORD - (byte_len cs + 7)) div 4"
  have "(length c + 2) div 3 \<le> (?q * 3 + 2) div 3" using assms(3) by (intro div_le_mono) simp
  also have "\<dots> = ?q" by simp
  finally have "(length c + 2) div 3 * 4 \<le> ?q * 4" by simp
  also have "\<dots> \<le> MAX_ENCODED_WORD - (byte_len cs + 7)" by simp
  moreover have "byte_len (b64_encode M c) = (length c + 2) div 3 * 4"
    using assms(1) byte_len_ascii [OF b64_encode_ascii [OF assms(1)]] by (simp add: b64_encode_ok_def)
  moreover have "byte_len (lit ''=?'') = 2" "byte_len (lit ''?b?'') = 3" "byte_len (lit ''?='') = 2"
    by (simp_all add: lit_def utf8_char_def)
  ultimately show ?thesis using assms(2) by (simp add: word_of_def)
qed

text \<open>C25: an overlong encoded word is split into words within RFC 2047's 75 characters which carry its
  bytes, all of them, in order, none empty; in UTF-8 each word holds whole characters.\<close>

theorem split_word_sound:
  assumes "b64_encode_ok M" "split_word M cs bytes = Some out"
  shows "\<exists>chunks. out = join [32] (map (word_of M cs) chunks) \<and> concat chunks = bytes
     \<and> (\<forall>c \<in> set chunks. c \<noteq> [] \<and> byte_len (word_of M cs c) \<le> 75)
     \<and> (charset_name cs \<in> {lit ''utf_8'', lit ''utf8''} \<longrightarrow>
          (\<exists>ts. chunks = map utf8_encode ts \<and> from_utf8 bytes = Some (concat ts)))"
proof -
  obtain chunks where c: "out = join [32] (map (word_of M cs) chunks)" "concat chunks = bytes"
    "\<forall>c \<in> set chunks. c \<noteq> [] \<and> length c \<le> (MAX_ENCODED_WORD - (byte_len cs + 7)) div 4 * 3"
    "byte_len cs + 7 \<le> MAX_ENCODED_WORD"
    "charset_name cs \<in> {lit ''utf_8'', lit ''utf8''} \<longrightarrow>
       (\<exists>ts. chunks = map utf8_encode ts \<and> from_utf8 bytes = Some (concat ts))"
    by (rule split_word_chunks [OF assms(2)])
  moreover have "\<forall>c \<in> set chunks. byte_len (word_of M cs c) \<le> 75"
    using c(3) word_of_length [OF assms(1) c(4)] by (auto simp: MAX_ENCODED_WORD_def)
  ultimately show ?thesis by blast
qed

text \<open>An instance for examples: base64 text of the right length, headers and parts as single bytes.\<close>

definition demo_mail :: mail_crates where
  "demo_mail = \<lparr>b64_decode_indifferent = (\<lambda>_. None), b64_encode = (\<lambda>b. replicate ((length b + 2) div 3 * 4) 65),
     header_name_ok = (\<lambda>n. n \<noteq> []), parse_content_type = Some, headers_to_string = (\<lambda>hs. replicate (length hs) 72),
     single_formatted = (\<lambda>p. [1, 13, 10, 13, 10]), multipart_formatted = (\<lambda>m. [77])\<rparr>"

lemma b64_encode_ok_demo: "b64_encode_ok demo_mail"
  by (simp add: b64_encode_ok_def demo_mail_def list_all_iff is_b64_char_def ascii_defs)

theorem split_word_sound_witness:
  "\<exists>out chunks. split_word demo_mail (lit ''utf-8'') (replicate 50 66) = Some out \<and> concat chunks = replicate 50 66
     \<and> out = join [32] (map (word_of demo_mail (lit ''utf-8'')) chunks)"
proof -
  have "split_word demo_mail (lit ''utf-8'') (replicate 50 66) \<noteq> None" by code_simp
  then obtain out where "split_word demo_mail (lit ''utf-8'') (replicate 50 66) = Some out" by blast
  with split_word_sound [OF b64_encode_ok_demo this] show ?thesis by blast
qed

subsection \<open>Printable values\<close>

definition printable :: "rstr \<Rightarrow> bool" where
  "printable s \<longleftrightarrow> list_all (\<lambda>c. c = 9 \<or> 32 \<le> c \<and> c \<le> 126) s"

lemma printable_append [simp]: "printable (a @ b) \<longleftrightarrow> printable a \<and> printable b"
  by (simp add: printable_def)

lemma printable_Nil [simp]: "printable []"
  by (simp add: printable_def)

lemma printable_Cons: "printable (c # s) \<longleftrightarrow> (c = 9 \<or> 32 \<le> c \<and> c \<le> 126) \<and> printable s"
  by (simp add: printable_def)

lemma printable_subset: "printable s \<Longrightarrow> set t \<subseteq> set s \<Longrightarrow> printable t"
  by (auto simp: printable_def list_all_iff)

lemma utf8_char_printable:
  assumes "list_all is_printable_byte (utf8_char c)"
  shows "c = 9 \<or> 32 \<le> c \<and> c \<le> 126"
proof (cases "c < 0x80")
  case True
  with assms show ?thesis
    by (auto simp: utf8_char_def is_printable_byte_def unat_byte word_unat_eq_iff)
next
  case False
  have "(of_nat (0x80 + c mod 64) :: u8) \<in> set (utf8_char c)"
    using False unfolding utf8_char_def by (simp del: of_nat_add)
  moreover have "0x80 + c mod 64 < 256" using mod_less_divisor [of 64 c] by linarith
  then have "128 \<le> unat (of_nat (0x80 + c mod 64) :: u8)" by (simp only: unat_byte)
  ultimately show ?thesis
    using assms by (auto simp: list_all_iff is_printable_byte_def word_unat_eq_iff)
qed

lemma is_plain_printable: "is_plain s n \<Longrightarrow> printable s"
proof -
  assume "is_plain s n"
  then have "list_all is_printable_byte (utf8_encode s)" by (simp add: is_plain_def)
  then show ?thesis
    by (induction s) (auto simp: printable_Cons dest: utf8_char_printable)
qed

subsection \<open>What fits a line\<close>

text \<open>The runs of separators plus the word that follows, of which \<open>is_plain\<close> speaks.\<close>

function runs :: "'a \<Rightarrow> 'a list \<Rightarrow> 'a list list" where
  "runs sep s =
     (if s = [] then []
      else (let spaces = takeWhile (\<lambda>c. c = sep) s;
                r = dropWhile (\<lambda>c. c = sep) s
            in (spaces @ takeWhile (\<lambda>c. c \<noteq> sep) r) # runs sep (dropWhile (\<lambda>c. c \<noteq> sep) r)))"
  by pat_completeness auto
termination
proof (relation "measure (length \<circ> snd)")
  fix sep :: 'a and s spaces r assume "s \<noteq> []" and r: "r = dropWhile (\<lambda>c. c = sep) s"
  then obtain c t where s: "s = c # t" by (cases s) auto
  have "length (dropWhile (\<lambda>c. c = sep) t) \<le> length t" "length (dropWhile (\<lambda>c. c \<noteq> sep) t) \<le> length t"
    "length (dropWhile (\<lambda>c. c \<noteq> sep) (dropWhile (\<lambda>c. c = sep) t)) \<le> length (dropWhile (\<lambda>c. c = sep) t)"
    by (rule length_dropWhile_le)+
  then show "((sep, dropWhile (\<lambda>c. c \<noteq> sep) r), sep, s) \<in> measure (length \<circ> snd)"
    using r s by auto
qed simp

declare runs.simps [simp del]

lemma runs_Nil [simp]: "runs sep [] = []"
  by (simp add: runs.simps)

lemma plain_runs_word:
  assumes "reserve + run \<le> MAX_LINE"
  shows "plain_runs reserve run True bs \<longleftrightarrow>
    reserve + run + length (takeWhile (\<lambda>b. b \<noteq> 32) bs) \<le> MAX_LINE
    \<and> plain_runs reserve 0 False (dropWhile (\<lambda>b. b \<noteq> 32) bs)"
  using assms
proof (induction bs arbitrary: run)
  case (Cons b bs)
  show ?case
  proof (cases "b = 32")
    case False
    then show ?thesis using Cons.IH [of "Suc run"] by (auto simp: Let_def)
  qed (use Cons.prems in \<open>simp add: Let_def\<close>)
qed simp

lemma plain_runs_spaces:
  assumes "reserve + run \<le> MAX_LINE"
  shows "plain_runs reserve run False bs \<longleftrightarrow>
    (let spaces = takeWhile (\<lambda>b. b = 32) bs; r = dropWhile (\<lambda>b. b = 32) bs
     in reserve + run + length (spaces @ takeWhile (\<lambda>b. b \<noteq> 32) r) \<le> MAX_LINE
        \<and> plain_runs reserve 0 False (dropWhile (\<lambda>b. b \<noteq> 32) r))"
  using assms
proof (induction bs arbitrary: run)
  case (Cons b bs)
  show ?case
  proof (cases "b = 32")
    case True
    then show ?thesis using Cons.IH [of "Suc run"] by (auto simp: Let_def)
  next
    case False
    then show ?thesis using plain_runs_word [of reserve "Suc run" bs] by (auto simp: Let_def)
  qed
qed (simp add: Let_def)

lemma plain_runs_iff:
  "plain_runs reserve 0 False bs \<longleftrightarrow> list_all (\<lambda>r. reserve + length r \<le> MAX_LINE) (runs 32 bs)"
proof (cases "reserve \<le> MAX_LINE")
  case True
  then show ?thesis
  proof (induction "32 :: u8" bs rule: runs.induct)
    case (1 bs)
    then show ?case
      using plain_runs_spaces [of reserve 0 bs] by (cases "bs = []") (simp_all add: Let_def runs.simps [of _ bs])
  qed
next
  case False
  then show ?thesis by (cases bs) (simp_all add: Let_def runs.simps [of _ "x # xs" for x xs])
qed

lemma runs_map:
  assumes "\<And>c. c \<in> set s \<Longrightarrow> f c = f sep \<longleftrightarrow> c = sep"
  shows "runs (f sep) (map f s) = map (map f) (runs sep s)"
  using assms
proof (induction sep s rule: runs.induct)
  case (1 sep s)
  let ?r = "dropWhile (\<lambda>c. c = sep) s"
  have in_s: "c \<in> set s" if "c \<in> set ?r" for c using that by (rule set_dropWhileD)
  have spaces: "takeWhile (\<lambda>c. c = f sep) (map f s) = map f (takeWhile (\<lambda>c. c = sep) s)"
    "dropWhile (\<lambda>c. c = f sep) (map f s) = map f ?r"
    unfolding takeWhile_map dropWhile_map
    using 1(2) by (auto simp: comp_def intro!: arg_cong [of _ _ "map f"] takeWhile_cong dropWhile_cong)
  have word: "takeWhile (\<lambda>c. c \<noteq> f sep) (map f ?r) = map f (takeWhile (\<lambda>c. c \<noteq> sep) ?r)"
    "dropWhile (\<lambda>c. c \<noteq> f sep) (map f ?r) = map f (dropWhile (\<lambda>c. c \<noteq> sep) ?r)"
    unfolding takeWhile_map dropWhile_map
    using 1(2) in_s by (auto simp: comp_def intro!: arg_cong [of _ _ "map f"] takeWhile_cong dropWhile_cong)
  have rest: "f c = f sep \<longleftrightarrow> c = sep" if "c \<in> set (dropWhile (\<lambda>c. c \<noteq> sep) ?r)" for c
    using that 1(2) in_s by (auto dest: set_dropWhileD)
  show ?case
  proof (cases "s = []")
    case False
    then show ?thesis
      using 1(1) [OF False refl refl rest]
      by (subst (1 2) runs.simps) (simp add: Let_def spaces word)
  qed (simp add: runs.simps)
qed

lemma printable_bytes:
  "printable s \<Longrightarrow> utf8_encode s = map of_nat s \<and> list_all is_printable_byte (utf8_encode s)"
  by (induction s) (auto simp: printable_Cons utf8_char_def is_printable_byte_def unat_byte word_unat_eq_iff)

lemma printable_space:
  "printable s \<Longrightarrow> c \<in> set s \<Longrightarrow> (of_nat c :: u8) = of_nat 32 \<longleftrightarrow> c = 32"
  by (auto simp: printable_def list_all_iff word_unat_eq_iff unat_byte dest!: bspec)


lemma slice_subset: "set (slice s a b) \<subseteq> set s"
  by (auto simp: slice_def dest: in_set_takeD in_set_dropD)

lemma words_at_charset: "w \<in> set (words_at val marks) \<Longrightarrow> set (w_charset w) \<subseteq> set val"
proof (induction val marks rule: words_at.induct)
  case (1 val q0 q1 q2 q3 marks)
  then show ?case using slice_subset [of val "q0 + 1" q1] by (auto simp: Let_def split: if_splits)
qed auto

lemma join_printable: "printable sep \<Longrightarrow> (\<And>x. x \<in> set xs \<Longrightarrow> printable x) \<Longrightarrow> printable (join sep xs)"
  by (induction sep xs rule: join.induct) auto

lemma word_of_printable: "b64_encode_ok M \<Longrightarrow> printable cs \<Longrightarrow> printable (word_of M cs c)"
proof -
  assume "b64_encode_ok M" "printable cs"
  moreover then have "printable (b64_encode M c)"
    by (fastforce simp: b64_encode_ok_def printable_def list_all_iff is_b64_char_def ascii_defs)
  ultimately show ?thesis by (simp add: word_of_def) (simp add: printable_def lit_def)
qed

lemma forward_words_printable:
  "b64_encode_ok M \<Longrightarrow> printable val \<Longrightarrow> (\<And>w. w \<in> set ws \<Longrightarrow> set (w_charset w) \<subseteq> set val) \<Longrightarrow>
   forward_words M val in_phrase in_quotes ws copied = Ok out \<Longrightarrow> printable out"
proof (induction M val in_phrase in_quotes ws copied arbitrary: out rule: forward_words.induct)
  case (1 M val in_phrase in_quotes copied)
  then show ?case by (auto intro: printable_subset dest: in_set_dropD)
next
  case (2 M val in_phrase in_quotes w ws copied)
  from 2(6) obtain bytes where b: "ok_or InvalidMessage (decode_word M w) = Ok bytes" "\<not> unforwardable in_phrase bytes"
    by (auto simp: and_then_Inr_iff split: if_split_asm)
  show ?case
  proof (cases "byte_len (slice val (w_start w) (w_end w)) \<le> MAX_ENCODED_WORD")
    case True
    with 2 b show ?thesis by (auto simp: and_then_Inr_iff)
  next
    case False
    with 2(6) b obtain s rest where s: "split_word M (w_charset w) bytes = Some s"
      "forward_words M val in_phrase in_quotes ws (w_end w) = Ok rest"
      "out = slice val copied (w_start w) @ s @ rest" "\<not> (in_quotes \<or> \<not> delimited val w \<or> w_start w < copied)"
      by (auto simp: and_then_Inr_iff map_ok_Inr_iff ok_or_Inr_iff split: if_split_asm)
    have "printable (w_charset w)" using 2(5) [of w] by (intro printable_subset [OF 2(4)]) auto
    moreover obtain chunks where "s = join [32] (map (word_of M (w_charset w)) chunks)"
      by (rule split_word_chunks [OF s(1)])
    ultimately have "printable s"
      using word_of_printable [OF 2(3)] by (auto intro!: join_printable simp: printable_Cons)
    moreover have "printable rest"
      using 2(2) [OF b False s(4)] s(1,2) 2(3-5) by auto
    moreover have "printable (slice val copied (w_start w))"
      by (rule printable_subset [OF 2(4) slice_subset])
    ultimately show ?thesis by (simp add: s(3))
  qed
qed

lemma forwardable_printable:
  "b64_encode_ok M \<Longrightarrow> printable val \<Longrightarrow> forwardable M val in_phrase in_quotes = Ok out \<Longrightarrow> printable out"
  unfolding forwardable_def
  by (rule forward_words_printable) (auto simp: encoded_words_def dest: words_at_charset)

end
