(* ===== verification/Mime.thy ===== *)
theory Mime
  imports Mime_Words Smtp Auth
begin

text \<open>
  The message level of \<open>rust/src/mime.rs\<close>: the header values, the MIME tree, and \<open>build\<close>.  \<open>lettre\<close>
  renders: a header value is the list of calls on its header writer (\<open>writer_op\<close>), a part is the
  builder calls that make it, and the bytes come from the functions of \<open>mail_crates\<close>.  What this
  development says about the message is what it hands to \<open>lettre\<close>.
\<close>

subsection \<open>Header values\<close>

definition escape_special :: "rchar \<Rightarrow> rstr" where
  "escape_special c = (if c = 92 \<or> c = 34 then [92, c] else [c])"

definition quote_display :: "bool \<Rightarrow> rstr \<Rightarrow> rstr" where
  "quote_display in_quotes t =
     (if in_quotes
      then [34] @ replace_all [34] [92, 34] (replace_all [92] [92, 92] t) @ [34]
      else t)"

definition display_ops ::
  "mail_crates \<Rightarrow> nat \<Rightarrow> rstr \<Rightarrow> invalid_message + writer_op list" where
  "display_ops M pos display =
     (let in_quotes = list_ex (\<lambda>c. c \<in> set SPECIALS) display
      in if is_plain (quote_display in_quotes display) (pos + ADDRESS_ROOM)
         then map_ok (\<lambda>t. [Folding (quote_display in_quotes t)]) (forwardable M display True in_quotes)
         else if encoded_words display \<noteq> [] then Err InvalidMessage
         else if in_quotes then Ok [Rfc2047 display]
         else Ok [Rfc2047 (join [32] (filter (\<lambda>s. s \<noteq> []) (split_by is_space_tab display)))])"

definition write_mailbox ::
  "mail_crates \<Rightarrow> nat \<Rightarrow> mailbox \<Rightarrow> invalid_message + writer_op list" where
  "write_mailbox M pos m =
     (if encoded_words (mb_local m) \<noteq> [] then Err InvalidMessage
      else if display_name m = [] then Ok [Folding (addr_spec m)]
      else map_ok (\<lambda>ops. ops @ [Space, WriteChar 60, WriteStr (addr_spec m), WriteChar 62])
        (display_ops M pos (display_name m)))"

fun write_mailboxes ::
  "mail_crates \<Rightarrow> nat \<Rightarrow> bool \<Rightarrow> mailbox list \<Rightarrow> invalid_message + writer_op list" where
  "write_mailboxes M pos first [] = Ok []"
| "write_mailboxes M pos first (m # ms) =
     and_then (write_mailbox M pos m) (\<lambda>ops.
       map_ok (\<lambda>more. (if first then [] else [WriteChar 44, Space]) @ ops @ more)
         (write_mailboxes M pos False ms))"

definition address_header ::
  "mail_crates \<Rightarrow> rstr \<Rightarrow> mailbox list \<Rightarrow> invalid_message + header_value" where
  "address_header M name ms =
     map_ok (PreEncoded name (join (lit '', '') (map addr_spec ms)))
       (write_mailboxes M (byte_len name + 2) True ms)"

definition unstructured_header ::
  "mail_crates \<Rightarrow> rstr \<Rightarrow> rstr \<Rightarrow> invalid_message + header_value" where
  "unstructured_header M name val =
     (if \<not> header_name_ok M name then Err InvalidMessage
      else if is_plain val (byte_len name + 2)
      then map_ok (Value name) (forwardable M val False False)
      else if encoded_words val \<noteq> [] then Err InvalidMessage
      else Ok (PreEncoded name val [Rfc2047 (trim_start_matches is_space_tab val)]))"

definition is_id_char :: "rchar \<Rightarrow> bool" where
  "is_id_char c \<longleftrightarrow> is_ascii_alphanumeric c \<or> c \<in> set (lit ''!#$%&'' @ [39] @ lit ''*+-/=?^_`{|}~'')"

definition id_dot_atom :: "rstr \<Rightarrow> bool" where
  "id_dot_atom s \<longleftrightarrow> list_all (\<lambda>atom. atom \<noteq> [] \<and> list_all is_id_char atom) (split_at_char 46 s)"

definition is_message_id :: "rstr \<Rightarrow> bool" where
  "is_message_id s =
     (case strip_prefix [60] s of
        None \<Rightarrow> False
      | Some r \<Rightarrow>
          (case strip_suffix [62] r of
             None \<Rightarrow> False
           | Some inner \<Rightarrow>
               (case split_once 64 inner of
                  None \<Rightarrow> False
                | Some (left, right) \<Rightarrow> id_dot_atom left \<and> id_dot_atom right)))"

definition is_message_id_list :: "rstr \<Rightarrow> bool" where
  "is_message_id_list val =
     (let ids = filter (\<lambda>s. s \<noteq> []) (split_by is_space_tab val)
      in ids \<noteq> [] \<and> list_all is_message_id ids)"

text \<open>The loop of \<open>custom_headers\<close>; \<open>unique\<close> is the set of its name.\<close>

fun custom_headers ::
  "crates \<Rightarrow> mail_crates \<Rightarrow> (rstr \<times> rstr) list \<Rightarrow> rstr set \<Rightarrow> invalid_message + header_value list" where
  "custom_headers X M [] unique = Ok []"
| "custom_headers X M ((name, val) # headers) unique =
     (let lower = to_ascii_lowercase name;
          once = lower \<in> set (map lit [''reply-to'', ''in-reply-to'', ''references'']);
          message_ids = (lower = lit ''in-reply-to'' \<or> lower = lit ''references'')
      in if lower = lit ''orig-date'' then Err InvalidMessage
         else if once \<and> lower \<in> unique then Err InvalidMessage
         else if message_ids \<and> (\<not> is_message_id_list val \<or> encoded_words val \<noteq> []) then Err InvalidMessage
         else and_then
           (if lower = lit ''reply-to''
            then and_then (map_err (\<lambda>_. InvalidMessage) (parse_mailbox_list X val)) (\<lambda>ms.
              if may_decode_to_line_break M val then Err InvalidMessage
              else address_header M (lit ''Reply-To'') ms)
            else unstructured_header M name val) (\<lambda>rendered.
           map_ok (\<lambda>more. rendered # more)
             (custom_headers X M headers (if once then insert lower unique else unique))))"

subsection \<open>The body\<close>

datatype tree = Leaf single_part | Alternative "tree list" | Related "tree list" | Mixed "tree list"

text \<open>The loop over the chars of a text body.\<close>

fun crlf_lines :: "rstr \<Rightarrow> rstr" where
  "crlf_lines [] = []"
| "crlf_lines [c] = (if c = CR \<or> c = LF then [CR, LF] else [c])"
| "crlf_lines (c # d # r) =
     (if c = CR then [CR, LF] @ (if d = LF then crlf_lines r else crlf_lines (d # r))
      else if c = LF then [CR, LF] @ crlf_lines (d # r)
      else c # crlf_lines (d # r))"

definition text_lines :: "rstr \<Rightarrow> rstr" where
  "text_lines t =
     (let lines = crlf_lines t in if ends_with [CR, LF] lines then lines else lines @ [CR, LF])"

definition base64_body :: "u8 list \<Rightarrow> part_body" where
  "base64_body bytes = Base64_Body bytes"

definition text_part :: "rstr \<Rightarrow> rstr \<Rightarrow> single_part" where
  "text_part content_type t =
     (let lines = text_lines t;
          controls = list_ex (\<lambda>c. is_ascii_control c \<and> c \<noteq> 9 \<and> c \<noteq> CR \<and> c \<noteq> LF) lines
      in \<lparr>sp_content_type = content_type, sp_content_id = None, sp_disposition = NoDisposition,
          sp_body = (if controls then base64_body (utf8_encode lines) else Text_Body lines)\<rparr>)"

definition has_line_boundary :: "rstr \<Rightarrow> bool \<Rightarrow> bool" where
  "has_line_boundary val inline \<longleftrightarrow>
     (inline \<or> is_ascii val)
     \<and> list_ex (\<lambda>c. c \<in> {10, 13, 0x0B, 0x0C, 0x1C, 0x1D, 0x1E}
          \<or> inline \<and> c \<in> {0x85, 0x2028, 0x2029}) val"

definition is_mime_token :: "rstr \<Rightarrow> bool" where
  "is_mime_token s \<longleftrightarrow> s \<noteq> [] \<and> byte_len s \<le> 127
     \<and> list_all (\<lambda>c. is_ascii_alphanumeric c \<or> c \<in> set (lit ''!#$%&'' @ [39] @ lit ''*+-.^_`|~'')) s"

definition OCTET_STREAM :: rstr where
  "OCTET_STREAM = lit ''application/octet-stream''"

definition leaf_content_type :: "crates \<Rightarrow> mail_crates \<Rightarrow> rstr \<Rightarrow> rstr" where
  "leaf_content_type X M raw =
     (case (case split_once 47 raw of Some p \<Rightarrow> p | None \<Rightarrow> (raw, [])) of
        (main0, rest) \<Rightarrow>
          (let main = std_lower X (py_strip main0);
               sub = std_lower X (py_strip (hd (split_at_char 59 rest)))
           in if \<not> is_mime_token main \<or> \<not> is_mime_token sub \<or> main = lit ''multipart'' \<or> main = lit ''message''
              then OCTET_STREAM
              else (case parse_content_type M (main @ [47] @ sub) of Some t \<Rightarrow> t | None \<Rightarrow> OCTET_STREAM)))"

definition upload_part ::
  "crates \<Rightarrow> mail_crates \<Rightarrow> attachment \<Rightarrow> bool \<Rightarrow> invalid_message + tree" where
  "upload_part X M up inline =
     (let name = att_filename up;
          content_type = leaf_content_type X M (att_content_type up);
          body = base64_body (att_data up)
      in if has_line_boundary name inline then Err InvalidMessage
         else if inline then
           (if py_strip name \<noteq> name \<or> list_ex (\<lambda>c. c = 60 \<or> c = 62 \<or> c < 32 \<or> c = 127) name
            then Err InvalidMessage
            else map_ok (\<lambda>content_id. Leaf \<lparr>sp_content_type = content_type, sp_content_id = Some content_id,
                     sp_disposition = Inline_With_Name name, sp_body = body\<rparr>)
                   (unstructured_header M (lit ''Content-ID'') ([60] @ name @ [62])))
         else Ok (Leaf \<lparr>sp_content_type = content_type, sp_content_id = None,
                    sp_disposition = Attached name, sp_body = body\<rparr>))"

definition TEXT_PLAIN :: rstr where "TEXT_PLAIN = lit ''text/plain; charset=utf-8''"
definition TEXT_HTML :: rstr where "TEXT_HTML = lit ''text/html; charset=utf-8''"
definition TEXT_AMP :: rstr where "TEXT_AMP = lit ''text/x-amp-html; charset=utf-8''"

text \<open>The alternatives of the body, with the inline parts beside the HTML part.\<close>

definition alternatives ::
  "rstr option \<Rightarrow> rstr option \<Rightarrow> rstr option \<Rightarrow> tree list \<Rightarrow> tree list" where
  "alternatives txt html amp inline_parts =
     (case txt of Some t \<Rightarrow> [Leaf (text_part TEXT_PLAIN t)] | None \<Rightarrow> [])
     @ (case html of
          Some h \<Rightarrow>
            (let part = Leaf (text_part TEXT_HTML h)
             in [if inline_parts = [] then part else Related (part # inline_parts)])
        | None \<Rightarrow> [])
     @ (case amp of Some a \<Rightarrow> [Leaf (text_part TEXT_AMP a)] | None \<Rightarrow> [])"

definition body_tree ::
  "crates \<Rightarrow> mail_crates \<Rightarrow> rstr option \<Rightarrow> rstr option \<Rightarrow> rstr option \<Rightarrow> attachment list \<Rightarrow> attachment list
   \<Rightarrow> invalid_message + tree" where
  "body_tree X M txt html amp inline attachments =
     and_then (try_map (\<lambda>up. upload_part X M up True) inline) (\<lambda>inline_parts.
       (let alts = alternatives txt html amp inline_parts;
            single = (case alts of [t] \<Rightarrow> t | _ \<Rightarrow> Alternative alts);
            tree = (if html = None \<and> inline_parts \<noteq> [] then Mixed (single # inline_parts) else single)
        in if attachments = [] then Ok tree
           else map_ok (\<lambda>parts. Mixed ((case tree of Mixed ts \<Rightarrow> ts | other \<Rightarrow> [other]) @ parts))
                  (try_map (\<lambda>up. upload_part X M up False) attachments)))"

fun into_multipart :: "tree \<Rightarrow> multi_part" and child_of :: "tree \<Rightarrow> multi_child" where
  "into_multipart (Leaf p) = MultiPart MixedKind [SingleChild p]"
| "into_multipart (Alternative ts) = MultiPart AlternativeKind (map child_of ts)"
| "into_multipart (Related ts) = MultiPart RelatedKind (map child_of ts)"
| "into_multipart (Mixed ts) = MultiPart MixedKind (map child_of ts)"
| "child_of (Leaf p) = SingleChild p"
| "child_of (Alternative ts) = MultiChild (MultiPart AlternativeKind (map child_of ts))"
| "child_of (Related ts) = MultiChild (MultiPart RelatedKind (map child_of ts))"
| "child_of (Mixed ts) = MultiChild (MultiPart MixedKind (map child_of ts))"

definition tree_formatted :: "mail_crates \<Rightarrow> tree \<Rightarrow> u8 list" where
  "tree_formatted M t =
     (case t of
        Leaf p \<Rightarrow>
          (let bytes = single_formatted M p
           in if ends_with (CRLF @ CRLF) bytes then take (length bytes - 2) bytes else bytes)
      | multi \<Rightarrow> multipart_formatted M (into_multipart multi))"

subsection \<open>The message\<close>

definition non_empty :: "rstr option \<Rightarrow> rstr option" where
  "non_empty t = (case t of Some s \<Rightarrow> if s = [] then None else Some s | None \<Rightarrow> None)"

definition parse_recipients :: "crates \<Rightarrow> rstr list \<Rightarrow> invalid_message + mailbox list" where
  "parse_recipients X vals = try_map (\<lambda>v. map_err (\<lambda>_. InvalidMessage) (parse_mailbox X v)) vals"

text \<open>\<open>filter(|addr| seen.insert(addr))\<close>.\<close>

fun dedup_seen :: "rstr set \<Rightarrow> rstr list \<Rightarrow> rstr list" where
  "dedup_seen seen [] = []"
| "dedup_seen seen (a # as) = (if a \<in> seen then dedup_seen seen as else a # dedup_seen (insert a seen) as)"

text \<open>The header block: the headers \<open>Headers\<close> holds, then the custom ones, each rendered alone.\<close>

definition top_headers ::
  "mail_crates \<Rightarrow> mailbox \<Rightarrow> mailbox list \<Rightarrow> mailbox list \<Rightarrow> rstr \<Rightarrow> rstr \<Rightarrow> invalid_message + mail_header list"
where
  "top_headers M sender rcpts cc subject mid =
     and_then (address_header M (lit ''From'') [sender]) (\<lambda>from_h.
     and_then (if rcpts = [] then Ok [] else map_ok (\<lambda>h. [Raw h]) (address_header M (lit ''To'') rcpts)) (\<lambda>to_h.
     and_then (if cc = [] then Ok [] else map_ok (\<lambda>h. [Raw h]) (address_header M (lit ''Cc'') cc)) (\<lambda>cc_h.
     and_then (unstructured_header M (lit ''Subject'') subject) (\<lambda>subject_h.
       Ok ([Raw from_h] @ to_h @ cc_h @ [Raw subject_h, MessageId mid, DateNow, MimeVersion10])))))"

definition all_headers_of ::
  "crates \<Rightarrow> mail_crates \<Rightarrow> message_input \<Rightarrow> mailbox list \<Rightarrow> mailbox list \<Rightarrow> rstr
   \<Rightarrow> invalid_message + mail_header list \<times> header_value list" where
  "all_headers_of X M input rcpts cc mid =
     and_then (top_headers M (in_from input) rcpts cc (in_subject input) mid) (\<lambda>top.
       map_ok (Pair top) (custom_headers X M (in_headers input) {}))"

definition build :: "crates \<Rightarrow> mail_crates \<Rightarrow> rstr \<Rightarrow> message_input \<Rightarrow> invalid_message + built_message" where
  "build X M hex input =
     (let txt = non_empty (in_text input);
          html = non_empty (in_html input);
          amp = non_empty (in_amp_html input)
      in if txt = None \<and> html = None then Err InvalidMessage
         else
           and_then (parse_recipients X (in_to input)) (\<lambda>rcpts.
           and_then (parse_recipients X (in_cc input)) (\<lambda>cc.
           and_then (parse_recipients X (in_bcc input)) (\<lambda>bcc.
             if list_ex (may_decode_to_line_break M) (in_to input @ in_cc input) then Err InvalidMessage
             else
               (let mid = [60] @ hex @ [64] @ in_public_host input @ [62] in
                and_then (all_headers_of X M input rcpts cc mid) (\<lambda>(top, custom).
                and_then (body_tree X M txt html amp (in_inline input) (in_attachments input)) (\<lambda>tree.
                  (let head = headers_to_string M top
                         @ concat (map (\<lambda>h. headers_to_string M [Raw h]) custom)
                   in Ok \<lparr>message_id = mid,
                        envelope = dedup_seen {} (map addr_spec (rcpts @ cc @ bcc)),
                        formatted = utf8_encode head @ tree_formatted M tree\<rparr>))))))))"

subsection \<open>What is written raw is printable\<close>

fun op_printable :: "writer_op \<Rightarrow> bool" where
  "op_printable (Folding s) = printable s"
| "op_printable (WriteChar c) = printable [c]"
| "op_printable (WriteStr s) = printable s"
| "op_printable Space = True"
| "op_printable (Rfc2047 s) = True"

fun raw_printable :: "header_value \<Rightarrow> bool" where
  "raw_printable (Value n v) = printable v"
| "raw_printable (PreEncoded n v ops) = list_all op_printable ops"

lemma printable_addr_spec: "idna_ok X \<Longrightarrow> wf_mailbox X m \<Longrightarrow> printable (addr_spec m)"
  using addr_spec_char [of X m] by (fastforce simp: printable_def list_all_iff)

lemma set_replace_all: "set (replace_all pat rep s) \<subseteq> set s \<union> set rep"
proof (induction pat rep s rule: replace_all.induct)
  case (1 pat rep s)
  show ?case
  proof (cases "pat = [] \<or> s = []")
    case True
    then show ?thesis by (subst replace_all.simps) simp
  next
    case False
    then show ?thesis
      using 1 by (subst replace_all.simps) (auto dest: in_set_dropD list.set_sel(2) intro: hd_in_set)
  qed
qed

lemma printable_quote_display: "printable t \<Longrightarrow> printable (quote_display in_quotes t)"
proof -
  assume "printable t"
  moreover have "set (replace_all [34] [92, 34] (replace_all [92] [92, 92] t)) \<subseteq> set t \<union> {92, 34}"
    using set_replace_all [of "[34]" "[92, 34]" "replace_all [92] [92, 92] t"]
      set_replace_all [of "[92]" "[92, 92]" t] by auto
  ultimately have "printable (replace_all [34] [92, 34] (replace_all [92] [92, 92] t))"
    unfolding printable_def list_all_iff by fastforce
  with \<open>printable t\<close> show ?thesis by (simp add: quote_display_def printable_Cons)
qed

lemma replace_all_keeps:
  "x \<in> set s \<Longrightarrow> x \<in> set (replace_all [c] (c' # [c]) s) \<or> x = c"
proof (induction "[c]" "c' # [c]" s rule: replace_all.induct)
  case (1 s)
  then show ?case
    by (subst replace_all.simps) (cases s; auto simp: starts_with_def)
qed

lemma printable_unquote:
  assumes "printable (quote_display in_quotes display)"
  shows "printable display"
proof (cases in_quotes)
  case True
  have "c \<in> set (quote_display True display) \<or> c = 92 \<or> c = 34" if "c \<in> set display" for c
    using replace_all_keeps [of c display 92 92]
      replace_all_keeps [of c "replace_all [92] [92, 92] display" 34 92] that
    by (auto simp: quote_display_def)
  with True assms show ?thesis unfolding printable_def list_all_iff by fastforce
qed (use assms in \<open>simp add: quote_display_def\<close>)

lemma write_mailbox_printable:
  assumes "idna_ok X" "b64_encode_ok M" "wf_mailbox X m" "write_mailbox M pos m = Ok ops"
  shows "list_all op_printable ops"
proof -
  have disp: "list_all op_printable ops'" if "display_ops M pos d = Ok ops'" for d ops'
    using that assms(2)
    by (auto simp: display_ops_def Let_def map_ok_Inr_iff split: if_split_asm
        intro!: printable_quote_display elim!: forwardable_printable [rotated 2] dest!: is_plain_printable printable_unquote)
  show ?thesis
    using assms(4) printable_addr_spec [OF assms(1,3)] disp
    by (auto simp: write_mailbox_def map_ok_Inr_iff printable_Cons split: if_split_asm)
qed

lemma write_mailboxes_printable:
  assumes "idna_ok X" "b64_encode_ok M"
  shows "\<forall>m \<in> set ms. wf_mailbox X m \<Longrightarrow> write_mailboxes M pos first ms = Ok ops \<Longrightarrow> list_all op_printable ops"
proof (induction ms arbitrary: first ops)
  case (Cons m ms)
  then show ?case using write_mailbox_printable [OF assms]
    by (auto simp: and_then_Inr_iff map_ok_Inr_iff printable_Cons split: if_split_asm)
qed simp

lemma address_header_printable:
  "idna_ok X \<Longrightarrow> b64_encode_ok M \<Longrightarrow> \<forall>m \<in> set ms. wf_mailbox X m \<Longrightarrow>
   address_header M name ms = Ok h \<Longrightarrow> raw_printable h"
  by (auto simp: address_header_def map_ok_Inr_iff dest: write_mailboxes_printable)

lemma unstructured_header_printable:
  "b64_encode_ok M \<Longrightarrow> unstructured_header M name val = Ok h \<Longrightarrow> raw_printable h"
  by (auto simp: unstructured_header_def map_ok_Inr_iff split: if_split_asm
      dest: is_plain_printable forwardable_printable)

lemma custom_headers_printable:
  assumes "idna_ok X" "b64_encode_ok M"
  shows "custom_headers X M hs unique = Ok out \<Longrightarrow> list_all raw_printable out"
proof (induction hs arbitrary: unique out)
  case (Cons h hs)
  obtain name val where h: "h = (name, val)" by (cases h)
  from Cons.prems obtain rendered more unique' where r: "out = rendered # more"
    "custom_headers X M hs unique' = Ok more"
    "(\<exists>ms. parse_mailbox_list X val = Ok ms \<and> address_header M (lit ''Reply-To'') ms = Ok rendered)
     \<or> unstructured_header M name val = Ok rendered"
    by (auto simp: h Let_def and_then_Inr_iff map_err_Inr_iff map_ok_Inr_iff split: if_split_asm)
  have "raw_printable rendered"
    using r(3)
  proof
    assume "\<exists>ms. parse_mailbox_list X val = Ok ms \<and> address_header M (lit ''Reply-To'') ms = Ok rendered"
    then obtain ms where ms: "parse_mailbox_list X val = Ok ms" "address_header M (lit ''Reply-To'') ms = Ok rendered"
      by blast
    from ms(1) assms(1) have "\<forall>m \<in> set ms. wf_mailbox X m"
      by (auto simp: parse_mailbox_list_def split: if_splits dest: mailbox_list_loop_wf)
    then show ?thesis by (rule address_header_printable [OF assms _ ms(2)])
  qed (rule unstructured_header_printable [OF assms(2)])
  with Cons.IH [OF r(2)] r(1) show ?case by simp
qed simp

lemma parse_mailbox_wf: "idna_ok X \<Longrightarrow> parse_mailbox X v = Ok m \<Longrightarrow> wf_mailbox X m"
  by (auto simp: parse_mailbox_def split: if_splits dest: mailbox_of_wf)

lemma parse_recipients_wf:
  assumes "idna_ok X" "parse_recipients X vals = Ok ms"
  shows "\<forall>m \<in> set ms. wf_mailbox X m"
  using assms(2)
proof (induction vals arbitrary: ms)
  case (Cons v vals)
  then obtain m ms' where "parse_mailbox X v = Ok m" "ms = m # ms'" "parse_recipients X vals = Ok ms'"
    by (auto simp: parse_recipients_def and_then_Inr_iff map_err_Inr_iff)
  with Cons.IH parse_mailbox_wf [OF assms(1)] show ?case by simp
qed (simp add: parse_recipients_def)

text \<open>C19: nothing raw gets into a header: for every validated request, each piece of a header value
  that is written as received is printable ASCII or TAB, so no header value can start another
  header line or hold a raw non-ASCII byte; everything else goes through the RFC 2047 encoder.\<close>

theorem headers_raw_printable:
  assumes "idna_ok X" "b64_encode_ok M" "wf_mailbox X (in_from input)"
    "parse_recipients X (in_to input) = Ok rcpts" "parse_recipients X (in_cc input) = Ok cc"
    "all_headers_of X M input rcpts cc mid = Ok (tops, custom)"
  shows "(\<forall>h. Raw h \<in> set tops \<longrightarrow> raw_printable h) \<and> list_all raw_printable custom"
proof
  note wf = parse_recipients_wf [OF assms(1,4)] parse_recipients_wf [OF assms(1,5)]
  from assms(6) have top: "top_headers M (in_from input) rcpts cc (in_subject input) mid = Ok tops"
    and custom: "custom_headers X M (in_headers input) {} = Ok custom"
    by (auto simp: all_headers_of_def and_then_Inr_iff map_ok_Inr_iff)
  show "list_all raw_printable custom" by (rule custom_headers_printable [OF assms(1,2) custom])
  show "\<forall>h. Raw h \<in> set tops \<longrightarrow> raw_printable h"
    using top wf address_header_printable [OF assms(1,2)] unstructured_header_printable [OF assms(2)]
      address_header_printable [OF assms(1,2), of "[in_from input]"] assms(3)
    by (auto simp: top_headers_def and_then_Inr_iff map_ok_Inr_iff split: if_split_asm)
qed

subsection \<open>The text of a body\<close>

text \<open>Python's \<open>bytes.splitlines\<close>.\<close>

fun splitlines :: "rstr \<Rightarrow> rstr list" where
  "splitlines [] = []"
| "splitlines [c] = (if c = CR \<or> c = LF then [[]] else [[c]])"
| "splitlines (c # d # r) =
     (if c = CR then [] # (if d = LF then splitlines r else splitlines (d # r))
      else if c = LF then [] # splitlines (d # r)
      else (case splitlines (d # r) of [] \<Rightarrow> [[c]] | l # ls \<Rightarrow> (c # l) # ls))"

lemma splitlines_Cons_neq: "splitlines (c # r) \<noteq> []"
  by (cases r) (auto split: list.splits)

lemma crlf_lines_neq: "crlf_lines (c # r) \<noteq> []"
  by (cases r) auto

definition full_lines :: "rstr \<Rightarrow> rstr" where
  "full_lines t = concat (map (\<lambda>l. l @ [CR, LF]) (splitlines t))"

lemma full_lines_CR:
  "full_lines (CR # LF # r) = [CR, LF] @ full_lines r"
  "d \<noteq> LF \<Longrightarrow> full_lines (CR # d # r) = [CR, LF] @ full_lines (d # r)"
  "full_lines (LF # d # r) = [CR, LF] @ full_lines (d # r)"
  by (simp_all add: full_lines_def)

lemma full_lines_char:
  "c \<noteq> CR \<Longrightarrow> c \<noteq> LF \<Longrightarrow> full_lines (c # d # r) = c # full_lines (d # r)"
  using splitlines_Cons_neq [of d r] by (auto simp: full_lines_def split: list.splits)

lemma crlf_lines_full:
  "t \<noteq> [] \<Longrightarrow>
   full_lines t = crlf_lines t \<and> (\<exists>p. crlf_lines t = p @ [CR, LF])
   \<or> full_lines t = crlf_lines t @ [CR, LF] \<and> crlf_lines t \<noteq> [] \<and> last (crlf_lines t) \<noteq> LF"
proof (induction t rule: crlf_lines.induct)
  case (2 c)
  then show ?case by (auto simp: full_lines_def)
next
  case (3 c d r)
  consider "c = CR" "d = LF" "r = []" | "c = CR" "d = LF" "r \<noteq> []" | "c = CR" "d \<noteq> LF" | "c = LF"
    | "c \<noteq> CR" "c \<noteq> LF" by blast
  then show ?case
  proof cases
    case 1
    then show ?thesis by (simp add: full_lines_def)
  next
    case 2
    with 3(1) show ?thesis by (auto simp: full_lines_CR)
  next
    case 3
    with "3.IH"(2) show ?thesis by (auto simp: full_lines_CR)
  next
    case 4
    with "3.IH"(3) show ?thesis by (auto simp: full_lines_CR)
  next
    case 5
    with "3.IH"(4) show ?thesis by (auto simp: full_lines_char)
  qed
qed simp

lemma splitlines_clean: "l \<in> set (splitlines t) \<Longrightarrow> CR \<notin> set l \<and> LF \<notin> set l"
proof (induction t arbitrary: l rule: splitlines.induct)
  case (3 c d r)
  then show ?case by (auto split: if_splits list.splits)
qed (auto split: if_splits)

text \<open>C23: a text body is stored as its lines, each ended by CRLF, where a line of the input ends with
  CRLF, CR or LF and the last one also at the end of the text: no line is lost or merged, and the
  lines themselves hold neither CR nor LF.\<close>

theorem text_lines_splitlines:
  assumes "t \<noteq> []"
  shows "text_lines t = concat (map (\<lambda>l. l @ [CR, LF]) (splitlines t))
    \<and> (\<forall>l \<in> set (splitlines t). CR \<notin> set l \<and> LF \<notin> set l)"
proof -
  have ends: "ends_with [CR, LF] s \<longleftrightarrow> (\<exists>p. s = p @ [CR, LF])" for s
    by (auto simp: ends_with_iff)
  from crlf_lines_full [OF assms] have "text_lines t = full_lines t"
    by (auto simp: text_lines_def Let_def ends)
  then show ?thesis using splitlines_clean by (auto simp: full_lines_def)
qed

subsection \<open>The tree\<close>

fun leaves :: "tree \<Rightarrow> single_part list" where
  "leaves (Leaf p) = [p]"
| "leaves (Alternative ts) = concat (map leaves ts)"
| "leaves (Related ts) = concat (map leaves ts)"
| "leaves (Mixed ts) = concat (map leaves ts)"

fun multi_leaves :: "multi_part \<Rightarrow> single_part list" and child_leaves :: "multi_child \<Rightarrow> single_part list" where
  "multi_leaves (MultiPart k cs) = concat (map child_leaves cs)"
| "child_leaves (SingleChild p) = [p]"
| "child_leaves (MultiChild m) = multi_leaves m"

lemma leaves_into_multipart:
  "multi_leaves (into_multipart t) = leaves t" "child_leaves (child_of t) = leaves t"
proof (induction t and t rule: into_multipart_child_of.induct)
qed (auto simp: comp_def cong: map_cong)

text \<open>The part of an upload.\<close>

definition upload_leaf :: "crates \<Rightarrow> mail_crates \<Rightarrow> bool \<Rightarrow> attachment \<Rightarrow> single_part \<Rightarrow> bool" where
  "upload_leaf X M inline up p \<longleftrightarrow>
     sp_body p = Base64_Body (att_data up)
     \<and> sp_disposition p = (if inline then Inline_With_Name (att_filename up) else Attached (att_filename up))
     \<and> sp_content_type p = leaf_content_type X M (att_content_type up)"

lemma upload_part_leaf:
  "upload_part X M up inline = Ok t \<Longrightarrow> \<exists>p. t = Leaf p \<and> upload_leaf X M inline up p"
  by (auto simp: upload_part_def Let_def base64_body_def upload_leaf_def map_ok_Inr_iff split: if_split_asm)

lemma upload_parts_leaves:
  "try_map (\<lambda>up. upload_part X M up inline) ups = Ok ts \<Longrightarrow>
   \<exists>ps. ts = map Leaf ps \<and> list_all2 (upload_leaf X M inline) ups ps"
proof (induction ups arbitrary: ts)
  case (Cons up ups)
  then obtain t ts' where t: "upload_part X M up inline = Ok t" "ts = t # ts'"
    "try_map (\<lambda>up. upload_part X M up inline) ups = Ok ts'"
    by (auto simp: and_then_Inr_iff)
  from upload_part_leaf [OF t(1)] Cons.IH [OF t(3)] obtain p ps where
    "t = Leaf p" "upload_leaf X M inline up p" "ts' = map Leaf ps" "list_all2 (upload_leaf X M inline) ups ps"
    by blast
  with t(2) show ?case by (intro exI [of _ "p # ps"]) simp
qed auto

lemma concat_leaves_map_Leaf [simp]: "concat (map (leaves \<circ> Leaf) ps) = ps"
  by (induction ps) auto

definition opt_part :: "rstr \<Rightarrow> rstr option \<Rightarrow> single_part list" where
  "opt_part content_type t = (case t of Some s \<Rightarrow> [text_part content_type s] | None \<Rightarrow> [])"

lemma alternatives_leaves:
  "concat (map leaves (alternatives txt html amp (map Leaf ps))) =
     opt_part TEXT_PLAIN txt @ opt_part TEXT_HTML html @ (if html = None then [] else ps) @ opt_part TEXT_AMP amp"
  by (auto simp: alternatives_def opt_part_def Let_def split: option.splits)

text \<open>C22: the message holds every part once and nothing else: the text, the HTML part with the inline
  files behind it, the AMP part, the inline files when there is no HTML part, then the attachments,
  in the order of the form; each file with its data, name and content type.\<close>

theorem body_tree_leaves:
  assumes "body_tree X M txt html amp inline attachments = Ok t"
  shows "\<exists>ins atts. list_all2 (upload_leaf X M True) inline ins
     \<and> list_all2 (upload_leaf X M False) attachments atts
     \<and> leaves t = opt_part TEXT_PLAIN txt @ opt_part TEXT_HTML html
         @ (if html = None then [] else ins) @ opt_part TEXT_AMP amp
         @ (if html = None then ins else []) @ atts
     \<and> multi_leaves (into_multipart t) = leaves t"
proof -
  from assms obtain inline_parts where i: "try_map (\<lambda>up. upload_part X M up True) inline = Ok inline_parts"
    by (auto simp: body_tree_def and_then_Inr_iff)
  from upload_parts_leaves [OF i] obtain ins where ins: "inline_parts = map Leaf ins"
    "list_all2 (upload_leaf X M True) inline ins" by blast
  let ?alts = "alternatives txt html amp inline_parts"
  let ?single = "case ?alts of [t] \<Rightarrow> t | _ \<Rightarrow> Alternative ?alts"
  let ?tree = "if html = None \<and> inline_parts \<noteq> [] then Mixed (?single # inline_parts) else ?single"
  have single: "leaves ?single = opt_part TEXT_PLAIN txt @ opt_part TEXT_HTML html
      @ (if html = None then [] else ins) @ opt_part TEXT_AMP amp"
    unfolding alternatives_leaves [symmetric] ins(1)
    by (auto split: list.split)
  have tree: "leaves ?tree = opt_part TEXT_PLAIN txt @ opt_part TEXT_HTML html
      @ (if html = None then [] else ins) @ opt_part TEXT_AMP amp @ (if html = None then ins else [])"
    using single ins(1) by auto
  have "\<exists>atts. list_all2 (upload_leaf X M False) attachments atts \<and> leaves t = leaves ?tree @ atts"
  proof (cases "attachments = []")
    case True
    with assms i have "t = ?tree" by (simp add: body_tree_def Let_def)
    with True show ?thesis by simp
  next
    case False
    with assms i obtain parts where p: "try_map (\<lambda>up. upload_part X M up False) attachments = Ok parts"
      "t = Mixed ((case ?tree of Mixed ts \<Rightarrow> ts | other \<Rightarrow> [other]) @ parts)"
      by (auto simp: body_tree_def Let_def map_ok_Inr_iff simp del: split_paired_Ex)
    from upload_parts_leaves [OF p(1)] obtain atts where atts: "parts = map Leaf atts"
      "list_all2 (upload_leaf X M False) attachments atts" by blast
    have "concat (map leaves (case T of Mixed ts \<Rightarrow> ts | other \<Rightarrow> [other])) = leaves T" for T
      by (cases T) auto
    then have "leaves t = leaves ?tree @ atts" unfolding p(2) atts(1) by simp
    with atts(2) show ?thesis by blast
  qed
  with ins(2) tree show ?thesis by (auto simp: leaves_into_multipart)
qed

subsection \<open>The envelope\<close>

lemma dedup_seen_spec:
  "set (dedup_seen seen as) = set as - seen \<and> distinct (dedup_seen seen as) \<and> subseq (dedup_seen seen as) as"
proof (induction seen as rule: dedup_seen.induct)
  case (2 seen a as)
  then show ?case by (cases "a \<in> seen") auto
qed simp

text \<open>A built message, taken apart.\<close>

lemma build_Ok:
  assumes "build X M hex input = Ok m"
  obtains rcpts cc bcc top custom t where
    "parse_recipients X (in_to input) = Ok rcpts" "parse_recipients X (in_cc input) = Ok cc"
    "parse_recipients X (in_bcc input) = Ok bcc"
    "\<not> list_ex (may_decode_to_line_break M) (in_to input @ in_cc input)"
    "all_headers_of X M input rcpts cc ([60] @ hex @ [64] @ in_public_host input @ [62]) = Ok (top, custom)"
    "body_tree X M (non_empty (in_text input)) (non_empty (in_html input)) (non_empty (in_amp_html input))
       (in_inline input) (in_attachments input) = Ok t"
    "m = \<lparr>message_id = [60] @ hex @ [64] @ in_public_host input @ [62],
          envelope = dedup_seen {} (map addr_spec (rcpts @ cc @ bcc)),
          formatted = utf8_encode (headers_to_string M top @ concat (map (\<lambda>h. headers_to_string M [Raw h]) custom))
            @ tree_formatted M t\<rparr>"
    "non_empty (in_text input) \<noteq> None \<or> non_empty (in_html input) \<noteq> None"
  using assms unfolding build_def Let_def
  by (auto simp: and_then_Inr_iff simp del: list_ex_append split: if_split_asm)

text \<open>C18: the envelope of a built message is the addresses of its \<open>to\<close>, \<open>cc\<close> and \<open>bcc\<close> values, in order
  and each once, and every one of them is an address an SMTP session accepts, so no message is
  built that a session could not deliver for its addresses.\<close>

theorem build_envelope:
  assumes "idna_ok X" "build X M hex input = Ok m"
  shows "\<exists>ms. parse_recipients X (in_to input @ in_cc input @ in_bcc input) = Ok ms
     \<and> set (envelope m) = addr_spec ` set ms \<and> distinct (envelope m)
     \<and> subseq (envelope m) (map addr_spec ms)
     \<and> envelope_addresses (envelope m) \<noteq> None"
proof -
  obtain rcpts cc bcc where p: "parse_recipients X (in_to input) = Ok rcpts"
    "parse_recipients X (in_cc input) = Ok cc" "parse_recipients X (in_bcc input) = Ok bcc"
    and e: "envelope m = dedup_seen {} (map addr_spec (rcpts @ cc @ bcc))"
    by (rule build_Ok [OF assms(2)]) simp
  let ?ms = "rcpts @ cc @ bcc"
  have ms: "parse_recipients X (in_to input @ in_cc input @ in_bcc input) = Ok ?ms"
    using p unfolding parse_recipients_def try_map_Inr_iff by (intro list_all2_appendI)
  note spec = dedup_seen_spec [of "{}" "map addr_spec ?ms"]
  have "\<forall>a \<in> set (envelope m). \<exists>m \<in> set ?ms. wf_mailbox X m \<and> a = addr_spec m"
    using spec parse_recipients_wf [OF assms(1) ms] by (auto simp: e)
  then have "\<exists>rs. envelope_addresses as = Some rs" if "set as \<subseteq> set (envelope m)" for as
    using that
  proof (induction as)
    case (Cons a as)
    then obtain mb where mb: "wf_mailbox X mb" "a = addr_spec mb" by auto
    from Cons obtain rs where rs: "envelope_addresses as = Some rs" by auto
    show ?case by (simp add: rs mb(2) envelope_address_addr_spec [OF assms(1) mb(1)])
  qed simp
  then have "envelope_addresses (envelope m) \<noteq> None" by blast
  with ms spec show ?thesis unfolding e by auto
qed

text \<open>C20: blind copies stay blind: the message and its id do not depend on the \<open>bcc\<close> values at all,
  only the envelope does.\<close>

theorem bcc_hidden:
  assumes "build X M hex input = Ok m" "build X M hex (input\<lparr>in_bcc := other\<rparr>) = Ok m'"
  shows "formatted m = formatted m' \<and> message_id m = message_id m'"
proof -
  have headers: "all_headers_of X M (input\<lparr>in_bcc := other\<rparr>) rcpts cc mid = all_headers_of X M input rcpts cc mid"
    for rcpts cc mid by (simp add: all_headers_of_def)
  show ?thesis
    by (rule build_Ok [OF assms(1)], rule build_Ok [OF assms(2)]) (auto simp: headers)
qed

subsection \<open>An example\<close>

subsection \<open>The message id\<close>

text \<open>\<open>random_hex\<close> of \<open>pipeline.rs\<close> over 16 random bytes.\<close>

definition random_hex :: "u8 list \<Rightarrow> rstr" where
  "random_hex bytes = hex_lower bytes"

definition is_hex_char :: "rchar \<Rightarrow> bool" where
  "is_hex_char c \<longleftrightarrow> is_ascii_digit c \<or> 97 \<le> c \<and> c \<le> 102"

lemma random_hex_form: "length (random_hex bytes) = 2 * length bytes \<and> list_all is_hex_char (random_hex bytes)"
proof -
  have "is_hex_char (hex_char n)" if "n < 16" for n
    using that by (auto simp: hex_char_def is_hex_char_def is_ascii_digit_def)
  moreover have "unat b div 16 < 16" for b :: u8
    using unat_u8 [of b] by (simp add: less_mult_imp_div_less)
  ultimately show ?thesis by (induction bytes) (auto simp: random_hex_def hex_lower_def)
qed

lemma is_hex_char_id: "is_hex_char c \<Longrightarrow> is_id_char c \<and> c \<notin> {46, 63, 64, 60, 62, 32, 9}"
  by (auto simp: is_hex_char_def is_id_char_def ascii_defs)

lemma id_dot_atom_chars: "id_dot_atom s \<Longrightarrow> c \<in> set s \<Longrightarrow> is_id_char c \<or> c = 46"
  using split_by_covers [of c s "\<lambda>x. x = 46"] by (auto simp: id_dot_atom_def list_all_iff)

lemma not_id_char: "\<not> is_id_char 64" "\<not> is_id_char 62" "\<not> is_id_char 32" "\<not> is_id_char 9" "\<not> is_id_char 60"
  by (simp_all add: is_id_char_def lit_def ascii_defs)

lemma id_dot_atom_hex: "s \<noteq> [] \<Longrightarrow> list_all is_hex_char s \<Longrightarrow> id_dot_atom s"
  using is_hex_char_id by (subst id_dot_atom_def, subst split_by_none) (auto simp: list_all_iff)

lemma is_message_id_made:
  assumes "id_dot_atom l" "id_dot_atom r"
  shows "is_message_id_list ([60] @ l @ [64] @ r @ [62])"
proof -
  have chars: "is_id_char c \<or> c = 46" if "c \<in> set l \<union> set r" for c
    using that assms id_dot_atom_chars by blast
  then have "64 \<notin> set l" using not_id_char by force
  then have inner: "split_once 64 (l @ 64 # r) = Some (l, r)" by (simp add: split_once_Some_iff)
  have "\<not> is_space_tab c" if "c \<in> set ([60] @ l @ [64] @ r @ [62])" for c
    using that chars [of c] not_id_char by (auto simp: is_space_tab_def)
  then have one: "split_by is_space_tab ([60] @ l @ [64] @ r @ [62]) = [[60] @ l @ [64] @ r @ [62]]"
    by (rule split_by_none)
  have "strip_prefix [60] ([60] @ l @ [64] @ r @ [62]) = Some (l @ [64] @ r @ [62])"
    "strip_suffix [62] (l @ [64] @ r @ [62]) = Some (l @ [64] @ r)"
    by (simp_all add: strip_prefix_Some_iff strip_suffix_Some_iff)
  with inner one assms show ?thesis
    by (simp add: is_message_id_list_def is_message_id_def)
qed

lemma no_mark_no_words: "63 \<notin> set val \<Longrightarrow> encoded_words val = []"
proof -
  assume "63 \<notin> set val"
  then have "filter (\<lambda>i. val ! i = 63) [0..<length val] = []"
    unfolding filter_empty_conv by (auto, metis nth_mem)
  then show ?thesis by (simp add: encoded_words_def)
qed

lemma unstructured_header_no_mark:
  "header_name_ok M name \<Longrightarrow> 63 \<notin> set val \<Longrightarrow> \<exists>h. unstructured_header M name val = Ok h"
  by (simp add: unstructured_header_def no_mark_no_words forwardable_def)

text \<open>C21: the id of a message is \<open><32 hex digits@PUBLIC_HOST>\<close>, and a client can refer to it: a later request
  may name it in \<open>h:In-Reply-To\<close> or \<open>h:References\<close>, whose values must be lists of message ids, if the
  public host is itself of the form these ask for, without a question mark.\<close>

theorem message_id_form:
  assumes "length bytes = 16" "build X M (random_hex bytes) input = Ok m"
    "id_dot_atom (in_public_host input)" "63 \<notin> set (in_public_host input)"
    "header_name_ok M name" "to_ascii_lowercase name \<in> {lit ''in-reply-to'', lit ''references''}"
  shows "(\<exists>hex. message_id m = [60] @ hex @ [64] @ in_public_host input @ [62]
            \<and> length hex = 32 \<and> list_all is_hex_char hex)
     \<and> (\<exists>h. custom_headers X M [(name, message_id m)] {} = Ok [h])"
proof -
  have mid: "message_id m = [60] @ random_hex bytes @ [64] @ in_public_host input @ [62]"
    by (rule build_Ok [OF assms(2)]) simp
  have hex: "length (random_hex bytes) = 32" "list_all is_hex_char (random_hex bytes)"
    using random_hex_form [of bytes] assms(1) by simp_all
  then have "id_dot_atom (random_hex bytes)" by (intro id_dot_atom_hex) auto
  then have ids: "is_message_id_list (message_id m)" unfolding mid by (rule is_message_id_made [OF _ assms(3)])
  have mark: "63 \<notin> set (message_id m)"
    using hex(2) is_hex_char_id assms(4) by (fastforce simp: mid list_all_iff)
  obtain h where "unstructured_header M name (message_id m) = Ok h"
    using unstructured_header_no_mark [OF assms(5) mark] by blast
  moreover have "to_ascii_lowercase name \<noteq> lit ''orig-date''" "to_ascii_lowercase name \<noteq> lit ''reply-to''"
    using assms(6) by (auto simp: lit_def)
  ultimately have "custom_headers X M [(name, message_id m)] {} = Ok [h]"
    using ids no_mark_no_words [OF mark] by (simp add: Let_def)
  with mid hex show ?thesis by blast
qed

definition demo_input :: message_input where
  "demo_input = \<lparr>in_from = \<lparr>display_name = lit ''J'', mb_local = lit ''j'', mb_domain = lit ''example.com''\<rparr>,
     in_to = [lit ''A B <a@b.c>'', lit ''a@b.c''], in_cc = [], in_bcc = [lit ''x@y.z''],
     in_subject = lit ''Hi'', in_text = Some (lit ''Hello''), in_html = Some (lit ''<b>Hello</b>''), in_amp_html = None,
     in_headers = [(lit ''X-Tag'', lit ''1'')],
     in_attachments = [\<lparr>att_filename = lit ''a.txt'', att_content_type = lit ''Multipart/Mixed; x'', att_data = [1]\<rparr>],
     in_inline = [\<lparr>att_filename = lit ''i.png'', att_content_type = lit ''image/png'', att_data = [2]\<rparr>],
     in_public_host = lit ''relay''\<rparr>"

definition demo_built :: built_message where
  "demo_built = \<lparr>message_id = lit ''<00@relay>'', envelope = map lit [''a@b.c'', ''x@y.z''],
     formatted = replicate 7 72 @ [77]\<rparr>"

lemma demo_build: "build ascii_crates demo_mail (lit ''00'') demo_input = Ok demo_built"
  by code_simp

lemma demo_build_bcc:
  "build ascii_crates demo_mail (lit ''00'') (demo_input\<lparr>in_bcc := []\<rparr>) = Ok (demo_built\<lparr>envelope := [lit ''a@b.c'']\<rparr>)"
  by code_simp

theorem build_envelope_witness:
  "distinct (envelope demo_built) \<and> envelope_addresses (envelope demo_built) \<noteq> None"
  using build_envelope [OF idna_ok_ascii_crates demo_build] by blast

theorem bcc_hidden_witness:
  "formatted demo_built = formatted (demo_built\<lparr>envelope := [lit ''a@b.c'']\<rparr>)"
  using bcc_hidden [OF demo_build demo_build_bcc] by blast

theorem text_lines_splitlines_witness:
  "text_lines (lit ''a'' @ [CR] @ lit ''b'') = lit ''a'' @ [CR, LF] @ lit ''b'' @ [CR, LF]"
proof -
  have "lit ''a'' @ [CR] @ lit ''b'' \<noteq> []" by simp
  moreover have "concat (map (\<lambda>l. l @ [CR, LF]) (splitlines (lit ''a'' @ [CR] @ lit ''b'')))
      = lit ''a'' @ [CR, LF] @ lit ''b'' @ [CR, LF]" by code_simp
  ultimately show ?thesis using text_lines_splitlines [of "lit ''a'' @ [CR] @ lit ''b''"] by simp
qed

theorem body_tree_leaves_witness:
  "\<exists>t. body_tree ascii_crates demo_mail (in_text demo_input) (in_html demo_input) None
       (in_inline demo_input) (in_attachments demo_input) = Ok t
     \<and> length (leaves t) = 4"
proof -
  let ?b = "body_tree ascii_crates demo_mail (in_text demo_input) (in_html demo_input) None
      (in_inline demo_input) (in_attachments demo_input)"
  have "(case ?b of Inr _ \<Rightarrow> True | Inl _ \<Rightarrow> False)" by code_simp
  then obtain t where t: "?b = Ok t" by (auto split: sum.splits)
  from body_tree_leaves [OF t] have "length (leaves t) = 4"
    by (auto simp: opt_part_def demo_input_def dest!: list_all2_lengthD)
  with t show ?thesis by blast
qed

theorem headers_raw_printable_witness:
  "\<exists>tops custom. all_headers_of ascii_crates demo_mail (demo_input\<lparr>in_to := []\<rparr>) [] [] (lit ''<00@relay>'') = Ok (tops, custom)
     \<and> list_all raw_printable custom"
proof -
  let ?i = "demo_input\<lparr>in_to := []\<rparr>"
  let ?a = "all_headers_of ascii_crates demo_mail ?i [] [] (lit ''<00@relay>'')"
  have "(case ?a of Inr _ \<Rightarrow> True | Inl _ \<Rightarrow> False)" by code_simp
  then obtain tops custom where a: "?a = Ok (tops, custom)" by (auto split: sum.splits)
  have wf: "wf_mailbox ascii_crates (in_from ?i)" by code_simp
  have "parse_recipients ascii_crates (in_to ?i) = Ok []" "parse_recipients ascii_crates (in_cc ?i) = Ok []"
    by (simp_all add: parse_recipients_def demo_input_def)
  from headers_raw_printable [OF idna_ok_ascii_crates b64_encode_ok_demo wf this a] a show ?thesis by blast
qed

theorem message_id_form_witness:
  "\<exists>m h. build ascii_crates demo_mail (random_hex (replicate 16 0)) demo_input = Ok m
     \<and> custom_headers ascii_crates demo_mail [(lit ''References'', message_id m)] {} = Ok [h]"
proof -
  let ?b = "build ascii_crates demo_mail (random_hex (replicate 16 0)) demo_input"
  have "(case ?b of Inr _ \<Rightarrow> True | Inl _ \<Rightarrow> False)" by code_simp
  then obtain m where m: "?b = Ok m" by (auto split: sum.splits)
  have "id_dot_atom (in_public_host demo_input)" "63 \<notin> set (in_public_host demo_input)"
    "header_name_ok demo_mail (lit ''References'')"
    "to_ascii_lowercase (lit ''References'') \<in> {lit ''in-reply-to'', lit ''references''}" by code_simp+
  from message_id_form [OF _ m this] m show ?thesis by auto
qed

end
