(* ===== verification/Permissions.thy ===== *)
theory Permissions
  imports Policy Secrets
begin

text \<open>
  The policy check of \<open>policy.rs\<close> on a token entry of the secrets file that \<open>secrets.rs\<close> has loaded:
  what the entry says, as it was written, decides who may send.
\<close>

text \<open>The strings of a list in the file, as they were written.\<close>

fun written_strings :: "node option \<Rightarrow> rstr list" where
  "written_strings (Some (Seq items)) = concat (map (\<lambda>n. case n of Str v \<Rightarrow> [v] | _ \<Rightarrow> []) items)"
| "written_strings _ = []"

definition entry_strings :: "node \<Rightarrow> string \<Rightarrow> rstr set" where
  "entry_strings raw key = set (written_strings (get_entry raw (lit key)))"

lemma string_items_image:
  "string_items field canon i items acc = Ok s \<Longrightarrow>
   s = acc \<union> {n. \<exists>v \<in> set (written_strings (Some (Seq items))). canon v = Ok n}
   \<and> (items \<noteq> [] \<longrightarrow> written_strings (Some (Seq items)) \<noteq> [])"
proof (induction field canon i items acc rule: string_items.induct)
  case (2 field canon i item items acc)
  from "2.prems" obtain v n where v: "item = Str v" "py_strip v \<noteq> []" "canon v = Ok n"
    "string_items field canon (i + 1) items (insert n acc) = Ok s"
    by (auto simp: Let_def result_simps split: node.splits if_splits)
  from "2.IH" [OF refl v(1,2) _ v(4)] v(1,3) show ?case by auto
qed simp

lemma no_written_strings [simp]: "written_strings (Some (Seq [])) = []"
  by simp

lemma string_list_image:
  assumes "string_list raw pos key canon = Ok r"
  shows "(\<forall>s. r = Some s \<longrightarrow> s = {n. \<exists>v \<in> entry_strings raw key. canon v = Ok n} \<and> entry_strings raw key \<noteq> {})
     \<and> (r = None \<longrightarrow> entry_strings raw key = {})"
  using assms string_items_image [of "pos @ lit ''.'' @ lit key" canon 0 _ "{}"]
  by (auto simp: string_list_def entry_strings_def map_ok_Inr_iff simp del: written_strings.simps(1)
      split: option.splits node.splits if_splits)

lemma load_policy_written:
  assumes "load_policy X raw pos = Ok p"
  shows "mailgun_domains p = {n. \<exists>v \<in> entry_strings raw ''mailgun_domains''. normalize_config_domain X v = Ok n}
     \<and> allowed_from_domains p = {n. \<exists>v \<in> entry_strings raw ''allowed_from_domains''. normalize_config_domain X v = Ok n}
     \<and> (case allowed_from_addresses p of
          None \<Rightarrow> entry_strings raw ''allowed_from_addresses'' = {}
        | Some s \<Rightarrow> entry_strings raw ''allowed_from_addresses'' \<noteq> {}
            \<and> s = {n. \<exists>v \<in> entry_strings raw ''allowed_from_addresses''. normalize_config_address X v = Ok n})"
proof -
  from assms obtain mg fd addrs where *:
    "string_list raw pos ''mailgun_domains'' (normalize_config_domain X) = Ok (Some mg)"
    "string_list raw pos ''allowed_from_domains'' (normalize_config_domain X) = Ok (Some fd)"
    "addrs = None \<and> entry_strings raw ''allowed_from_addresses'' = {}
       \<or> string_list raw pos ''allowed_from_addresses'' (normalize_config_address X) = Ok addrs"
    "mailgun_domains p = mg" "allowed_from_domains p = fd" "allowed_from_addresses p = addrs"
    by (auto simp: load_policy_def Let_def and_then_Inr_iff ok_or_Inr_iff entry_strings_def
        split: if_splits option.splits node.splits)
  from string_list_image [OF *(1)] string_list_image [OF *(2)] *(3)
    string_list_image [of raw pos "''allowed_from_addresses''" "normalize_config_address X" addrs]
  show ?thesis by (cases addrs) (auto simp: *(4-6))
qed

text \<open>C27: the policy check does what the token entry of the secrets file says, as the operator wrote it: a
  request may send exactly when its path domain is one of the entry's \<open>mailgun_domains\<close>, the domain
  of its \<open>from\<close> address one of \<open>allowed_from_domains\<close>, and, if there are \<open>allowed_from_addresses\<close>, the
  address one of them, where domains are compared in their normal form and local parts without
  regard to ASCII case.  The path is judged first: one that is no domain is a 400 and one outside
  the entry a 403, whatever \<open>from\<close> is; then a \<open>from\<close> that is no address is a 400.  Everything else
  is a 403.\<close>

theorem enforce_policy_accepts:
  assumes "idna_ok X" "load_policy X raw pos = Ok policy"
  shows "(enforce_policy X policy pd f = Ok m \<longleftrightarrow> parse_mailbox X f = Ok m
       \<and> (\<exists>v \<in> entry_strings raw ''mailgun_domains''. \<exists>n. normalize_config_domain X v = Ok n \<and> normalize_domain X pd = Ok n)
       \<and> (\<exists>v \<in> entry_strings raw ''allowed_from_domains''. normalize_config_domain X v = Ok (mb_domain m))
       \<and> (entry_strings raw ''allowed_from_addresses'' = {}
          \<or> (\<exists>v \<in> entry_strings raw ''allowed_from_addresses''. \<exists>l d. py_strip v = l @ 64 # d \<and> 64 \<notin> set d
               \<and> l \<noteq> [] \<and> is_ascii l
               \<and> eq_ignore_ascii_case l (mb_local m) \<and> normalize_config_domain X d = Ok (mb_domain m))))
     \<and> (enforce_policy X policy pd f = Err BadRequest \<longleftrightarrow>
          (\<forall>n. normalize_domain X pd \<noteq> Ok n)
          \<or> (\<exists>v \<in> entry_strings raw ''mailgun_domains''. \<exists>n. normalize_config_domain X v = Ok n \<and> normalize_domain X pd = Ok n)
            \<and> (\<forall>m. parse_mailbox X f \<noteq> Ok m))
     \<and> (\<forall>n. normalize_domain X pd = Ok n
          \<and> (\<forall>v \<in> entry_strings raw ''mailgun_domains''. normalize_config_domain X v \<noteq> Ok n) \<longrightarrow>
          enforce_policy X policy pd f = Err (Forbidden (lit ''token not allowed for path domain '' @ py_repr n)))"
proof (intro conjI)
  note w = load_policy_written [OF assms(2)]
  let ?path = "\<lambda>n. \<exists>v \<in> entry_strings raw ''mailgun_domains''. normalize_config_domain X v = Ok n"
  have path: "n \<in> mailgun_domains policy \<longleftrightarrow> ?path n" for n using w by simp
  let ?address = "\<lambda>m v. \<exists>l d. py_strip v = l @ 64 # d \<and> 64 \<notin> set d \<and> l \<noteq> [] \<and> is_ascii l
     \<and> eq_ignore_ascii_case l (mb_local m) \<and> normalize_config_domain X d = Ok (mb_domain m)"
  have entry: "normalize_config_address X v = Ok (policy_address m) \<longleftrightarrow> ?address m v"
    if m: "parse_mailbox X f = Ok m" for v m
    using address_entry_written [OF assms(1) m] .
  have addresses: "(\<forall>allowed. allowed_from_addresses policy = Some allowed \<longrightarrow> policy_address m \<in> allowed)
      \<longleftrightarrow> entry_strings raw ''allowed_from_addresses'' = {}
          \<or> (\<exists>v \<in> entry_strings raw ''allowed_from_addresses''. ?address m v)"
    if m: "parse_mailbox X f = Ok m" for m
    using w entry [OF m] by (cases "allowed_from_addresses policy") auto
  show "enforce_policy X policy pd f = Ok m \<longleftrightarrow> parse_mailbox X f = Ok m
       \<and> (\<exists>v \<in> entry_strings raw ''mailgun_domains''. \<exists>n. normalize_config_domain X v = Ok n \<and> normalize_domain X pd = Ok n)
       \<and> (\<exists>v \<in> entry_strings raw ''allowed_from_domains''. normalize_config_domain X v = Ok (mb_domain m))
       \<and> (entry_strings raw ''allowed_from_addresses'' = {}
          \<or> (\<exists>v \<in> entry_strings raw ''allowed_from_addresses''. ?address m v))"
    unfolding enforce_policy_Ok_iff permits_def using w addresses by blast
  show "enforce_policy X policy pd f = Err BadRequest \<longleftrightarrow>
          (\<forall>n. normalize_domain X pd \<noteq> Ok n)
          \<or> (\<exists>v \<in> entry_strings raw ''mailgun_domains''. \<exists>n. normalize_config_domain X v = Ok n \<and> normalize_domain X pd = Ok n)
            \<and> (\<forall>m. parse_mailbox X f \<noteq> Ok m)"
    unfolding enforce_policy_BadRequest_iff path by blast
  show "\<forall>n. normalize_domain X pd = Ok n
          \<and> (\<forall>v \<in> entry_strings raw ''mailgun_domains''. normalize_config_domain X v \<noteq> Ok n) \<longrightarrow>
          enforce_policy X policy pd f = Err (Forbidden (lit ''token not allowed for path domain '' @ py_repr n))"
  proof (intro allI impI)
    fix n assume n: "normalize_domain X pd = Ok n
      \<and> (\<forall>v \<in> entry_strings raw ''mailgun_domains''. normalize_config_domain X v \<noteq> Ok n)"
    then have "n \<notin> mailgun_domains policy" using path by blast
    with n enforce_policy_path_first [of X policy pd f]
    show "enforce_policy X policy pd f = Err (Forbidden (lit ''token not allowed for path domain '' @ py_repr n))"
      by simp
  qed
qed

definition example_entry :: node where
  "example_entry = Map
     [(Some (lit ''label''), Str (lit ''svc'')), (Some (lit ''token_sha256''), Str (replicate 64 97)),
      (Some (lit ''mailgun_domains''), Seq [Str (lit '' MG.example.com'')]),
      (Some (lit ''allowed_from_domains''), Seq [Str (lit ''Example.com'')]),
      (Some (lit ''allowed_from_addresses''), Seq [Str (lit ''APP@Example.com'')])]"

theorem enforce_policy_accepts_witness:
  "\<exists>policy m. load_policy ascii_crates example_entry (lit ''tokens[0]'') = Ok policy
     \<and> parse_mailbox ascii_crates (lit ''App <app@example.com>'') = Ok m
     \<and> enforce_policy ascii_crates policy (lit ''mg.example.com'') (lit ''App <app@example.com>'') = Ok m"
proof -
  have "case load_policy ascii_crates example_entry (lit ''tokens[0]'') of Inl _ \<Rightarrow> False | Inr _ \<Rightarrow> True"
    by code_simp
  then obtain policy where p: "load_policy ascii_crates example_entry (lit ''tokens[0]'') = Ok policy"
    by (auto split: sum.splits)
  let ?m = "\<lparr>display_name = lit ''App'', mb_local = lit ''app'', mb_domain = lit ''example.com''\<rparr>"
  have m: "parse_mailbox ascii_crates (lit ''App <app@example.com>'') = Ok ?m" by code_simp
  have e: "entry_strings example_entry ''mailgun_domains'' = {lit '' MG.example.com''}"
    "entry_strings example_entry ''allowed_from_domains'' = {lit ''Example.com''}"
    "entry_strings example_entry ''allowed_from_addresses'' = {lit ''APP@Example.com''}"
    by code_simp+
  have n: "normalize_config_domain ascii_crates (lit '' MG.example.com'') = Ok (lit ''mg.example.com'')"
    "normalize_domain ascii_crates (lit ''mg.example.com'') = Ok (lit ''mg.example.com'')"
    "normalize_config_domain ascii_crates (lit ''Example.com'') = Ok (lit ''example.com'')"
    "py_strip (lit ''APP@Example.com'') = lit ''APP'' @ 64 # lit ''Example.com''"
    "64 \<notin> set (lit ''Example.com'') \<and> lit ''APP'' \<noteq> [] \<and> is_ascii (lit ''APP'')
       \<and> eq_ignore_ascii_case (lit ''APP'') (lit ''app'')"
    by code_simp+
  have "enforce_policy ascii_crates policy (lit ''mg.example.com'') (lit ''App <app@example.com>'') = Ok ?m"
    using n m unfolding conjunct1 [OF enforce_policy_accepts [OF idna_ok_ascii_crates p]] e by fastforce
  with p m show ?thesis by blast
qed

end
