(* ===== verification/Tests_Base.thy ===== *)
theory Tests_Base
  imports Mime Policy Http
begin

text \<open>
  What the test theories share: the crates as the unit tests of \<open>rust/src\<close> meet them.  The base64
  engines are the RFC 4648 code; \<open>to_ascii\<close> checks labels as UTS 46 with the STD3 deny list does and
  has a table of the international labels that occur in the tests; a digest is the message itself,
  which keeps the tokens of the tests apart.  Each test function of the source is a
  definition, with its name where that is free, and a lemma that evaluates it.
\<close>

subsection \<open>Base64\<close>

definition letter6 :: "nat \<Rightarrow> rchar" where
  "letter6 n = (if n < 26 then 65 + n else if n < 52 then 71 + n else if n < 62 then n - 4 else if n = 62 then 43 else 47)"

definition digit6 :: "rchar \<Rightarrow> nat option" where
  "digit6 c =
     (if is_ascii_upper c then Some (c - 65) else if is_ascii_lower c then Some (c - 71)
      else if is_ascii_digit c then Some (c + 4) else if c = 43 then Some 62 else if c = 47 then Some 63 else None)"

fun encode_groups :: "nat list \<Rightarrow> rstr" where
  "encode_groups (a # b # c # r) =
     [letter6 (a div 4), letter6 (a mod 4 * 16 + b div 16), letter6 (b mod 16 * 4 + c div 64), letter6 (c mod 64)]
     @ encode_groups r"
| "encode_groups [a, b] = [letter6 (a div 4), letter6 (a mod 4 * 16 + b div 16), letter6 (b mod 16 * 4), 61]"
| "encode_groups [a] = [letter6 (a div 4), letter6 (a mod 4 * 16), 61, 61]"
| "encode_groups [] = []"

definition standard_encode :: "u8 list \<Rightarrow> rstr" where
  "standard_encode bs = encode_groups (map unat bs)"

text \<open>Padding is required, non-zero trailing bits are dropped.\<close>

fun decode_groups :: "rstr \<Rightarrow> nat list option" where
  "decode_groups [] = Some []"
| "decode_groups (a # b # c # d # r) =
     (case (digit6 a, digit6 b) of
        (Some i, Some j) \<Rightarrow>
          if d = 61 \<and> r = [] then
            (if c = 61 then Some [i * 4 + j div 16]
             else map_option (\<lambda>k. [i * 4 + j div 16, j mod 16 * 16 + k div 4]) (digit6 c))
          else
            (case (digit6 c, digit6 d) of
               (Some k, Some l) \<Rightarrow>
                 map_option (\<lambda>ns. [i * 4 + j div 16, j mod 16 * 16 + k div 4, k mod 4 * 64 + l] @ ns) (decode_groups r)
             | _ \<Rightarrow> None)
      | _ \<Rightarrow> None)"
| "decode_groups s = None"

definition padded_decode :: "rstr \<Rightarrow> u8 list option" where
  "padded_decode s = map_option (map of_nat) (decode_groups s)"

definition unpadded_decode :: "rstr \<Rightarrow> u8 list option" where
  "unpadded_decode s = padded_decode (s @ replicate ((4 - length s mod 4) mod 4) 61)"

subsection \<open>Names\<close>

definition idn_labels :: "(rstr \<times> rstr) list" where
  "idn_labels =
     [(lit ''wersd'' @ [246] @ lit ''rfer'', lit ''xn--wersdrfer-47a''), ([223], lit ''xn--zca''),
      (lit ''b'' @ [252], lit ''xn--b-eha''), ([252], lit ''xn--tda''), ([9731], lit ''xn--n3h''),
      ([8571], lit ''xii'')]"

definition latin_lower :: "rchar \<Rightarrow> rchar" where
  "latin_lower c = (if is_ascii_upper c \<or> 0xC0 \<le> c \<and> c \<le> 0xDE \<and> c \<noteq> 0xD7 then c + 32 else c)"

definition test_label :: "rstr \<Rightarrow> rstr option" where
  "test_label l =
     (if \<not> is_ascii l then map_of idn_labels l
      else if l = [] then Some []
      else if starts_with (lit ''xn--'') l then (if l \<in> set (map snd idn_labels) then Some l else None)
      else if list_all is_ldh l \<and> hd l \<noteq> 45 \<and> last l \<noteq> 45 \<and> \<not> starts_with (lit ''--'') (drop 2 l)
      then Some l else None)"

definition test_to_ascii :: "dns_length \<Rightarrow> rstr \<Rightarrow> rstr option" where
  "test_to_ascii len d =
     (let labels = map test_label (split_at_char 46 (map latin_lower d))
      in if None \<in> set labels then None
         else
           (let ascii = map the labels;
                checked = (if len = VerifyAllowRootDot \<and> 1 < length ascii \<and> last ascii = [] then butlast ascii else ascii)
            in if list_all (\<lambda>l. l \<noteq> [] \<and> length l \<le> 63) checked \<and> length (join [46] checked) \<le> 253
               then Some (join [46] ascii) else None))"

definition test_to_unicode :: "rstr \<Rightarrow> rstr \<times> bool" where
  "test_to_unicode d =
     (join [46] (map (\<lambda>l. case find (\<lambda>p. snd p = l) idn_labels of Some (u, _) \<Rightarrow> u | None \<Rightarrow> l) (split_at_char 46 d)), True)"

definition test_crates :: crates where
  "test_crates = \<lparr>
     std_lower = map latin_lower,
     uts46_to_ascii = test_to_ascii,
     domain_to_unicode = test_to_unicode,
     b64_decode_strict = padded_decode,
     sha256 = (\<lambda>m. m),
     std_debug = (\<lambda>s. [34] @ s @ [34]),
     ct_eq = (\<lambda>a b. a = b)\<rparr>"

text \<open>The crates behave as documented where the tests do not look.\<close>

lemma test_crates_facts: "lower_ascii test_crates" "ct_eq_decides test_crates"
proof -
  have "map latin_lower s = to_ascii_lowercase s" if "is_ascii s" for s
    using that
    by (auto simp: is_ascii_def list_all_iff is_ascii_char_def latin_lower_def to_ascii_lowercase_def to_ascii_lower_char_def ascii_defs)
  then show "lower_ascii test_crates" by (simp add: lower_ascii_def test_crates_def)
qed (simp add: ct_eq_decides_def test_crates_def)

subsection \<open>Shared helpers of the tests\<close>

definition is_ok :: "'e + 'b \<Rightarrow> bool" where
  "is_ok r = (case r of Inr _ \<Rightarrow> True | Inl _ \<Rightarrow> False)"

definition WERSDOERFER :: rstr where
  "WERSDOERFER = lit ''wersd'' @ [246] @ lit ''rfer.de''"

definition test_policy :: "rstr \<Rightarrow> rstr \<Rightarrow> string list \<Rightarrow> string list \<Rightarrow> string list option \<Rightarrow> token_policy" where
  "test_policy name hash mailgun from_domains addresses =
     \<lparr>label = name, token_sha256 = hash, mailgun_domains = set (map lit mailgun),
      allowed_from_domains = set (map lit from_domains),
      allowed_from_addresses = map_option (\<lambda>as. set (map lit as)) addresses\<rparr>"

text \<open>Bytes are evaluated by \<open>simp\<close>, which knows the numerals of a word type.\<close>

lemmas byte_eval = blit_def lit_def of_char_def utf8_char_def utf8_step_def is_cont_def second3_def second4_def from_utf8_def
  from_utf8_lossy_def latin1_chars_def Let_def ascii_defs test_crates_def standard_encode_def padded_decode_def
  letter6_def digit6_def hex_lower_def hex_char_def

lemmas str_eval = py_strip_def trim_matches_def trim_start_matches_def trim_end_matches_def is_py_space_def
  strip_prefix_def strip_suffix_def starts_with_def ends_with_def

text \<open>Codes of characters are taken as numbers first, which is faster by \<open>code_simp\<close>.\<close>

lemma take_bit_code [code]:
  "take_bit n (k :: int) = (if 0 \<le> k \<and> k < 256 \<and> 8 \<le> n then k else k mod 2 ^ n)"
proof (cases "0 \<le> k \<and> k < 256 \<and> 8 \<le> n")
  case True
  then have "k < 2 ^ n"
    using power_increasing [of 8 n "2 :: int"] by simp
  with True show ?thesis by (simp add: take_bit_int_eq_self)
qed (auto simp: take_bit_eq_mod)

lemma blit_code [code]: "blit s = map of_nat (lit s)"
  by (simp add: blit_def lit_def of_char_def)

lemma is_plain_code [code]:
  "is_plain val reserve \<longleftrightarrow>
     (let ns = map unat (utf8_encode val)
      in list_all (\<lambda>n. n = 9 \<or> 32 \<le> n \<and> n \<le> 126) ns
         \<and> list_all (\<lambda>r. reserve + length r \<le> MAX_LINE) (runs 32 ns))"
proof -
  have "runs (unat (32 :: u8)) (map unat (utf8_encode val)) = map (map unat) (runs 32 (utf8_encode val))"
    by (rule runs_map) (auto simp: word_unat_eq_iff)
  then show ?thesis
    by (simp add: is_plain_def plain_runs_iff list_all_iff is_printable_byte_def word_unat_eq_iff Let_def)
qed

text \<open>The sets of characters of the parsers as lists of codes, computed once.\<close>

lemma SPECIALS_code [code]: "SPECIALS = [40, 41, 60, 62, 64, 44, 58, 59, 46, 34, 91, 93, 92]"
  by (simp add: SPECIALS_def lit_def of_char_def)

lemma is_word_char_code [code]:
  "is_word_char c \<longleftrightarrow> \<not> is_wsp c \<and> c \<notin> set [40, 41, 60, 62, 64, 44, 58, 59, 34, 91, 93, 92]"
  by (simp add: is_word_char_def lit_def of_char_def)

lemma is_addr_char_code [code]:
  "is_addr_char c \<longleftrightarrow> \<not> is_wsp c \<and> c \<notin> set [40, 41, 60, 62, 44, 58, 59, 34, 91, 93, 92]"
  by (simp add: is_addr_char_def lit_def of_char_def)

lemma is_comment_char_code [code]:
  "is_comment_char c \<longleftrightarrow> c \<notin> set [40, 41, 92, 34, 44]"
  by (simp add: is_comment_char_def lit_def of_char_def)

lemma is_atext_code [code]:
  "is_atext c \<longleftrightarrow> is_ascii_alphanumeric c \<or> c \<in> set [33, 35, 36, 37, 38, 39, 42, 43, 45, 47, 61, 63, 94, 95, 96, 123, 124, 125, 126]"
  by (simp add: is_atext_def lit_def of_char_def)

lemma is_id_char_code [code]:
  "is_id_char c \<longleftrightarrow> is_ascii_alphanumeric c \<or> c \<in> set [33, 35, 36, 37, 38, 39, 42, 43, 45, 47, 61, 63, 94, 95, 96, 123, 124, 125, 126]"
  by (simp add: is_id_char_def lit_def of_char_def)

lemma base64_vectors:
  "standard_encode (blit ''api:t'') = lit ''YXBpOnQ=''"
  "padded_decode (lit ''YXBpOnR='') = Some (blit ''api:t'')"
  "padded_decode (lit ''YXBpOnQ'') = None"
  "unpadded_decode (lit ''YXBpOnQ'') = Some (blit ''api:t'')"
  by code_simp+

end
