(* ===== verification/Tests_Text.thy ===== *)
theory Tests_Text
  imports Tests_Base
begin

text \<open>
  The unit tests of \<open>pystr.rs\<close>, \<open>domain.rs\<close>, \<open>address.rs\<close>, \<open>headers.rs\<close>, \<open>policy.rs\<close> and \<open>auth.rs\<close>,
  evaluated on the model.
\<close>

subsection \<open>\<open>pystr.rs\<close> and \<open>domain.rs\<close>\<close>

definition strip_matches_python_whitespace_set :: bool where
  "strip_matches_python_whitespace_set \<longleftrightarrow>
     py_strip ([28, 29] @ lit '' a b '' @ [133, 160, 12288]) = (lit ''a b'')
     \<and> py_strip ([8203] @ lit ''a'') = ([8203] @ lit ''a'')
     \<and> \<not> is_py_space 0x180E"

lemma strip_matches_python_whitespace_set_holds: strip_matches_python_whitespace_set
  by code_simp

definition config_domains :: bool where
  "config_domains \<longleftrightarrow>
     list_all (\<lambda>(v, a). normalize_config_domain test_crates v = Ok a)
       [((lit '' WERSD'' @ [214] @ lit ''RFER.DE ''), (lit ''xn--wersdrfer-47a.de'')), (([223] @ lit ''.de''), (lit ''xn--zca.de'')),
        ((lit ''mg.wersdoerfer.de.''), (lit ''mg.wersdoerfer.de.'')), ((lit ''localhost''), (lit ''localhost''))]
     \<and> list_all (\<lambda>v. \<not> is_ok (normalize_config_domain test_crates v))
       [[], (lit ''a_b.de''), (lit ''a..b''), (lit ''-x.de''), (lit ''xn--abc.de''), ([8571] @ lit ''.de''), ([252] @ lit ''.'' @ [948]), ([128512] @ lit ''.de''), ([320] @ lit ''.de''), (lit ''xn--n3h.'' @ [252])]
     \<and> normalize_domain test_crates ([8571] @ lit ''.de'') = Ok (lit ''xii.de'')"

lemma config_domains_holds: config_domains
  by code_simp

definition config_addresses :: bool where
  "config_addresses \<longleftrightarrow>
     normalize_config_address test_crates (lit '' Info@WERSD'' @ [214] @ lit ''RFER.de'') = Ok (lit ''info@xn--wersdrfer-47a.de'')
     \<and> normalize_config_address test_crates (lit ''a@b@c.de'') = Ok (lit ''a@b@c.de'')
     \<and> list_all (\<lambda>v. \<not> is_ok (normalize_config_address test_crates v))
         [(lit ''a.de''), (lit ''@a.de''), (lit ''a@''), (lit ''j'' @ [246] @ lit ''rg@a.de''), (lit ''a@xn--n3h.de'')]"

lemma config_addresses_holds: config_addresses
  by code_simp

subsection \<open>\<open>address.rs\<close>\<close>

definition single :: "rstr \<Rightarrow> (rstr \<times> rstr) option" where
  "single val = (case parse_mailbox test_crates val of Inr m \<Rightarrow> Some (display_name m, addr_spec m) | Inl _ \<Rightarrow> None)"

definition parses_list :: "rstr \<Rightarrow> (mailbox list \<Rightarrow> bool) \<Rightarrow> bool" where
  "parses_list val check = (case parse_mailbox_list test_crates val of Inr l \<Rightarrow> check l | Inl _ \<Rightarrow> False)"

definition python_address_tests :: bool where
  "python_address_tests \<longleftrightarrow>
     map_option snd (single (lit ''a@x.test'')) = Some (lit ''a@x.test'')
     \<and> single (lit ''Alice <alice@x.test>'') = Some ((lit ''Alice''), (lit ''alice@x.test''))
     \<and> list_all (\<lambda>bad. single bad = None)
         [(lit ''alice@x.test'' @ [10] @ lit ''Bcc: evil@y.test''), (lit ''not an address''), (lit ''bad@bad domain''), (lit ''a@x..test''), (lit ''foo@''),
          (lit ''@bar.com''), (lit ''user@-.example.com''), (lit ''no-at-sign'')]
     \<and> parses_list ([34] @ lit ''Doe, Jane'' @ [34] @ lit '' <jane@example.test>'') (\<lambda>l. map display_name l = [(lit ''Doe, Jane'')])
     \<and> parses_list (lit ''a@x.test, b@y.test, Carol <c@z.test>'')
         (\<lambda>l. map addr_spec l = [(lit ''a@x.test''), (lit ''b@y.test''), (lit ''c@z.test'')])
     \<and> \<not> is_ok (parse_mailbox_list test_crates (lit ''a@x.test,'' @ [10] @ lit ''b@y.test''))
     \<and> \<not> is_ok (parse_mailbox_list test_crates (lit ''a@x.test, bad@bad domain''))
     \<and> list_all (\<lambda>idn. map_option snd (single idn) = Some (lit ''foo@xn--wersdrfer-47a.de'')
           \<and> parses_list idn (\<lambda>l. addr_spec (hd l) = (lit ''foo@xn--wersdrfer-47a.de'')))
         [(lit ''foo@wersd'' @ [246] @ lit ''rfer.de''), (lit ''foo@WERSD'' @ [214] @ lit ''RFER.DE''), (lit ''foo@xn--wersdrfer-47a.de''), (lit ''J'' @ [246] @ lit ''rg <foo@wersd'' @ [246] @ lit ''rfer.de>'')]
     \<and> map_option snd (single (lit ''Some.User@Example.TEST'')) = Some (lit ''Some.User@example.test'')"

lemma python_address_tests_holds: python_address_tests
  by code_simp

definition display_names_follow_python :: bool where
  "display_names_follow_python \<longleftrightarrow>
     list_all (\<lambda>(v, d). map_option fst (single v) = Some d)
       [((lit ''a@x.de (Kommentar)''), (lit ''Kommentar'')), ((lit ''(c1) a@x.de (c2)''), (lit ''c1 c2'')),
        ((lit ''Jane (c) <a@x.de> (d)''), (lit ''Jane (c)'')), ((lit ''Jane '' @ [34] @ lit ''Q'' @ [34] @ lit '' Doe <a@x.de>''), (lit ''Jane Q Doe'')),
        (([34] @ lit ''Jane '' @ [92, 34] @ lit ''Q'' @ [92, 34, 34] @ lit '' <a@x.de>''), (lit ''Jane '' @ [34] @ lit ''Q'' @ [34])), ((lit ''Dr.  Jane <a@x.de>''), (lit ''Dr. Jane'')), ((lit ''< a@x.de >''), [])]
     \<and> map_option snd (single (lit ''Info <INFO@X.DE>'')) = Some (lit ''info@x.de'')"

lemma display_names_follow_python_holds: display_names_follow_python
  by code_simp

definition exotic_forms_are_refused :: bool where
  "exotic_forms_are_refused \<longleftrightarrow>
     list_all (\<lambda>bad. single bad = None)
       [(lit ''a . b@x.de''), (lit ''a @x.de''), (lit ''<a@x.de''), (lit ''grp: a@x.de;''), (lit ''a@x.de, b@x.de''), (lit ''(a (b)) a@x.de''),
        (lit ''(a, b) a@x.de''), (lit ''a'' @ [92] @ lit ''b <a@x.de>''), ([34] @ lit ''Jane <a@x.de>''), (lit ''Jane <a@x.de> x''), (lit ''a@'' @ [945, 946] @ lit ''.gr''), (lit ''j'' @ [246] @ lit ''rg@x.de''),
        ([34] @ lit ''a b'' @ [34] @ lit ''@x.de'')]
     \<and> \<not> is_ok (parse_mailbox_list test_crates (lit ''a@x.de,''))
     \<and> \<not> is_ok (parse_mailbox_list test_crates (lit ''a@x.de,,b@x.de''))"

lemma exotic_forms_are_refused_holds: exotic_forms_are_refused
  by code_simp

subsection \<open>\<open>headers.rs\<close>\<close>

definition one :: "rstr \<Rightarrow> rstr \<Rightarrow> header_error + unit" where
  "one name val = validate_custom_headers test_crates [(name, val)] 998"

text \<open>Lines over the limit, by their length alone.\<close>

lemma overlong_value:
  assumes "\<not> is_forbidden_control c" "\<not> is_py_space c" "998 < n" "int n \<le> i64_max"
  shows "validate_subject (replicate n c) 998 = Err header_error.TooLong"
    "one (lit ''X-Long'') (replicate n c) = Err header_error.TooLong"
proof -
  have "py_strip (replicate n c) = replicate n c" "\<not> contains_forbidden_control_chars (replicate n c)"
    using assms by (auto intro!: py_strip_no_space simp: contains_forbidden_control_chars_def list_ex_iff list_all_iff)
  moreover have "is_header_name (lit ''X-Long'')" "\<not> is_dangerous test_crates (lit ''X-Long'')" by code_simp+
  ultimately show "validate_subject (replicate n c) 998 = Err header_error.TooLong"
    "one (lit ''X-Long'') (replicate n c) = Err header_error.TooLong"
    using assms by (simp_all add: validate_subject_def one_def longer_than_def)
qed

definition python_header_tests :: bool where
  "python_header_tests \<longleftrightarrow>
     validate_subject (lit ''Hello there'') 998 = Ok (lit ''Hello there'')
     \<and> validate_subject (lit ''  Hello  '') 998 = Ok (lit ''Hello'')
     \<and> validate_subject (lit ''Hello'' @ [9] @ lit ''there'') 998 = Ok (lit ''Hello'' @ [9] @ lit ''there'')
     \<and> list_all (\<lambda>bad. validate_subject bad 998 = Err Injection) [(lit ''Hi'' @ [10] @ lit ''Bcc: evil@x.com''), (lit ''Hi'' @ [13] @ lit ''Evil'')]
     \<and> validate_subject (replicate 1000 97) 998 = Err header_error.TooLong
     \<and> list_all (\<lambda>bad. validate_subject ((lit ''Hi'') @ bad @ (lit ''World'')) 998 = Err Injection)
         [[0], [11], [12], [133], [8232], [8233]]
     \<and> list_all (\<lambda>name. one (lit name) (lit ''x@example.test'') = Err Dangerous)
         [''Sender'', ''MIME-Version'', ''Content-Type'', ''Content-Transfer-Encoding'',
          ''Content-Disposition'', ''Content-ID'', ''Disposition-Notification-To'',
          ''Return-Receipt-To'', ''Bcc'', ''bCc'', ''Received'', ''Return-Path'', ''Resent-From'',
          ''Message-Id'', ''From'', ''To'', ''Cc'', ''Subject'', ''Date'']
     \<and> one (lit ''X-Thing'') (lit ''a'' @ [0] @ lit ''b'') = Err Injection
     \<and> one (lit ''Reply-To'') (lit ''support@example.test'') = Ok ()
     \<and> one (lit ''X-Custom'') (lit ''ok'' @ [10] @ lit ''Bcc: evil@x.com'') = Err Injection
     \<and> one (lit ''X-Long'') (replicate 1000 120) = Err header_error.TooLong
     \<and> one (lit ''X Bad Name'') (lit ''ok'') = Err Injection"

lemma python_header_tests_holds: python_header_tests
  unfolding python_header_tests_def
  by (intro conjI)
    ((rule overlong_value; simp add: is_forbidden_control_def is_py_space_def i64_max_def) | code_simp)+

definition first_error_wins_in_map_order :: bool where
  "first_error_wins_in_map_order \<longleftrightarrow>
     (let headers = [((lit ''X-Long''), replicate 10 120), ((lit ''Bcc''), (lit ''a@b.de''))]
      in validate_custom_headers test_crates headers 5 = Err header_error.TooLong
         \<and> validate_custom_headers test_crates headers 10 = Err Dangerous)
     \<and> validate_subject [] (- 1) = Err header_error.TooLong
     \<and> header_error_class Dangerous = (lit ''DangerousHeaderError'')"

lemma first_error_wins_in_map_order_holds: first_error_wins_in_map_order
  by code_simp

subsection \<open>\<open>policy.rs\<close>\<close>

definition policy_of :: "string list \<Rightarrow> string list \<Rightarrow> string list option \<Rightarrow> token_policy" where
  "policy_of = test_policy (lit ''t'') (replicate 64 48)"

definition policy_status :: "token_policy \<Rightarrow> rstr \<Rightarrow> rstr \<Rightarrow> nat" where
  "policy_status p path frm =
     (case enforce_policy test_crates p path frm of
        Inr _ \<Rightarrow> 200
      | Inl policy_error.BadRequest \<Rightarrow> 400
      | Inl (Forbidden _) \<Rightarrow> 403)"

definition python_policy_tests :: bool where
  "python_policy_tests \<longleftrightarrow>
     normalize_domain test_crates (lit ''wersd'' @ [246] @ lit ''rfer.de'') = Ok (lit ''xn--wersdrfer-47a.de'')
     \<and> normalize_domain test_crates (lit ''XN--wersdrfer-47a.DE'') = Ok (lit ''xn--wersdrfer-47a.de'')
     \<and> \<not> is_ok (normalize_domain test_crates [])
     \<and> normalize_config_address test_crates (lit ''Some.User@wersd'' @ [246] @ lit ''rfer.de'') = Ok (lit ''some.user@xn--wersdrfer-47a.de'')
     \<and> \<not> is_ok (normalize_config_address test_crates (lit ''noatsign''))
     \<and> (let plain = policy_of [''wersdoerfer.de''] [''wersdoerfer.de''] None;
            idn = policy_of [''xn--wersdrfer-47a.de''] [''xn--wersdrfer-47a.de''] None;
            listed = policy_of [''wersdoerfer.de''] [''wersdoerfer.de''] (Some [''jochen-homepage@wersdoerfer.de'']);
            idn_listed = policy_of [''xn--wersdrfer-47a.de''] [''xn--wersdrfer-47a.de'']
              (Some [''jochen@xn--wersdrfer-47a.de''])
        in list_all (\<lambda>(p, path, frm, status). policy_status p path frm = status)
          [(plain, (lit ''wersdoerfer.de''), (lit ''x@wersdoerfer.de''), 200),
           (idn, (lit ''wersd'' @ [246] @ lit ''rfer.de''), (lit ''someone@wersd'' @ [246] @ lit ''rfer.de''), 200),
           (plain, (lit ''evil.test''), (lit ''x@wersdoerfer.de''), 403),
           (plain, (lit ''wersdoerfer.de''), (lit ''x@evil.test''), 403),
           (listed, (lit ''wersdoerfer.de''), (lit ''Jochen-Homepage@wersdoerfer.de''), 200),
           (listed, (lit ''wersdoerfer.de''), (lit ''someone-else@wersdoerfer.de''), 403),
           (idn_listed, (lit ''wersd'' @ [246] @ lit ''rfer.de''), (lit ''Jochen <jochen@wersd'' @ [246] @ lit ''rfer.de>''), 200),
           (plain, (lit ''wersdoerfer.de''), (lit ''not-an-email''), 400),
           (plain, (lit ''wersdoerfer.de''), (lit ''ok@wersdoerfer.de'' @ [10] @ lit ''Bcc: evil@wersdoerfer.de''), 400),
           (plain, (lit ''wersdoerfer.de''), (lit ''J'' @ [246] @ lit ''rg <j'' @ [246] @ lit ''rg@wersdoerfer.de>''), 400),
           (plain, (lit ''example.org''), (lit ''j'' @ [246] @ lit ''rg@wersdoerfer.de''), 403),
           (idn, (lit ''xn--wersdrfer-47a.de''), (lit ''a@wersd'' @ [246] @ lit ''rfer.de''), 200),
           (idn, (lit ''xn--wersdrfer-47a.de''), (lit ''a@xn--wersdrfer-47a.de''), 200),
           (idn, (lit ''xn--wersdrfer-47a.de''), (lit ''A <a@WERSD'' @ [214] @ lit ''RFER.DE>''), 200),
           (idn, (lit ''xn--wersdrfer-47a.de''), (lit ''a@wersdoerfer.de''), 403)])"

lemma python_policy_tests_holds: python_policy_tests
  by code_simp

definition forbidden_messages_are_python_reprs :: bool where
  "forbidden_messages_are_python_reprs \<longleftrightarrow>
     (let listed = policy_of [''mg.wersdoerfer.de''] [''wersdoerfer.de''] (Some [''a@wersdoerfer.de''])
      in list_all (\<lambda>(path, frm, message). enforce_policy test_crates listed path frm = Err (Forbidden message))
        [((lit ''MG.python-podcast.de''), (lit ''a@wersdoerfer.de''), (lit ''token not allowed for path domain '' @ [39] @ lit ''mg.python-podcast.de'' @ [39])),
         ((lit ''mg.wersdoerfer.de''), (lit ''a@evil.test''), (lit ''token not allowed for from domain '' @ [39] @ lit ''evil.test'' @ [39])),
         ((lit ''mg.wersdoerfer.de''), (lit ''O'' @ [39] @ lit ''Brien <o'' @ [39] @ lit ''brien@wersdoerfer.de>''),
          (lit ''token not allowed for from address '' @ [34] @ lit ''o'' @ [39] @ lit ''brien@wersdoerfer.de'' @ [34]))])"

lemma forbidden_messages_are_python_reprs_holds: forbidden_messages_are_python_reprs
  by code_simp

subsection \<open>\<open>auth.rs\<close>\<close>

definition auth_policy :: "string \<Rightarrow> string \<Rightarrow> token_policy" where
  "auth_policy name token =
     test_policy (lit name) (hex_lower (sha256 test_crates (blit token))) [''wersdoerfer.de''] [''wersdoerfer.de''] None"

definition basic :: "string \<Rightarrow> string \<Rightarrow> u8 list" where
  "basic user pass = blit ''Basic '' @ utf8_encode (standard_encode (blit user @ [58] @ blit pass))"

definition label_for :: "u8 list option \<Rightarrow> token_policy list \<Rightarrow> rstr option" where
  "label_for auth policies =
     (case authenticate test_crates auth policies of Inr p \<Rightarrow> Some (label p) | Inl _ \<Rightarrow> None)"

lemmas auth_eval = label_for_def authenticate_def basic_def auth_policy_def test_policy_def

definition python_auth_tests :: bool where
  "python_auth_tests \<longleftrightarrow>
     (let good = [auth_policy ''h'' ''good-token''];
          staging = [auth_policy ''homepage-staging'' ''good-token''];
          many = [auth_policy ''a'' ''token-a'', auth_policy ''b'' ''token-b'', auth_policy ''c'' ''token-c'']
      in label_for None good = None
         \<and> label_for (Some (blit ''Bearer xyz'')) good = None
         \<and> label_for (Some (basic ''notapi'' ''good-token'')) good = None
         \<and> label_for (Some (basic ''api'' ''wrong-token'')) good = None
         \<and> label_for (Some (basic ''api'' ''good-token'')) staging = Some (lit ''homepage-staging'')
         \<and> label_for (Some (basic ''api'' ''token-b'')) many = Some (lit ''b'')
         \<and> label_for (Some (blit ''Basic !!!notbase64!!!'')) good = None
         \<and> label_for (Some (blit ''Basic anVzdHVzZXI='')) good = None)"

lemma python_auth_tests_holds: python_auth_tests
  by (simp add: python_auth_tests_def auth_eval byte_eval str_eval)

definition last_match_wins_and_trailing_bits_decode :: bool where
  "last_match_wins_and_trailing_bits_decode \<longleftrightarrow>
     (let dup = [auth_policy ''first'' ''t'', auth_policy ''second'' ''t'']
      in label_for (Some (basic ''api'' ''t'')) dup = Some (lit ''second'')
         \<and> label_for (Some (blit ''Basic YXBpOnR='')) dup = Some (lit ''second'')
         \<and> label_for (Some (blit ''Basic YXBpOnQ'')) dup = None
         \<and> label_for (Some ((blit ''Basic '' @ [133] @ blit ''YXBpOnQ='' @ [160]))) dup = Some (lit ''second'')
         \<and> label_for (Some ((blit ''Basic '' @ [233] @ blit ''YXBpOnQ=''))) dup = None)"

lemma last_match_wins_and_trailing_bits_decode_holds: last_match_wins_and_trailing_bits_decode
  by (simp add: last_match_wins_and_trailing_bits_decode_def auth_eval byte_eval str_eval)

end
