(* ===== verification/Tests_Config.thy ===== *)
theory Tests_Config
  imports Tests_Base Yaml Log
begin

text \<open>
  The unit tests of \<open>config.rs\<close>, \<open>yaml.rs\<close> (the plain scalars) and \<open>log.rs\<close>, evaluated on the model.
\<close>

subsection \<open>\<open>config.rs\<close>\<close>

definition integers_follow_pydantic :: bool where
  "integers_follow_pydantic \<longleftrightarrow>
     list_all (\<lambda>(input, expected). (case parse_int input of Inr i \<Rightarrow> Some i | Inl _ \<Rightarrow> None) = expected)
       [((lit '' 8085'' @ [10]), Some 8085), ((lit ''+8_085''), Some 8085), ((lit ''0_1''), Some 1), ((lit ''-0''), Some 0),
        ((lit ''8085.00''), Some 8085), ((lit ''00000000000000000000000000005''), Some 5), ((lit ''8085.''), None), ((lit ''1 .0''), None),
        ((lit ''1'' @ [9] @ lit ''.0''), None), ((lit ''1__0''), None), ((lit ''+_1''), None), ((lit ''_1''), None), ((lit ''1.0_0''), None), ((lit ''0x10''), None),
        (([28] @ lit ''1''), None), ((lit ''9223372036854775808''), None)]
     \<and> \<not> is_ok (parse_port_strict (lit ''8085.0''))"

lemma integers_follow_pydantic_holds: integers_follow_pydantic
  by code_simp

definition unrelated_unicode_names_are_ignored :: bool where
  "unrelated_unicode_names_are_ignored \<longleftrightarrow>
     is_ok (from_env test_crates (\<lambda>t. if t = (lit ''30.0'') then Some (Finite 30) else None)
       [(utf8_encode (lit ''aaaaaaaaaaaaa'' @ [252] @ lit ''x''), utf8_encode (lit ''1''))])"

lemma unrelated_unicode_names_are_ignored_holds: unrelated_unicode_names_are_ignored
  by code_simp

subsection \<open>\<open>yaml.rs\<close>\<close>

definition plain :: "rstr \<Rightarrow> node" where
  "plain val = (case resolve_plain val of Inr n \<Rightarrow> n | Inl _ \<Rightarrow> Seq [])"

definition is_other :: "node \<Rightarrow> bool" where
  "is_other n = (case n of Other _ \<Rightarrow> True | _ \<Rightarrow> False)"

definition plain_scalars_follow_yaml_1_1 :: bool where
  "plain_scalars_follow_yaml_1_1 \<longleftrightarrow>
     list_all (\<lambda>v. is_other (plain (lit v)))
       [''yes'', ''On'', ''0777'', ''1_000'', ''0x1F'', ''1:20'', ''1.5'', ''.inf'', ''2026-10-15'']
     \<and> list_all (\<lambda>v. plain (lit v) = Null) [''~'', ''null'', '''']
     \<and> list_all (\<lambda>v. plain (lit v) = Str (lit v)) [''y'', ''n'', ''abc'', ''0xZ'', ''1-2'', ''2026-1-5'', ''08'']
     \<and> list_all (\<lambda>v. \<not> is_ok (resolve_plain (lit v)))
         [''0b_'', ''0x_'', ''2026-02-29'', ''2026-13-01'', ''0000-01-01'', ''<<'', ''='']
     \<and> timestamp_is_valid (lit ''2024-02-29 23:59:59.5 +23:59'')
     \<and> \<not> timestamp_is_valid (lit ''2024-02-29 24:00:00'')
     \<and> \<not> timestamp_is_valid (lit ''2024-02-29T10:00:00-24:00'')"

lemma plain_scalars_follow_yaml_1_1_holds: plain_scalars_follow_yaml_1_1
  by code_simp

subsection \<open>\<open>log.rs\<close>\<close>

text \<open>The compact text of \<open>serde_json\<close>, for the strings of the test, which need no escapes.\<close>

fun compact :: "json \<Rightarrow> u8 list" where
  "compact JNull = blit ''null''"
| "compact (JBool b) = (if b then blit ''true'' else blit ''false'')"
| "compact (JInt i) = utf8_encode (show_int i)"
| "compact (JString s) = [34] @ utf8_encode s @ [34]"
| "compact (JArray js) = [91] @ join [44] (map compact js) @ [93]"
| "compact (JObject es) = [123] @ join [44] (map (\<lambda>(k, j). [34] @ utf8_encode k @ [34, 58] @ compact j) es) @ [125]"

definition records_are_compact_ordered_and_filtered :: bool where
  "records_are_compact_ordered_and_filtered \<longleftrightarrow>
     (let entry = (\<lambda>l. \<lparr>le_level = l, le_logger = (lit ''x''), le_event = (lit ''e''), le_fields = [((lit ''b''), JInt 1), ((lit ''a''), JString [252])]\<rparr>);
          line = utf8_encode (lit ''{'' @ [34] @ lit ''ts'' @ [34] @ lit '':'' @ [34] @ lit ''1970-01-01T00:00:00Z'' @ [34] @ lit '','' @ [34] @ lit ''level'' @ [34] @ lit '':'' @ [34] @ lit ''ERROR'' @ [34] @ lit '','' @ [34] @ lit ''logger'' @ [34] @ lit '':'' @ [34] @ lit ''x'' @ [34] @ lit '','' @ [34] @ lit ''event'' @ [34] @ lit '':'' @ [34] @ lit ''e'' @ [34] @ lit '','' @ [34] @ lit ''b'' @ [34] @ lit '':1,'' @ [34] @ lit ''a'' @ [34] @ lit '':'' @ [34, 252, 34] @ lit ''}'' @ [10])
      in render compact 0 Warning (entry Info) = None \<and> render compact 0 Warning (entry Error) = Some line)
     \<and> from_name (lit ''warning'') = Some Warning \<and> from_name (lit ''WARN'') = None \<and> from_name (lit ''trace'') = Some Trace
     \<and> Trace < Debug"

lemma records_are_compact_ordered_and_filtered_holds: records_are_compact_ordered_and_filtered
  by code_simp

end
