(* ===== verification/Tests_Form.thy ===== *)
theory Tests_Form
  imports Tests_Base
begin

text \<open>The unit tests of \<open>form.rs\<close>, evaluated on the model.\<close>

definition LIMITS :: limits where
  "LIMITS = \<lparr>max_files = 4, max_fields = 110, max_part_size = 1048576\<rparr>"

definition body_of_parts :: "string \<Rightarrow> (u8 list \<times> string) list \<Rightarrow> u8 list" where
  "body_of_parts boundary parts =
     concat (map (\<lambda>(headers, data). blit ''--'' @ blit boundary @ CRLF @ headers @ CRLF @ CRLF @ blit data @ CRLF) parts)
     @ blit ''--'' @ blit boundary @ blit ''--'' @ CRLF"

fun item_text :: "form_value \<Rightarrow> rstr" where
  "item_text (Text t) = t"
| "item_text (File u) = filename u"

definition texts :: "form_items \<Rightarrow> (rstr \<times> rstr) list" where
  "texts items = map (\<lambda>(name, v). (name, item_text v)) items"

definition ANYMAIL :: "u8 list" where
  "ANYMAIL = blit ''from=Homepage+%3Cjochen-homepage%40wersdoerfer.de%3E&to=a%40b.de'' @
     blit ''&subject=%5BDjango%5D+Fehler+%C3%BC&text=x%0Ay&h%3AAuto-Submitted=auto-generated''"

definition production_shapes :: bool where
  "production_shapes \<longleftrightarrow>
     (case parse test_crates Urlencoded ANYMAIL LIMITS of
        Inl _ \<Rightarrow> False
      | Inr items \<Rightarrow> texts items =
          [((lit ''from''), (lit ''Homepage <jochen-homepage@wersdoerfer.de>'')), ((lit ''to''), (lit ''a@b.de'')),
           ((lit ''subject''), (lit ''[Django] Fehler '' @ [252])), ((lit ''text''), (lit ''x'' @ [10] @ lit ''y'')), ((lit ''h:Auto-Submitted''), (lit ''auto-generated''))])
     \<and> (case and_then (encoding_of test_crates (Some (blit ''multipart/form-data; boundary=0a1b2c'')))
          (\<lambda>e. parse test_crates e
             (body_of_parts ''0a1b2c''
                [((blit ''Content-Disposition: form-data; name='' @ [34] @ blit ''subject'' @ [34]), ''Anmeldung''),
                 ((blit ''Content-Disposition: form-data; name='' @ [34] @ blit ''to'' @ [34]), ''x@y.de''),
                 ((blit ''Content-Disposition: form-data; name='' @ [34] @ blit ''attachment'' @ [34] @ blit ''; filename='' @ [34] @ blit ''a.txt'' @ [34, 13, 10] @ blit ''Content-Type: text/plain''),
                  ''data'')]) LIMITS) of
          Inl _ \<Rightarrow> False
        | Inr items \<Rightarrow>
            texts items = [((lit ''subject''), (lit ''Anmeldung'')), ((lit ''to''), (lit ''x@y.de'')), ((lit ''attachment''), (lit ''a.txt''))]
            \<and> snd (items ! 2) = File \<lparr>filename = (lit ''a.txt''), up_content_type = Some (lit ''text/plain''), up_data = blit ''data''\<rparr>)"

lemma production_shapes_holds: production_shapes
  unfolding production_shapes_def by (intro conjI; code_simp)

definition decoding_follows_unquote_plus :: bool where
  "decoding_follows_unquote_plus \<longleftrightarrow>
     unquote_plus (lit ''a+b%20c%zz%4'') = (lit ''a b c%zz%4'')
     \<and> unquote_plus (lit ''%C3%A4%C3'') = [228, 65533]
     \<and> unquote_plus (lit ''%C3'' @ [228] @ lit ''%A4'') = [65533, 228, 65533]"

lemma decoding_follows_unquote_plus_holds: decoding_follows_unquote_plus
  by code_simp

text \<open>Without the boundary of 257 bytes, one more than \<open>MAX_BOUNDARY_LENGTH\<close>.\<close>

definition content_type_decisions :: bool where
  "content_type_decisions \<longleftrightarrow>
     encoding_of test_crates None = Ok NoEncoding
     \<and> list_all (\<lambda>(v, r). encoding_of test_crates (Some v) = r)
         [(blit ''text/plain'', Ok NoEncoding),
          (blit '' Application/X-WWW-Form-Urlencoded '', Ok Urlencoded),
          (blit ''Multipart/Form-Data; boundary=x'', Ok NoEncoding),
          (blit ''multipart/form-data'', Err form_error.BadRequest),
          (blit ''multipart/form-data; charset=cp1252; boundary=x'', Err form_error.BadRequest),
          ((blit ''multipart/form-data; BOUNDARY='' @ [34] @ blit ''a;b'' @ [34] @ blit ''; charset=Latin-1''), Ok (Multipart (blit ''a;b'') CharsetLatin1))]"

lemma content_type_decisions_holds: content_type_decisions
  by code_simp

definition form_limits :: bool where
  "form_limits \<longleftrightarrow>
     (let tight = \<lparr>max_files = 1, max_fields = 2, max_part_size = 5\<rparr>;
          enc = Multipart (blit ''b'') CharsetUtf8;
          file = (blit ''Content-Disposition: form-data; name='' @ [34] @ blit ''attachment'' @ [34] @ blit ''; filename='' @ [34, 34]);
          field = (blit ''Content-Disposition: form-data; name='' @ [34] @ blit ''text'' @ [34])
      in parse test_crates Urlencoded (blit ''a=1&b=2&c=3'') tight = Err form_error.TooLarge
         \<and> parse test_crates Urlencoded (blit ''a=12345'') tight = Err form_error.TooLarge
         \<and> is_ok (parse test_crates Urlencoded (blit ''&&a=1234&&b&'') tight)
         \<and> parse test_crates enc (body_of_parts ''b'' [(file, ''x''), (file, ''y'')]) tight = Err form_error.TooLarge
         \<and> parse test_crates enc (body_of_parts ''b'' [(field, ''123456'')]) tight = Err form_error.TooLarge)"

lemma form_limits_holds: form_limits
  unfolding form_limits_def Let_def by (intro conjI; code_simp)

end
