(* ===== verification/Tests_Http.thy ===== *)
theory Tests_Http
  imports Tests_Base
begin

text \<open>The unit tests of \<open>http.rs\<close>, evaluated on the model.\<close>

subsection \<open>Evaluation of bytes\<close>

text \<open>Comparisons of bytes as comparisons of numbers, which evaluate faster.\<close>

definition SAFE_codes :: "nat list" where
  "SAFE_codes = [58, 47, 37, 35, 63, 61, 64, 91, 93, 33, 36, 38, 39, 40, 41, 42, 43, 44, 59, 95, 46, 45, 126]"

lemma SAFE_eq: "SAFE = map of_nat SAFE_codes"
  by (simp add: SAFE_def SAFE_codes_def blit_def of_char_def)

lemma quote_code [code]:
  "quote url = concat (map (\<lambda>n. if is_ascii_alphanumeric n \<or> n \<in> set SAFE_codes then [n]
     else [37, hex_upper (n div 16), hex_upper (n mod 16)]) (map unat (utf8_encode url)))"
proof -
  have "quote_char b = (let n = unat b in if is_ascii_alphanumeric n \<or> n \<in> set SAFE_codes then [n]
     else [37, hex_upper (n div 16), hex_upper (n mod 16)])" for b
    by (simp add: quote_char_def byte_is_ascii_alphanumeric_def Let_def SAFE_eq SAFE_codes_def word_unat_eq_iff)
  then show ?thesis by (simp add: quote_def Let_def comp_def cong: map_cong)
qed

lemma header_value_code [code]:
  "header_value s = (if list_all (\<lambda>n. 32 \<le> n \<and> n \<noteq> 127 \<or> n = 9) (map unat (utf8_encode s)) then Some s else None)"
  by (simp add: header_value_def word_unat_eq_iff list_all_iff)

lemma to_str_code [code]:
  "to_str v = (let s = latin1_chars v in if list_all (\<lambda>n. 32 \<le> n \<and> n < 127 \<or> n = 9) s then Some s else None)"
  by (simp add: to_str_def word_unat_eq_iff latin1_chars_def list_all_iff Let_def)

subsection \<open>The service of the tests\<close>

definition f64_of :: "rstr \<Rightarrow> f64 option" where
  "f64_of t = (if t = (lit ''30.0'') then Some (Finite 30) else None)"

text \<open>\<open>Settings::from_env([])\<close>.\<close>

definition settings_of_nothing :: settings where
  "settings_of_nothing = \<lparr>bind_host = (lit ''127.0.0.1''), bind_port = 8085, public_host = (lit ''mailgun.home.xn--wersdrfer-47a.de''),
     secrets_path = (lit ''/etc/mailgun-relay/secrets.yml''), smtp_host = (lit ''smtp.home.xn--wersdrfer-47a.de''), smtp_port = 587,
     smtp_starttls = True, smtp_timeout_s = Finite 30, smtp_ca_file = [], smtp_max_concurrency = 8,
     envelope_sender = [], fail_on_partial_refusal = False, max_body_bytes = 26214400, max_attachments = 10,
     max_attachment_bytes = 10485760, max_recipients = 100, max_header_value_length = 998, log_level = Info\<rparr>"

lemma settings_of_nothing: "from_env test_crates f64_of [] = Ok settings_of_nothing"
  by code_simp

definition http_relay :: relay where
  "http_relay = new_relay 1000 (settings_of_nothing\<lparr>max_body_bytes := 100\<rparr>) []"

definition request_for :: "string \<Rightarrow> rstr \<Rightarrow> http_request" where
  "request_for m uri =
     (case (case split_once 63 uri of Some (p, q) \<Rightarrow> (p, Some q) | None \<Rightarrow> (uri, None)) of (p, q) \<Rightarrow>
        \<lparr>hr_method = lit m, hr_path = p, hr_query = q, hr_headers = [], hr_connection = None, hr_body = []\<rparr>)"

definition call :: "http_request \<Rightarrow> response" where
  "call rq = fst (serve_request test_crates http_relay (\<lambda>_. None) (\<lambda>_. Ok []) [] rq)"

definition header_of :: "response \<Rightarrow> string \<Rightarrow> rstr option" where
  "header_of r name = map_of (rs_headers r) (lit name)"

definition detail :: "string \<Rightarrow> (rstr \<times> rstr) list" where
  "detail message = [((lit ''detail''), lit message)]"

subsection \<open>The tests\<close>

definition health_and_fallbacks :: bool where
  "health_and_fallbacks \<longleftrightarrow>
     (let r = call (request_for ''GET'' (lit ''/health''))
      in rs_status r = 200 \<and> rs_json r = [((lit ''status''), (lit ''ok''))] \<and> header_of r ''content-type'' = Some (lit ''application/json''))
     \<and> list_all (\<lambda>m. let r = call (request_for m (lit ''/health''))
           in rs_status r = 405 \<and> header_of r ''allow'' = Some (lit ''GET'') \<and> rs_json r = detail ''Method Not Allowed'')
         [''HEAD'', ''POST'', ''DELETE'']
     \<and> list_all (\<lambda>p. let r = call (request_for ''GET'' (lit p)) in rs_status r = 404 \<and> rs_json r = detail ''Not Found'')
         [''/'', ''/healthz'', ''/v3/mg.example/messages.mime'', ''/v3//messages'', ''/HEALTH'']
     \<and> list_all (\<lambda>p. rs_status (call (request_for ''GET'' (lit p))) = 200) [''/%68ealth'', ''/health%0A'']"

lemma health_and_fallbacks_holds: health_and_fallbacks
  unfolding health_and_fallbacks_def Let_def by (intro conjI; code_simp)

definition redirected :: "rstr \<Rightarrow> rstr \<Rightarrow> string option \<Rightarrow> ip_addr \<Rightarrow> response" where
  "redirected path host proto peer =
     call ((request_for ''POST'' path)
       \<lparr>hr_headers := [((lit ''host''), map of_nat host)]
          @ (case proto of None \<Rightarrow> [] | Some p \<Rightarrow> [((lit ''x-forwarded-proto''), blit p)]),
        hr_connection := Some \<lparr>remote = (peer, 5000), local_addr = Some (V4 10 1 2 3, 8085)\<rparr>\<rparr>)"

definition redirects_to :: "rstr \<Rightarrow> rstr \<Rightarrow> string option \<Rightarrow> rstr \<Rightarrow> bool" where
  "redirects_to path host proto location \<longleftrightarrow>
     (let near = redirected path host proto (V4 127 0 0 1);
          far = redirected path host proto (V4 10 0 0 1);
          plain = (case split_once 58 location of Some (_, rest) \<Rightarrow> (lit ''http:'') @ rest | None \<Rightarrow> location)
      in rs_status near = 307 \<and> rs_json near = [] \<and> header_of near ''location'' = Some location
         \<and> rs_status far = 307 \<and> rs_json far = [] \<and> header_of far ''location'' = Some plain)"

definition trailing_slash_redirects :: bool where
  "trailing_slash_redirects \<longleftrightarrow>
     redirects_to (lit ''/health/'') (lit ''mailgun.example'') None (lit ''http://mailgun.example/health'')
     \<and> redirects_to (lit ''/health//?a=b%20c'') (lit ''h:8085'') None (lit ''http://h:8085/health?a=b%20c'')
     \<and> redirects_to (lit ''/health/'') (lit ''bad host'') None (lit ''http://10.1.2.3:8085/health'')
     \<and> redirects_to (lit ''/health/'') (lit ''h'') (Some ''https'') (lit ''https://h/health'')
     \<and> redirects_to (lit ''/health/'') (lit ''h'') (Some '' wss '') (lit ''wss://h/health'')
     \<and> redirects_to (lit ''/health/'') (lit ''h'') (Some ''ftp'') (lit ''http://h/health'')
     \<and> rs_status (call (request_for ''GET'' (lit ''/x/''))) = 404
     \<and> header_of (call (request_for ''GET'' (lit ''/health/?q=1''))) ''location'' = Some (lit ''/health?q=1'')"

lemma trailing_slash_redirects_holds: trailing_slash_redirects
  unfolding trailing_slash_redirects_def by (intro conjI; code_simp)

definition declared_length_over_the_limit_is_413_everywhere :: bool where
  "declared_length_over_the_limit_is_413_everywhere \<longleftrightarrow>
     list_all (\<lambda>p.
       (let with_length = (\<lambda>len. call ((request_for ''GET'' (lit p))\<lparr>hr_headers := [((lit ''content-length''), blit len)]\<rparr>));
            over = with_length ''101''
        in rs_status over = 413 \<and> rs_json over = [((lit ''message''), (lit ''Payload Too Large''))]
           \<and> rs_status (with_length ''100'') \<noteq> 413))
       [''/health'', ''/nowhere'', ''/health/'']"

lemma declared_length_over_the_limit_is_413_everywhere_holds: declared_length_over_the_limit_is_413_everywhere
  by code_simp

definition host_header_validation :: bool where
  "host_header_validation \<longleftrightarrow>
     list_all (\<lambda>h. full_match HOST_RE (lit h))
       [''mailgun.example'', ''a.b:8085'', ''[::1]:80'', ''[fe80::1]'', ''LOCALHOST'']
     \<and> list_all (\<lambda>h. \<not> full_match HOST_RE h)
         [[], (lit ''a b''), (lit ''a:''), (lit ''a:b''), (lit ''[::1''), ([252] @ lit ''.de''), (lit ''a.b:80:80''), (lit ''[x::1]'')]"

lemma host_header_validation_holds: host_header_validation
  by code_simp

definition decoding_and_quoting :: bool where
  "decoding_and_quoting \<longleftrightarrow>
     percent_decode (lit ''/v3/a%20b/%2Fx%zz%c3%a4%ff'') = (lit ''/v3/a b//x%zz'' @ [228, 65533])
     \<and> quote (lit ''http://h/a b/'' @ [228] @ lit ''?x=1&y=<'') = (lit ''http://h/a%20b/%C3%A4?x=1&y=%3C'')
     \<and> match_route (lit ''/health'' @ [10]) = Some Health
     \<and> match_route (lit ''/health'' @ [10, 10]) = None"

lemma decoding_and_quoting_holds: decoding_and_quoting
  by code_simp

end
