(* ===== verification/Tests_Mime.thy ===== *)
theory Tests_Mime
  imports Tests_Base
begin

text \<open>
  The unit tests of \<open>mime.rs\<close>, evaluated on the model.  What \<open>lettre\<close> renders is here a plain text: a
  header is its name and the calls on the writer in a row, without the folding of long lines, and a
  part is the line of its media type, so that the type of each part of a message can be read off.
\<close>

subsection \<open>The test double of \<open>lettre\<close>\<close>

fun op_text :: "writer_op \<Rightarrow> rstr" where
  "op_text (Folding s) = s"
| "op_text (WriteChar c) = [c]"
| "op_text (WriteStr s) = s"
| "op_text Space = [32]"
| "op_text (Rfc2047 s) = (lit ''=?utf-8?b?'') @ standard_encode (utf8_encode s) @ (lit ''?='')"

fun header_text :: "mail_header \<Rightarrow> rstr" where
  "header_text (Raw (Value n v)) = n @ (lit '': '') @ v @ [CR, LF]"
| "header_text (Raw (PreEncoded n v ops)) = n @ (lit '': '') @ concat (map op_text ops) @ [CR, LF]"
| "header_text (MessageId i) = (lit ''Message-ID: '') @ i @ [CR, LF]"
| "header_text DateNow = (lit ''Date: now'') @ [CR, LF]"
| "header_text MimeVersion10 = (lit ''MIME-Version: 1.0'') @ [CR, LF]"

definition media_type :: "single_part \<Rightarrow> rstr" where
  "media_type p = takeWhile (\<lambda>c. c \<noteq> 59) (sp_content_type p)"

fun kind_type :: "multipart_kind \<Rightarrow> rstr" where
  "kind_type AlternativeKind = (lit ''multipart/alternative'')"
| "kind_type RelatedKind = (lit ''multipart/related'')"
| "kind_type MixedKind = (lit ''multipart/mixed'')"

fun multi_types :: "multi_part \<Rightarrow> rstr list" and child_types :: "multi_child \<Rightarrow> rstr list" where
  "multi_types (MultiPart k cs) = kind_type k # concat (map child_types cs)"
| "child_types (SingleChild p) = [media_type p]"
| "child_types (MultiChild m) = multi_types m"

text \<open>A line feed before each type: no header of the double has one alone.\<close>

definition type_lines :: "rstr list \<Rightarrow> u8 list" where
  "type_lines ts = utf8_encode (concat (map (\<lambda>t. LF # t) ts))"

definition test_mail :: mail_crates where
  "test_mail = \<lparr>
     b64_decode_indifferent = unpadded_decode,
     b64_encode = standard_encode,
     header_name_ok = (\<lambda>n. n \<noteq> [] \<and> length n \<le> 76 \<and> is_ascii n \<and> 58 \<notin> set n \<and> 32 \<notin> set n),
     parse_content_type = Some,
     headers_to_string = (\<lambda>hs. concat (map header_text hs)),
     single_formatted = (\<lambda>p. type_lines [media_type p]),
     multipart_formatted = (\<lambda>m. type_lines (multi_types m))\<rparr>"

subsection \<open>The helpers of the tests\<close>

definition HOST :: rstr where "HOST = (lit ''relay.example.test'')"

definition sender_of :: "rstr \<Rightarrow> mailbox" where
  "sender_of val = (case parse_mailbox test_crates val of Inr m \<Rightarrow> m | Inl _ \<Rightarrow> \<lparr>display_name = [], mb_local = [], mb_domain = []\<rparr>)"

definition base :: message_input where
  "base = \<lparr>in_from = \<lparr>display_name = (lit ''Alice''), mb_local = (lit ''alice''), mb_domain = (lit ''example.test'')\<rparr>,
     in_to = [(lit ''bob@example.test'')], in_cc = [], in_bcc = [], in_subject = (lit ''hi''), in_text = Some (lit ''hello''),
     in_html = None, in_amp_html = None, in_headers = [], in_attachments = [], in_inline = [],
     in_public_host = HOST\<rparr>"

lemma base_sender: "in_from base = sender_of (lit ''Alice <alice@example.test>'')"
  by code_simp

definition HEX :: rstr where "HEX = (lit ''0123456789abcdef0123456789abcdef'')"

definition build_with :: "message_input \<Rightarrow> invalid_message + built_message" where
  "build_with input = build test_crates test_mail HEX input"

definition refuses :: "message_input \<Rightarrow> bool" where
  "refuses input \<longleftrightarrow> \<not> is_ok (build_with input)"

text \<open>The envelope, the lines of the head and the media types of a message that is built.\<close>

definition envelope_is :: "message_input \<Rightarrow> string list \<Rightarrow> bool" where
  "envelope_is input addresses =
     (case build_with input of Inr b \<Rightarrow> envelope b = map lit addresses | Inl _ \<Rightarrow> False)"

definition head_lines :: "message_input \<Rightarrow> rstr list" where
  "head_lines input =
     (case all_headers_of test_crates test_mail input
        (case parse_recipients test_crates (in_to input) of Inr ms \<Rightarrow> ms | Inl _ \<Rightarrow> [])
        (case parse_recipients test_crates (in_cc input) of Inr ms \<Rightarrow> ms | Inl _ \<Rightarrow> []) (lit ''<id@h>'') of
        Inl _ \<Rightarrow> []
      | Inr (tops, custom) \<Rightarrow> map header_text (tops @ map Raw custom))"

definition has_lines :: "message_input \<Rightarrow> rstr list \<Rightarrow> bool" where
  "has_lines input ls \<longleftrightarrow> (let head = head_lines input in list_all (\<lambda>l. l @ [CR, LF] \<in> set head) ls)"

definition content_types :: "message_input \<Rightarrow> string list \<Rightarrow> bool" where
  "content_types input types =
     (case body_tree test_crates test_mail (non_empty (in_text input)) (non_empty (in_html input))
        (non_empty (in_amp_html input)) (in_inline input) (in_attachments input) of
        Inl _ \<Rightarrow> False
      | Inr t \<Rightarrow> tree_formatted test_mail t = type_lines (map lit types))"

definition png :: "rstr \<Rightarrow> attachment" where
  "png name = \<lparr>att_filename = name, att_content_type = (lit ''image/png''), att_data = [137, 80, 78, 71, 13, 10]\<rparr>"

definition upload_of :: "rstr \<Rightarrow> rstr \<Rightarrow> attachment" where
  "upload_of name type = \<lparr>att_filename = name, att_content_type = type, att_data = blit ''payload''\<rparr>"

subsection \<open>The counterparts of \<open>tests/test_mime_build.py\<close>\<close>

text \<open>Who gets a message and what its head says; \<open>bcc_hidden\<close> is about the text of one with Bcc.\<close>

definition headers_and_envelope :: bool where
  "headers_and_envelope \<longleftrightarrow>
     envelope_is base [''bob@example.test'']
     \<and> has_lines base [(lit ''From: Alice <alice@example.test>''), (lit ''To: bob@example.test'')]
     \<and> (let cc = base\<lparr>in_to := [(lit ''a@example.test'')], in_cc := [(lit ''c@example.test'')]\<rparr>
        in has_lines cc [(lit ''Cc: c@example.test'')] \<and> envelope_is cc [''a@example.test'', ''c@example.test''])
     \<and> (let bcc = base\<lparr>in_to := [(lit ''a@example.test'')], in_bcc := [(lit ''secret@example.test''), (lit ''secret2@example.test'')]\<rparr>
        in envelope_is bcc [''a@example.test'', ''secret@example.test'', ''secret2@example.test''])
     \<and> has_lines (base\<lparr>in_headers := [((lit ''Reply-To''), (lit ''ops@example.test''))]\<rparr>) [(lit ''Reply-To: ops@example.test'')]
     \<and> has_lines (base\<lparr>in_from := sender_of (lit ''Python Podcast <noreply@mg.python-podcast.de>'')\<rparr>)
         [(lit ''From: Python Podcast <noreply@mg.python-podcast.de>'')]"

lemma headers_and_envelope_holds: headers_and_envelope
  unfolding headers_and_envelope_def Let_def by (intro conjI; code_simp)

text \<open>The media types of the parts, outermost first; not their headers and contents.\<close>

definition part_types :: bool where
  "part_types \<longleftrightarrow>
     content_types base [''text/plain'']
     \<and> content_types (base\<lparr>in_text := None, in_html := Some (lit ''<p>hi</p>'')\<rparr>) [''text/html'']
     \<and> content_types (base\<lparr>in_html := Some (lit ''<p>hi</p>'')\<rparr>) [''multipart/alternative'', ''text/plain'', ''text/html'']
     \<and> content_types (base\<lparr>in_html := Some (lit ''<img src='' @ [34] @ lit ''cid:logo.png'' @ [34] @ lit ''>''), in_inline := [png (lit ''logo.png'')],
           in_attachments := [upload_of (lit ''a.pdf'') (lit ''application/pdf'')]\<rparr>)
         [''multipart/mixed'', ''multipart/alternative'', ''text/plain'', ''multipart/related'', ''text/html'',
          ''image/png'', ''application/pdf'']
     \<and> content_types (base\<lparr>in_text := None, in_html := Some (lit ''<img>''), in_inline := [png (lit ''logo.png'')]\<rparr>)
         [''multipart/related'', ''text/html'', ''image/png'']
     \<and> content_types (base\<lparr>in_html := Some (lit ''<p>x</p>''), in_amp_html := Some (lit ''<html amp4email></html>''),
           in_inline := [png (lit ''logo.png'')]\<rparr>)
         [''multipart/alternative'', ''text/plain'', ''multipart/related'', ''text/html'', ''image/png'',
          ''text/x-amp-html'']
     \<and> content_types (base\<lparr>in_inline := [png (lit ''logo.png'')]\<rparr>) [''multipart/mixed'', ''text/plain'', ''image/png'']
     \<and> list_all (\<lambda>container. content_types (base\<lparr>in_attachments := [upload_of (lit ''a.bin'') (lit container)]\<rparr>)
           [''multipart/mixed'', ''text/plain'', ''application/octet-stream''])
         [''multipart/mixed'', ''message/rfc822'', ''Multipart/Related'']
     \<and> content_types (base\<lparr>in_text := Some [], in_html := Some (lit ''<p>hi</p>'')\<rparr>) [''text/html'']"

lemma part_types_holds: part_types
  unfolding part_types_def by (intro conjI; code_simp)

definition refused_messages :: bool where
  "refused_messages \<longleftrightarrow>
     list_all (\<lambda>name. refuses (base\<lparr>in_html := Some (lit ''<p>x</p>''), in_inline := [png name]\<rparr>))
       [(lit ''a'' @ [13, 10] @ lit ''b.png''), (lit ''<logo.png>''), (lit ''<logo.png''), (lit ''logo.png>''), ([9] @ lit ''logo.png''), (lit '' logo.png''), (lit ''a'' @ [127] @ lit ''.png'')]
     \<and> list_all refuses
         [base\<lparr>in_text := Some []\<rparr>, base\<lparr>in_text := None, in_html := Some []\<rparr>,
          base\<lparr>in_text := Some [], in_html := Some []\<rparr>, base\<lparr>in_text := Some [], in_amp_html := Some (lit ''a'')\<rparr>,
          base\<lparr>in_to := [(lit ''=?utf-8?B?YQ0KYg==?= <x@example.test>'')]\<rparr>,
          base\<lparr>in_cc := [(lit ''=?utf-8?B?YQ0KYg==?= <x@example.test>'')]\<rparr>,
          base\<lparr>in_to := [(lit ''j'' @ [246] @ lit ''rg@example.test'')]\<rparr>, base\<lparr>in_cc := [(lit ''j'' @ [246] @ lit ''rg@example.test'')]\<rparr>,
          base\<lparr>in_bcc := [(lit ''j'' @ [246] @ lit ''rg@example.test'')]\<rparr>, base\<lparr>in_headers := [((lit ''Reply-To''), (lit ''j'' @ [246] @ lit ''rg@example.test''))]\<rparr>]"

lemma refused_messages_holds: refused_messages
  unfolding refused_messages_def by (intro conjI; code_simp)

definition idn_addresses :: bool where
  "idn_addresses \<longleftrightarrow>
     (let idn = base\<lparr>in_from := sender_of (lit ''J'' @ [246] @ lit ''rg <sender@wersd'' @ [246] @ lit ''rfer.de>''), in_to := [(lit ''to@wersd'' @ [246] @ lit ''rfer.de'')],
          in_cc := [(lit ''Cc <cc@b'' @ [252] @ lit ''.test>'')], in_bcc := [(lit ''bcc@wersd'' @ [246] @ lit ''rfer.de'')],
          in_headers := [((lit ''Reply-To''), (lit ''reply@wersd'' @ [246] @ lit ''rfer.de''))]\<rparr>
      in has_lines idn
           [(lit ''To: to@xn--wersdrfer-47a.de''), (lit ''Cc: Cc <cc@xn--b-eha.test>''), (lit ''Reply-To: reply@xn--wersdrfer-47a.de''),
            (lit ''From: =?utf-8?b?SsO2cmc=?= <sender@xn--wersdrfer-47a.de>'')]
         \<and> envelope_is idn [''to@xn--wersdrfer-47a.de'', ''cc@xn--b-eha.test'', ''bcc@xn--wersdrfer-47a.de''])"

lemma idn_addresses_holds: idn_addresses
  unfolding idn_addresses_def Let_def by (intro conjI; code_simp)

subsection \<open>The other tests\<close>

definition line_break_detection_fails_closed :: bool where
  "line_break_detection_fails_closed \<longleftrightarrow>
     list_all (may_decode_to_line_break test_mail)
       [(lit ''=?utf-8?B?YQ0KYg==?= <a@x.de>''), (lit ''=?UTF-8?b?YQ0KYg?= <a@x.de>''), (lit ''=?utf-8?q?a=0Db?= <a@x.de>''),
        (lit ''=?utf-8?q?=0A?= <a@x.de>''), (lit ''=?iso-8859-1*de?Q?a=0Ab?= <a@x.de>''), ([34] @ lit ''x =?utf-8?B?YQ0KYg==?='' @ [34] @ lit '' <a@x.de>''),
        (lit ''a=?utf-8?B?YQ0KYg==?=b <a@x.de>''), (lit ''=?utf-7?q?+AA0-?= <a@x.de>''), (lit ''=?utf-16?b?DQA=?= <a@x.de>''),
        (lit ''=?utf-8?b?YQ0*?= <a@x.de>''), (lit ''=?utf-8?b?Y?= <a@x.de>'')]
     \<and> list_all (\<lambda>v. \<not> may_decode_to_line_break test_mail v)
         [(lit ''=?utf-8?q?J=C3=B6rg?= <a@x.de>''), (lit ''=?utf-8?B?SsO2cmc=?= <a@x.de>''), (lit ''=?windows-1252?q?J=F6rg?= <a@x.de>''),
          (lit ''=?utf-8?x?YQ0KYg==?= <a@x.de>''), (lit ''=?utf-8?q?=+A?= <a@x.de>''), (lit ''=?utf-8?B?YQ0KYg== <a@x.de>''),
          (lit ''1+1=? (a?b?c) <a@x.de>''), (lit ''a@x.de'')]"

lemma line_break_detection_fails_closed_holds: line_break_detection_fails_closed
  unfolding line_break_detection_fails_closed_def by (intro conjI; code_simp)

definition upload_content_types :: bool where
  "upload_content_types \<longleftrightarrow>
     list_all (\<lambda>(raw, t). leaf_content_type test_crates test_mail raw = t)
       [((lit ''IMAGE/PNG''), (lit ''image/png'')), ((lit ''image/png; name=a''), (lit ''image/png'')), ((lit '' text/plain ;charset=x''), (lit ''text/plain'')),
        ((lit ''image/svg+xml''), (lit ''image/svg+xml''))]
     \<and> list_all (\<lambda>broken. leaf_content_type test_crates test_mail broken = OCTET_STREAM)
         [[], (lit ''image''), (lit ''image/''), (lit ''/png''), (lit ''a b/c''), (lit ''image/png/x''), (lit ''t'' @ [228] @ lit ''/x''), (lit ''multipart/mixed''), (lit ''message/rfc822'')]"

lemma upload_content_types_holds: upload_content_types
  by code_simp

definition display_names_are_quoted_like_python :: bool where
  "display_names_are_quoted_like_python \<longleftrightarrow>
     has_lines
       (base\<lparr>in_to :=
         [(lit ''Jane (c) <a@x.de>''), (lit ''(c) <b@x.de>''), (lit ''a@x.de (Kommentar)''), ([34] @ lit ''Doe, Jane'' @ [34] @ lit '' <d@x.de>''), ([34] @ lit ''a'' @ [92, 92] @ lit ''b'' @ [34] @ lit '' <s@x.de>''),
          (lit ''=?utf-8?q?J=C3=B6rg?= <j@x.de>''), (lit ''J'' @ [246] @ lit ''rg <k@x.de>'')]\<rparr>)
       [(lit ''To: '' @ [34] @ lit ''Jane (c)'' @ [34] @ lit '' <a@x.de>, '' @ [34] @ lit '' (c)'' @ [34] @ lit '' <b@x.de>, Kommentar <a@x.de>, '' @ [34] @ lit ''Doe, Jane'' @ [34] @ lit '' <d@x.de>, '') @
        ([34] @ lit ''a'' @ [92, 92] @ lit ''b'' @ [34] @ lit '' <s@x.de>, =?utf-8?q?J=C3=B6rg?= <j@x.de>, =?utf-8?b?SsO2cmc=?= <k@x.de>'')]"

lemma display_names_are_quoted_like_python_holds: display_names_are_quoted_like_python
  by code_simp

text \<open>A message is refused as soon as one of its parts is.\<close>

lemma build_parts:
  assumes "is_ok (build X M hex input)"
  shows "is_ok (custom_headers X M (in_headers input) {})"
    "is_ok (unstructured_header M (lit ''Subject'') (in_subject input))"
    "is_ok (address_header M (lit ''From'') [in_from input])"
    "\<exists>ms. parse_recipients X (in_to input) = Ok ms \<and> (ms = [] \<or> is_ok (address_header M (lit ''To'') ms))"
    "is_ok (body_tree X M (non_empty (in_text input)) (non_empty (in_html input)) (non_empty (in_amp_html input))
       (in_inline input) (in_attachments input))"
  using assms
  by (auto simp: is_ok_def build_def Let_def all_headers_of_def top_headers_def and_then_Inr_iff map_ok_Inr_iff
      split: sum.splits if_splits)

text \<open>
  Without the two overlong words in \<open>q\<close> encoding and without what a parser reads back from the
  rendered message.
\<close>

definition refused_headers :: "(rstr \<times> rstr) list list" where
  "refused_headers =
     map (\<lambda>h. [h])
       [((lit ''Orig-Date''), (lit ''Mon, 1 Jan 2024 10:00:00 +0000'')), ((lit ''X-'') @ replicate 80 97, (lit ''v'')),
        ((lit ''X-Mixed''), (lit ''Gr'' @ [252, 223] @ lit ''e =?utf-8?q?J=C3=B6rg?='')), ((lit ''References''), (lit ''<j'' @ [246] @ lit ''rg@x.test>'')),
        ((lit ''In-Reply-To''), (lit ''=?utf-8?q?abc?='')), ((lit ''In-Reply-To''), (lit ''<a@b'')), ((lit ''References''), (lit ''<a@b>,<c@d>'')),
        ((lit ''References''), (lit ''<a..b@c>'')), ((lit ''References''), (lit ''garbage'')),
        ((lit ''Reply-To''), (lit ''=?utf-8?q?a=3Cb?= <r@x.de>'')), ((lit ''Reply-To''), (lit ''=?utf-8?B?YQ0KYg==?= <r@x.de>'')),
        ((lit ''X-A''), (lit ''=?utf-8?b?YQ*?=''))]
     @ [[((lit ''In-Reply-To''), (lit ''<a@b>'')), ((lit ''in-reply-to''), (lit ''<c@d>''))], [((lit ''Reply-To''), (lit ''a@x.de'')), ((lit ''reply-to''), (lit ''b@x.de''))]]"

definition refused_subjects :: "rstr list" where
  "refused_subjects =
     [(lit ''Gr'' @ [252, 223] @ lit ''e =?utf-8?q?J=C3=B6rg?=''), (lit ''=?utf-8?q?=3D=3Futf-8=3Fq=3Fhello=3F=3D?=''), (lit ''=?utf-8?q?_a?='')]"

definition refused_recipients :: "rstr list" where
  "refused_recipients =
     [(lit ''J'' @ [246] @ lit ''rg =?utf-8?q?J=C3=B6rg?= <b@x.de>''), (lit ''=?bogus?q?abc?= <b@x.de>''),
      (lit ''=?utf-8?q?Doe=2C_Jane?= <bob@example.test>''), (lit ''=?utf-8?q?a_?= <b@x.de>''), (lit ''=?utf-8?q?J=C3=B6rg?=@x.de'')]"

definition refused_senders :: "rstr list" where
  "refused_senders =
     [(lit ''J'' @ [246] @ lit ''rg =?utf-8?q?J=C3=B6rg?= <b@x.de>''), (lit ''=?utf-8?q?a_=28c=29?= <a@x.de>''), (lit ''=?bogus?q?abc?= <a@x.de>'')]"

definition refused_uploads :: "(attachment list \<times> attachment list) list" where
  "refused_uploads =
     [([], [upload_of (lit ''a'' @ [10] @ lit ''b.txt'') []]), ([], [upload_of (lit ''a'' @ [12] @ lit ''b.txt'') []]),
      ([png (lit ''a'' @ [8232] @ lit ''b.png'')], []), ([png (lit ''a'' @ [133] @ lit ''b.png'')], [])]"

definition exotic_headers :: bool where
  "exotic_headers \<longleftrightarrow>
     list_all (\<lambda>hs. refuses (base\<lparr>in_headers := hs\<rparr>)) refused_headers
     \<and> list_all (\<lambda>subject. refuses (base\<lparr>in_subject := subject\<rparr>)) refused_subjects
     \<and> list_all (\<lambda>recipient. refuses (base\<lparr>in_to := [recipient]\<rparr>)) refused_recipients
     \<and> list_all (\<lambda>frm. refuses (base\<lparr>in_from := sender_of frm\<rparr>)) refused_senders
     \<and> list_all (\<lambda>(inline, atts). refuses (base\<lparr>in_html := Some (lit ''<p>x</p>''), in_inline := inline, in_attachments := atts\<rparr>))
         refused_uploads
     \<and> (let kept = base\<lparr>in_subject := (lit ''=?utf-8?B?YQ0KYg==?=''), in_to := [(lit ''=?utf-8?q?Doe=2C_J=C3=B6rg?= <bob@example.test>'')],
            in_headers := [((lit ''X-A''), (lit ''one'')), ((lit ''x-a''), (lit ''two'')), ((lit ''References''), (lit '' <a@b>  <c.d@e.f>'')), ((lit ''X-Umlaut''), (lit '' Gr'' @ [252, 223] @ lit ''e ''))]\<rparr>
        in has_lines kept
          [(lit ''Subject: =?utf-8?B?YQ0KYg==?=''), (lit ''X-A: one''), (lit ''x-a: two''), (lit ''References:  <a@b>  <c.d@e.f>''),
           (lit ''X-Umlaut: =?utf-8?b?R3LDvMOfZSA=?='')])"

lemma exotic_headers_holds: exotic_headers
proof -
  have "list_all (\<lambda>hs. \<not> is_ok (custom_headers test_crates test_mail hs {})) refused_headers"
    by code_simp
  then have 1: "list_all (\<lambda>hs. refuses (base\<lparr>in_headers := hs\<rparr>)) refused_headers"
    by (auto simp: list_all_iff refuses_def build_with_def dest!: build_parts(1))
  have "list_all (\<lambda>v. \<not> is_ok (unstructured_header test_mail (lit ''Subject'') v)) refused_subjects"
    by code_simp
  then have 2: "list_all (\<lambda>subject. refuses (base\<lparr>in_subject := subject\<rparr>)) refused_subjects"
    by (auto simp: list_all_iff refuses_def build_with_def dest!: build_parts(2))
  have "list_all (\<lambda>v. case parse_recipients test_crates [v] of
      Inl _ \<Rightarrow> True | Inr ms \<Rightarrow> ms \<noteq> [] \<and> \<not> is_ok (address_header test_mail (lit ''To'') ms)) refused_recipients"
    by code_simp
  then have 3: "list_all (\<lambda>recipient. refuses (base\<lparr>in_to := [recipient]\<rparr>)) refused_recipients"
    by (fastforce simp: list_all_iff refuses_def build_with_def dest!: build_parts(4))
  have "list_all (\<lambda>v. \<not> is_ok (address_header test_mail (lit ''From'') [sender_of v])) refused_senders"
    by code_simp
  then have 4: "list_all (\<lambda>frm. refuses (base\<lparr>in_from := sender_of frm\<rparr>)) refused_senders"
    by (auto simp: list_all_iff refuses_def build_with_def dest!: build_parts(3))
  have "list_all (\<lambda>(inline, atts). \<not> is_ok (body_tree test_crates test_mail (Some (lit ''hello'')) (Some (lit ''<p>x</p>'')) None
      inline atts)) refused_uploads"
    by code_simp
  then have 5: "list_all (\<lambda>(inline, atts). refuses
      (base\<lparr>in_html := Some (lit ''<p>x</p>''), in_inline := inline, in_attachments := atts\<rparr>)) refused_uploads"
    by (auto simp: list_all_iff refuses_def build_with_def base_def non_empty_def lit_def dest!: build_parts(5))
  show ?thesis
    unfolding exotic_headers_def Let_def by (intro conjI 1 2 3 4 5) code_simp
qed

end
