(* ===== verification/Spec2Isabelle.thy ===== *)
theory Spec2Isabelle
  imports Launch Relay_Stream Build_Script Mime Permissions Tests_Text Tests_Config Tests_Form Tests_Http Tests_Mime
begin

text \<open>
  mailgun-relay answers Mailgun's HTTP API (\<open>POST /v3/<domain>/messages\<close>) by sending the mail over
  SMTP.  This development models the Rust implementation, \<open>rust/src\<close>, as HOL functions that compute
  what the code computes, branch by branch, and proves what the relay promises its clients and its
  operators.

  The way of a request, and the theories it passes:

    \<^item> \<open>main.rs\<close>, \<open>config.rs\<close>, \<open>secrets.rs\<close>, \<open>yaml.rs\<close> (theories \<open>Service\<close>, \<open>Config\<close>, \<open>Secrets\<close>, \<open>Yaml\<close>
      with \<open>Regex\<close>, \<open>Token_Policy\<close>): the environment becomes the record \<open>settings\<close>, the secrets file
      the SMTP credentials and a list of \<open>token_policy\<close>; \<open>load_configuration\<close> composes them with the
      SMTP configuration.  The YAML subset is an event machine, \<open>yaml_step\<close> on a stack of frames.
      \<open>Permissions\<close> composes the loading of a token entry with the policy check of a request.
    \<^item> \<open>http.rs\<close> (\<open>Http\<close>): \<open>serve_request\<close> refuses a declared length over the limit, \<open>dispatch\<close> routes
      the path, answers \<open>/health\<close>, redirects a path with trailing slashes, and hands the rest on.
    \<^item> \<open>pipeline.rs\<close> (\<open>Pipeline\<close>): \<open>process\<close> is one request, \<open>decide\<close> its steps in their order:
      \<open>authenticate\<close> (\<open>Auth\<close>), \<open>read_body\<close>, \<open>parse\<close> of \<open>form.rs\<close> (\<open>Form_Types\<close>, \<open>Form_Url\<close>,
      \<open>Form_Multipart\<close>), \<open>parse_form\<close>, \<open>enforce_policy\<close> (\<open>Policy\<close>, on \<open>Address\<close> and \<open>Domain\<close>), the checks of
      \<open>headers.rs\<close> (\<open>Headers\<close>), the message builder, the submission, the answer.  A run yields the
      response and the list of \<open>action\<close>s: frames read, messages submitted, log lines.
    \<^item> \<open>mime.rs\<close> (\<open>Mime_Types\<close>, \<open>Mime_Words\<close>, \<open>Mime\<close>): \<open>build\<close> turns the \<open>message_input\<close> into a
      \<open>built_message\<close>: the header values as the calls on lettre's header writer, the MIME tree, the
      envelope.
    \<^item> \<open>smtp.rs\<close> (\<open>Smtp\<close>): \<open>session\<close> runs one transaction over the connection API of \<open>lettre\<close>.  The
      connection is a state that lives in the parameter \<open>lettre\<close>; next to it the model threads the
      list of events, each command with the reply it got.
    \<^item> \<open>log.rs\<close> (\<open>Log\<close>, \<open>Calendar\<close>, \<open>Service\<close>): the records with their fields, which lines are
      written, the timestamp, the startup record.
    \<^item> \<open>build.rs\<close> (\<open>Build_Script\<close>): the embedded commit and the paths cargo watches, from what \<open>git\<close>
      prints.
    \<^item> The process as a whole (\<open>Launch\<close>, \<open>Server\<close>, \<open>Server_Runs\<close>): \<open>launch\<close> is \<open>serve\<close> and \<open>run\<close> of \<open>main.rs\<close> up
      to the first request, with \<open>bind_all\<close>; then \<open>server_step\<close> moves a state with one \<open>task\<close> per request
      (\<open>post_messages\<close>), the free slots of the semaphore and the mode of the shutdown.  \<open>prepare\<close> and
      \<open>after_session\<close> are \<open>decide\<close> cut at the semaphore.  \<open>Relay_Stream\<close> is the stream below lettre.
    \<^item> \<open>Prelude\<close>, \<open>Pystr\<close>, \<open>Utf8\<close>: Rust's results, strings and slices, Python's \<open>strip\<close>, UTF-8.
    \<^item> The unit tests of \<open>rust/src\<close> with literal inputs (\<open>Tests_Text\<close>, \<open>Tests_Config\<close>, \<open>Tests_Form\<close>,
      \<open>Tests_Http\<close>, \<open>Tests_Mime\<close> on \<open>Tests_Base\<close>): each test function is a predicate on the model, with
      the name of the test where it is free, and a lemma \<open>..._holds\<close> evaluates it, so the model answers the inputs of these tests
      as the code does.

  Data.  A \<open>String\<close> is the list of its scalar values (\<open>rstr\<close>), a \<open>Vec<u8>\<close> a list of \<open>8 word\<close>, a
  \<open>Result\<close> a sum with \<open>Err\<close> and \<open>Ok\<close>, a struct a record, an enum a datatype; settings of type \<open>i64\<close> are
  integers, with the bounds that \<open>parse_int\<close> keeps, and ports and code points have their width.  A
  cursor into a buffer is the unread rest; byte offsets into a string are character offsets where
  they only mark ASCII characters.  No fuel is used: every loop is a structural recursion or has a
  measure, so every function of the model returns on every input.

  Parameters.  What is not in this repository is an argument of the model: the record \<open>crates\<close>
  (\<open>idna\<close>, \<open>sha2\<close>, \<open>base64\<close>, \<open>subtle\<close> and the Unicode tables of the standard library; theory \<open>Crates\<close>
  states what the code relies on), \<open>yaml_rust2\<close> (scanner and parser), \<open>tls_crates\<close>, \<open>lettre\<close> (name
  resolution, connections, SMTP commands), \<open>mail_crates\<close> (base64 and what lettre renders), the
  file system of \<open>Secrets\<close>, the parsing of a floating point number.  Theorems carry the documented
  behaviour they need as named hypotheses, for example \<open>idna_ok\<close> (a name that \<open>to_ascii\<close> accepts is an
  LDH name and a fixed point) or \<open>stays_encrypted\<close> (a connection that is encrypted stays so), and
  have a witness at concrete functions, \<open>ascii_crates\<close>, \<open>demo_server\<close>, \<open>demo_mail\<close>.

  Lemmas.  The parsers: round trips with a printer (addr-specs, mailbox lists, urlencoded and
  multipart forms, integers, YAML events), soundness of whatever is accepted, limits.  What leaves
  the relay as text is read back by an independent reader: header blocks by \<open>read_fields\<close>, the
  \<open>Location\<close> of a redirect by \<open>url_path\<close> and \<open>url_query\<close>.  The locales
  \<open>canonical_names\<close> (what a domain check promises) and \<open>control_free\<close> (a value that cannot start
  another header line) are interpreted on every function that gives the promise.  The pipeline:
  \<open>process_cases\<close> splits a run into its four endings, and the properties of \<open>process\<close> follow from it.
  The SMTP session: \<open>smtp_step\<close> is the abstract protocol, a state machine over events; \<open>session_run\<close>
  shows that every session is one of its runs, and the security properties are invariants of the
  machine.  Over the running process, \<open>task_ok\<close> relates every task at every moment to the sequential
  \<open>process\<close>, \<open>slots_account\<close> counts the slots, and the measure \<open>work_left\<close> with \<open>shutdown_progress\<close> gives
  the end of the shutdown: no run after the signal is endless, and none hangs.  \<open>submitter\<close> is the
  contract between the pipeline and the session.  This theory composes router, pipeline, builder and
  session to \<open>relay_serves\<close> and states what holds end to end.

  Not modelled: the scheduling of tokio, the connections and the HTTP protocol of axum and hyper
  (a request arrives whole, its body as frames), the order in which the semaphore serves its
  waiters, and time but for the timestamps and the timeouts that are passed on; the JSON text of log
  lines and bodies (serde, relied on to be one line); what lettre makes of header writer calls and
  parts; the tests that read fixture files or talk to fake servers (\<open>pipeline_tests.rs\<close>,
  \<open>smtp_tests.rs\<close>) and those that parse a rendered message; the Python implementation and the
  scripts that compare the two.
\<close>

subsection \<open>The composed service\<close>

definition relay_serves ::
  "crates \<Rightarrow> mail_crates \<Rightarrow> ('a, 'c) lettre \<Rightarrow> relay \<Rightarrow> smtp_config \<Rightarrow> rstr \<Rightarrow> rstr \<Rightarrow> http_request
   \<Rightarrow> response \<times> action list" where
  "relay_serves X M L R cfg rid hex rq =
     serve_request X R (\<lambda>input. Some (build X M hex input)) (\<lambda>m. outcome (session L cfg m)) rid rq"

lemma serve_request_cases:
  assumes "serve_request X R bld submit rid rq = (resp, acts)"
  obtains (nothing) "acts = []" "rs_status resp \<in> {200, 307, 404, 405, 413}"
  | (route) d where "process X R bld submit rid (pipeline_request rq d) = (resp, acts)"
  using assms
  by (auto simp: serve_request_def dispatch_def Let_def json_response_def method_not_allowed_def redirect_def
      split: option.splits route.splits if_split_asm)

text \<open>The answers a client can get; a request over a declared limit never reaches the log.\<close>

lemma never_rate_limited:
  assumes "relay_serves X M L R cfg rid hex rq = (resp, acts)"
  shows "rs_status resp \<in> {200, 307, 400, 401, 403, 404, 405, 413, 500, 502, 503} \<and> rs_status resp \<noteq> 429"
proof -
  have "rs_status resp \<in> {200, 307, 400, 401, 403, 404, 405, 413, 500, 502, 503}"
    using assms unfolding relay_serves_def
  proof (cases rule: serve_request_cases)
    case (route d)
    from route show ?thesis
      by (cases rule: process_cases)
        (auto simp: rejection_def submit_failure_def split: submit_error.splits if_splits)
  qed auto
  then show ?thesis by auto
qed

lemma unrouted_answer:
  assumes "\<not> declared_too_large (r_settings R) rq" "hr_path rq = lit ''/''"
  shows "fst (relay_serves X M L R cfg rid hex rq) = json_response 404 [(lit ''detail'', lit ''Not Found'')]"
proof -
  have "match_route (percent_decode (lit ''/'')) = None" "percent_decode (lit ''/'') = [47]" by code_simp+
  with assms show ?thesis by (simp add: relay_serves_def serve_request_def dispatch_def Let_def)
qed

lemma oversized_not_logged:
  "declared_too_large (r_settings R) rq \<Longrightarrow>
   relay_serves X M L R cfg rid hex rq = (json_response 413 [(lit ''message'', lit ''Payload Too Large'')], [])"
  by (simp add: relay_serves_def serve_request_def)

text \<open>A printable display name keeps its encoded words.\<close>

lemma display_name_forwarded:
  "display_ops M 6 (lit ''=?utf-8?q?J=C3=B6rg?='') = Ok [Folding (lit ''=?utf-8?q?J=C3=B6rg?='')]"
  by code_simp



text \<open>The counts of a partial refusal make sense: the log line about refused recipients names fewer
  of them than the message has recipients, at least one, and lists each refused domain of the
  envelope; nobody outside the envelope appears.\<close>

lemma partial_refusal_is_partial:
  assumes "relay_serves X M L R cfg rid hex rq = (resp, acts)" "LogRefused p \<in> set acts"
  shows "0 < pr_refused_count p \<and> pr_refused_count p < pr_recipient_count p
     \<and> (\<exists>m. submitted acts = [m] \<and> pr_recipient_count p = length (envelope m)
          \<and> fst ` set (pr_refused p) \<subseteq> refused_domain X ` set (envelope m))"
proof -
  from assms(1) have s: "serve_request X R (\<lambda>input. Some (build X M hex input)) (\<lambda>m. outcome (session L cfg m)) rid rq
      = (resp, acts)" by (simp add: relay_serves_def)
  then show ?thesis
  proof (cases rule: serve_request_cases)
    case (route d)
    from route show ?thesis
    proof (cases rule: process_cases)
      case (sent policy parsed input m refused reads rec logged)
      have p: "LogRefused p \<in> set logged" using assms(2) sent(3,6) by auto
      with sent(7,8) have counts: "refused \<noteq> []" "pr_refused_count p = length refused"
        "pr_recipient_count p = length (envelope m)" "pr_refused p = refused_entries X refused" by auto
      have "set (refused_entries X refused) = (\<lambda>r. (refused_domain X (refused_address r), refused_code r)) ` set refused"
        by (simp add: refused_entries_def)
      then have "fst ` set (pr_refused p) \<subseteq> refused_domain X ` set (envelope m)"
        using smtp_session.refused_in_envelope [OF sent(2)] counts(4) by auto
      with counts smtp_session.some_accepted [OF sent(2)] sent submitted_logged [OF sent(7)]
      show ?thesis by (auto simp: submitted_reads)
    qed (use assms(2) in auto)
  qed (use assms(2) in auto)
qed


subsection \<open>A request followed to the SMTP server\<close>

definition demo_post :: http_request where
  "demo_post = \<lparr>hr_method = lit ''POST'', hr_path = lit ''/v3/Example.com/messages'', hr_query = None,
     hr_headers = [(lit ''authorization'', blit ''Basic YXBpOnQ=''),
       (lit ''content-type'', blit ''application/x-www-form-urlencoded'')],
     hr_connection = None,
     hr_body = [Data (blit ''from=J+%3Cj%40example.com%3E&to=a%40b.c&to=nobody%40b.c&''),
       Data (blit ''subject=Hi&text=Hello'')]\<rparr>"

lemma demo_serves_eval:
  "case relay_serves ascii_crates demo_mail demo_server demo_relay demo_config (lit ''r1'') (lit ''00'') demo_post of
     (resp, acts) \<Rightarrow> (case submitted acts of
        [m] \<Rightarrow> envelope m = [lit ''a@b.c'', lit ''nobody@b.c'']
          \<and> (case acts of _ # _ # LogRefused p # LogRequest rec # _ \<Rightarrow> error_class rec = None | _ \<Rightarrow> False)
          \<and> (case history (session demo_server demo_config m) of
               _ # _ # _ # _ # _ # _ # EvMessage body r # _ \<Rightarrow> r = Inr 250 | _ \<Rightarrow> False)
      | _ \<Rightarrow> False)"
  by code_simp

lemma demo_serves:
  obtains resp acts m p rec pre body post where
    "relay_serves ascii_crates demo_mail demo_server demo_relay demo_config (lit ''r1'') (lit ''00'') demo_post
       = (resp, acts)"
    "submitted acts = [m]" "envelope m = [lit ''a@b.c'', lit ''nobody@b.c'']"
    "LogRefused p \<in> set acts" "LogRequest rec \<in> set acts" "error_class rec = None"
    "history (session demo_server demo_config m) = pre @ EvMessage body (Inr 250) # post"
proof -
  obtain resp acts where s:
    "relay_serves ascii_crates demo_mail demo_server demo_relay demo_config (lit ''r1'') (lit ''00'') demo_post
       = (resp, acts)" by fastforce
  with demo_serves_eval obtain m where m: "submitted acts = [m]" "envelope m = [lit ''a@b.c'', lit ''nobody@b.c'']"
    and a: "case acts of _ # _ # LogRefused p # LogRequest rec # _ \<Rightarrow> error_class rec = None | _ \<Rightarrow> False"
    and h: "case history (session demo_server demo_config m) of
         _ # _ # _ # _ # _ # _ # EvMessage body r # _ \<Rightarrow> r = Inr 250 | _ \<Rightarrow> False"
    by (auto split: list.splits prod.splits)
  from a obtain x y p rec z where "acts = x # y # LogRefused p # LogRequest rec # z" "error_class rec = None"
    by (auto split: list.splits action.splits)
  then have "LogRefused p \<in> set acts" "LogRequest rec \<in> set acts" "error_class rec = None" by simp_all
  moreover from h obtain e1 e2 e3 e4 e5 e6 body post where
    "history (session demo_server demo_config m) = [e1, e2, e3, e4, e5, e6] @ EvMessage body (Inr 250) # post"
    by (auto split: list.splits smtp_event.splits)
  ultimately show ?thesis using that s m by blast
qed



end
